(* ===== verification/Prelude.thy ===== *)
theory Prelude
  imports Main "HOL-Library.Word"
begin

text \<open>
  Shared vocabulary of the development: the machine types of gem5's \<^verbatim>\<open>base/types.hh\<close>, the
  result type in which every \<^verbatim>\<open>assert\<close>, \<^verbatim>\<open>panic\<close>, \<^verbatim>\<open>fatal\<close> and out-of-range access of the
  simulator is a value, and the generic facts about words, lists and results that the component
  theories use.
\<close>

unbundle bit_operations_syntax

declare push_bit_Suc [simp del] drop_bit_Suc [simp del] take_bit_Suc [simp del]

named_theorems result_simps \<open>unfolding rules for the result combinators\<close>
named_theorems bits_simps \<open>bitwise characterisations of word operations\<close>

section \<open>Machine types\<close>

text \<open>\<^verbatim>\<open>Addr\<close> and \<^verbatim>\<open>Tick\<close> are \<^verbatim>\<open>uint64_t\<close>; \<^verbatim>\<open>MaxAddr\<close> and \<^verbatim>\<open>MaxTick\<close> are all ones.\<close>

type_synonym addr = "64 word"
type_synonym tick = "64 word"
type_synonym u32 = "32 word"
type_synonym u8 = "8 word"
type_synonym domain_id = "64 word"

definition MaxAddr :: addr where
  "MaxAddr = - 1"

definition MaxTick :: tick where
  "MaxTick = - 1"

section \<open>Simulator errors as values\<close>

text \<open>
  \<open>Assert\<close> is a failed \<^verbatim>\<open>assert\<close>, \<open>Panic\<close> and \<open>Fatal\<close> are gem5's \<^verbatim>\<open>panic\<close> and \<^verbatim>\<open>fatal\<close>,
  \<open>OutOfRange\<close> is the exception of a checked container access (\<^verbatim>\<open>vector::at\<close>), and \<open>Undefined\<close>
  marks a step that is undefined behaviour in C++ (for instance \<^verbatim>\<open>pop_back\<close> on an empty vector).
\<close>

datatype sim_error = Assert | Panic | Fatal | OutOfRange | Undefined

type_synonym 'a result = "sim_error + 'a"

definition bind_result :: "'a result \<Rightarrow> ('a \<Rightarrow> 'b result) \<Rightarrow> 'b result" where
  "bind_result r f = (case r of Inl e \<Rightarrow> Inl e | Inr x \<Rightarrow> f x)"

definition require :: "bool \<Rightarrow> sim_error \<Rightarrow> 'a result \<Rightarrow> 'a result" where
  "require b e r = (if b then r else Inl e)"

fun is_ok :: "'a result \<Rightarrow> bool" where
  "is_ok (Inr _) = True"
| "is_ok (Inl _) = False"

lemma bind_result_Inl [simp]: "bind_result (Inl e) f = Inl e"
  by (simp add: bind_result_def)

lemma bind_result_Inr [simp]: "bind_result (Inr x) f = f x"
  by (simp add: bind_result_def)

lemma bind_result_eq_Inr [result_simps]:
  "bind_result r f = Inr y \<longleftrightarrow> (\<exists>x. r = Inr x \<and> f x = Inr y)"
  by (cases r) auto

lemma require_True [simp]: "require True e r = r"
  by (simp add: require_def)

lemma require_False [simp]: "require False e r = Inl e"
  by (simp add: require_def)

lemma require_eq_Inr [result_simps]: "require b e r = Inr y \<longleftrightarrow> b \<and> r = Inr y"
  by (simp add: require_def)

lemma is_ok_iff: "is_ok r \<longleftrightarrow> (\<exists>x. r = Inr x)"
  by (cases r) auto

text \<open>A loop over a list that threads a state and stops at the first error.\<close>

fun fold_result :: "('a \<Rightarrow> 's \<Rightarrow> 's result) \<Rightarrow> 'a list \<Rightarrow> 's \<Rightarrow> 's result" where
  "fold_result f [] s = Inr s"
| "fold_result f (x # xs) s = bind_result (f x s) (fold_result f xs)"

text \<open>A checked container access.\<close>

definition nth_result :: "'a list \<Rightarrow> nat \<Rightarrow> 'a result" where
  "nth_result xs i = (if i < length xs then Inr (xs ! i) else Inl OutOfRange)"

lemma nth_result_Inr [result_simps]: "nth_result xs i = Inr x \<longleftrightarrow> i < length xs \<and> x = xs ! i"
  by (auto simp: nth_result_def)

lemma fold_result_invariant:
  assumes "fold_result f xs s = Inr t" and "P s"
    and "\<And>x a b. x \<in> set xs \<Longrightarrow> P a \<Longrightarrow> f x a = Inr b \<Longrightarrow> P b"
  shows "P t"
  using assms
proof (induction xs arbitrary: s)
  case Nil
  then show ?case by simp
next
  case (Cons x xs)
  from Cons.prems(1) obtain u where u: "f x s = Inr u" and t: "fold_result f xs u = Inr t"
    by (auto simp: result_simps)
  have "P u" by (rule Cons.prems(3) [OF _ Cons.prems(2) u]) simp
  then show ?case using t Cons.prems(3) by (intro Cons.IH [of u]) auto
qed

section \<open>Words\<close>

lemma word_eq_by_bits: "(\<And>n. n < LENGTH('a) \<Longrightarrow> bit v n = bit w n) \<Longrightarrow> v = (w :: 'a::len word)"
  by (rule bit_word_eqI)

lemmas word_bit_iffs [bits_simps] =
  bit_and_iff bit_or_iff bit_xor_iff bit_not_iff bit_push_bit_iff bit_drop_bit_eq bit_take_bit_iff
  bit_mask_iff

lemma unat_less_power_iff_bits:
  fixes w :: "'a::len word"
  shows "unat w < 2 ^ k \<longleftrightarrow> (\<forall>n \<ge> k. \<not> bit w n)"
proof
  assume "unat w < 2 ^ k"
  then have "take_bit k (unat w) = unat w" by (simp add: take_bit_nat_eq_self_iff)
  then have eq: "unat (take_bit k w) = unat w" by (simp add: unsigned_take_bit_eq)
  then have "take_bit k w = w" by (simp add: word_unat_eq_iff)
  then show "\<forall>n \<ge> k. \<not> bit w n" by (metis bit_take_bit_iff not_le)
next
  assume "\<forall>n \<ge> k. \<not> bit w n"
  then have "take_bit k w = w" by (intro bit_word_eqI) (auto simp: bit_take_bit_iff not_le [symmetric])
  then have "unat w = take_bit k (unat w)" by (metis unsigned_take_bit_eq)
  then show "unat w < 2 ^ k" by (metis take_bit_nat_less_exp)
qed

lemma word_and_not_mask: "(w :: 'a::len word) AND NOT (mask k) = push_bit k (drop_bit k w)"
  by (rule bit_word_eqI) (auto simp: bits_simps)

lemma unat_and_not_mask: "unat ((w :: 'a::len word) AND NOT (mask k)) = unat w - unat w mod 2 ^ k"
proof -
  have "w AND NOT (mask k) = w - take_bit k w"
    by (simp add: word_and_not_mask minus_eq_not_plus_1 [symmetric] push_bit_eq_mult drop_bit_eq_div
        take_bit_eq_mod minus_mod_eq_mult_div mult.commute)
  moreover have "unat (take_bit k w) = unat w mod 2 ^ k"
    by (simp only: unsigned_take_bit_eq) (simp add: take_bit_eq_mod)
  moreover have "take_bit k w \<le> w"
    by (simp add: word_le_nat_alt calculation(2))
  ultimately show ?thesis by (simp add: unat_sub)
qed

lemma unat_drop_bit_eq_div: "unat (drop_bit k (w :: 'a::len word)) = unat w div 2 ^ k"
  by (simp only: unsigned_drop_bit_eq) (simp add: drop_bit_eq_div take_bit_nat_eq_self)

lemma unat_power2: "k < LENGTH('a) \<Longrightarrow> unat (2 ^ k :: 'a::len word) = 2 ^ k"
proof -
  assume k: "k < LENGTH('a)"
  have "unat (word_of_nat (2 ^ k) :: 'a word) = 2 ^ k"
    unfolding unat_of_nat using k by (intro mod_less power_strict_increasing) simp_all
  then show ?thesis by simp
qed

lemma unat_ucast_u32 [simp]: "unat (ucast (w :: u32) :: 64 word) = unat w"
proof -
  have "unat w < 2 ^ LENGTH(32)" by (rule unsigned_less)
  then have "unat w < 2 ^ 64" by simp
  then show ?thesis by (simp only: unsigned_ucast_eq) (simp add: take_bit_nat_eq_self)
qed

lemma word_zero_iff_bits: "(w :: 'a::len word) = 0 \<longleftrightarrow> (\<forall>i. \<not> bit w i)"
  by (auto intro: word_eq_by_bits)

section \<open>Lists\<close>

text \<open>The first element of a list that satisfies a test, as a \<^verbatim>\<open>for\<close> loop with early return
  finds it.\<close>

fun first_match :: "('a \<Rightarrow> bool) \<Rightarrow> 'a list \<Rightarrow> 'a option" where
  "first_match P [] = None"
| "first_match P (x # xs) = (if P x then Some x else first_match P xs)"

lemma first_match_SomeD: "first_match P xs = Some x \<Longrightarrow> x \<in> set xs \<and> P x"
  by (induction xs) (auto split: if_splits)

lemma first_match_None_iff [simp]: "first_match P xs = None \<longleftrightarrow> (\<forall>x \<in> set xs. \<not> P x)"
  by (induction xs) auto

lemma first_match_Some_iff:
  "(\<exists>x. first_match P xs = Some x) \<longleftrightarrow> (\<exists>x \<in> set xs. P x)"
  by (metis first_match_None_iff not_None_eq)

lemma first_match_unique:
  assumes "x \<in> set xs" and "P x" and "\<And>y. y \<in> set xs \<Longrightarrow> P y \<Longrightarrow> y = x"
  shows "first_match P xs = Some x"
  using assms by (metis first_match_SomeD first_match_Some_iff)

lemma first_match_cong:
  "xs = ys \<Longrightarrow> (\<And>x. x \<in> set ys \<Longrightarrow> P x = Q x) \<Longrightarrow> first_match P xs = first_match Q ys"
  by (induction ys arbitrary: xs) auto

end
