(* ===== verification/Int_Math.thy ===== *)
theory Int_Math
  imports Prelude
begin

text \<open>
  The integer and bit-field helpers the cache code is written with: \<^verbatim>\<open>base/intmath.hh\<close>
  (powers, logarithms, rounding) and \<^verbatim>\<open>base/bitfield.hh\<close> (masks, bit extraction and insertion,
  most and least significant bits). Every function works on 64-bit words, the width of \<^verbatim>\<open>Addr\<close>;
  a shift by 64 or more, which is undefined in C++, is a shift to zero on words and is never
  reached from the cache code.
\<close>

section \<open>Bit fields (base/bitfield.hh)\<close>

definition bf_mask :: "nat \<Rightarrow> 64 word" where
  "bf_mask nbits = (if 64 \<le> nbits then - 1 else push_bit nbits 1 - 1)"

definition bits_val :: "64 word \<Rightarrow> nat \<Rightarrow> nat \<Rightarrow> 64 word" where
  "bits_val v hi lo = drop_bit lo v AND bf_mask (hi - lo + 1)"

definition bits_range :: "64 word \<Rightarrow> nat \<Rightarrow> nat \<Rightarrow> 64 word result" where
  "bits_range v hi lo = require (hi \<ge> lo) Assert (Inr (bits_val v hi lo))"

definition bits1 :: "64 word \<Rightarrow> nat \<Rightarrow> 64 word" where
  "bits1 v b = bits_val v b b"

definition mbits :: "64 word \<Rightarrow> nat \<Rightarrow> nat \<Rightarrow> 64 word" where
  "mbits v hi lo = v AND (bf_mask (hi + 1) AND NOT (bf_mask lo))"

definition mask_range :: "nat \<Rightarrow> nat \<Rightarrow> 64 word" where
  "mask_range hi lo = mbits (- 1) hi lo"

definition sext :: "nat \<Rightarrow> 64 word \<Rightarrow> 64 word" where
  "sext N v = (if bits1 v (N - 1) \<noteq> 0 then v OR NOT (bf_mask N) else v)"

definition insertBits_val :: "64 word \<Rightarrow> nat \<Rightarrow> nat \<Rightarrow> 64 word \<Rightarrow> 64 word" where
  "insertBits_val v hi lo bit_val =
     (let bmask = mask_range hi lo
      in (v AND NOT bmask) OR (push_bit lo bit_val AND bmask))"

definition insertBits :: "64 word \<Rightarrow> nat \<Rightarrow> nat \<Rightarrow> 64 word \<Rightarrow> 64 word result" where
  "insertBits v hi lo bit_val =
     require (hi \<ge> lo) Assert (Inr (insertBits_val v hi lo bit_val))"

definition insertBit :: "64 word \<Rightarrow> nat \<Rightarrow> 64 word \<Rightarrow> 64 word" where
  "insertBit v b bit_val = insertBits_val v b b bit_val"

text \<open>One stage of the binary searches below: if the tested field is set, add its offset and
  shift it down.\<close>

definition msb_stage :: "nat \<Rightarrow> nat \<times> 64 word \<Rightarrow> nat \<times> 64 word" where
  "msb_stage w s = (case s of (msb, v) \<Rightarrow>
     if bits_val v (2 * w - 1) w \<noteq> 0 then (msb + w, drop_bit w v) else (msb, v))"

definition findMsbSet :: "64 word \<Rightarrow> nat" where
  "findMsbSet v =
     (if v = 0 then 0
      else fst (msb_stage 1 (msb_stage 2 (msb_stage 4 (msb_stage 8
             (msb_stage 16 (msb_stage 32 (0, v))))))))"

definition lsb_stage :: "nat \<Rightarrow> nat \<times> 64 word \<Rightarrow> nat \<times> 64 word" where
  "lsb_stage w s = (case s of (lsb, v) \<Rightarrow>
     if bits_val v (w - 1) 0 = 0 then (lsb + w, drop_bit w v) else (lsb, v))"

definition findLsbSet :: "64 word \<Rightarrow> nat" where
  "findLsbSet v =
     (if v = 0 then 64
      else fst (lsb_stage 1 (lsb_stage 2 (lsb_stage 4 (lsb_stage 8
             (lsb_stage 16 (lsb_stage 32 (0, v))))))))"

section \<open>Integer arithmetic (base/intmath.hh)\<close>

text \<open>The loop of \<^verbatim>\<open>power\<close>: \<open>e\<close> is a \<^verbatim>\<open>uint32_t\<close>, result and component wrap at 64 bits.\<close>

fun power_loop :: "nat \<Rightarrow> 64 word \<Rightarrow> 64 word \<Rightarrow> 64 word" where
  "power_loop e r c =
     (if e = 0 then r
      else power_loop (e div 2) (if odd e then r * c else r) (c * c))"

declare power_loop.simps [simp del]

definition power_u32 :: "u32 \<Rightarrow> u32 \<Rightarrow> 64 word" where
  "power_u32 n e = power_loop (unat e) 1 (ucast n)"

definition log_stage :: "bool \<Rightarrow> 64 word \<Rightarrow> nat \<Rightarrow> nat \<times> 64 word \<Rightarrow> nat \<times> 64 word" where
  "log_stage wide m w s = (case s of (y, ux) \<Rightarrow>
     if wide \<and> ux AND m \<noteq> 0 then (y + w, drop_bit w ux) else (y, ux))"

text \<open>\<open>ts\<close> is \<^verbatim>\<open>sizeof(T)\<close>; the argument is the value converted to \<^verbatim>\<open>uint64_t\<close>.\<close>

definition floorLog2 :: "nat \<Rightarrow> 64 word \<Rightarrow> nat result" where
  "floorLog2 ts x = require (0 < x) Assert (Inr (fst
     (log_stage True 0x2 1
     (log_stage True 0xc 2
     (log_stage True 0xf0 4
     (log_stage (ts \<ge> 2) 0xff00 8
     (log_stage (ts \<ge> 4) 0xffff0000 16
     (log_stage (ts \<ge> 8) 0xffffffff00000000 32 (0, x)))))))))"

definition ceilLog2 :: "nat \<Rightarrow> 64 word \<Rightarrow> nat result" where
  "ceilLog2 ts n = require (0 < n) Assert
     (if n = 1 then Inr 0 else bind_result (floorLog2 ts (n - 1)) (\<lambda>y. Inr (y + 1)))"

definition isPowerOf2 :: "'a::len word \<Rightarrow> bool" where
  "isPowerOf2 n \<longleftrightarrow> n \<noteq> 0 \<and> n AND (n - 1) = 0"

definition divCeil :: "64 word \<Rightarrow> 64 word \<Rightarrow> 64 word result" where
  "divCeil a b = require (b \<noteq> 0) Undefined (Inr ((a + b - 1) div b))"

definition roundUp :: "64 word \<Rightarrow> 64 word \<Rightarrow> 64 word result" where
  "roundUp v align = require (isPowerOf2 align) Assert
     (let m = align - 1 in Inr ((v + m) AND NOT m))"

definition roundDown :: "64 word \<Rightarrow> 64 word \<Rightarrow> 64 word result" where
  "roundDown v align = require (isPowerOf2 align) Assert
     (let m = align - 1 in Inr (v AND NOT m))"

section \<open>Bitwise characterisations\<close>

lemma bf_mask_eq: "bf_mask n = mask n"
proof (cases "64 \<le> n")
  case True
  then show ?thesis
    by (intro word_eq_by_bits) (simp add: bf_mask_def bit_mask_iff)
next
  case False
  then show ?thesis by (simp add: bf_mask_def mask_eq_exp_minus_1 push_bit_eq_mult)
qed

lemma bit_bf_mask [bits_simps]: "bit (bf_mask n) i \<longleftrightarrow> i < n \<and> i < 64"
  by (auto simp: bf_mask_eq bit_mask_iff)

lemma bit_bits_val [bits_simps]:
  "bit (bits_val v hi lo) i \<longleftrightarrow> i < hi - lo + 1 \<and> bit v (lo + i) \<and> i < 64"
  by (auto simp: bits_val_def bits_simps)

lemma bit_bits1 [bits_simps]: "bit (bits1 v b) i \<longleftrightarrow> i = 0 \<and> bit v b"
  by (auto simp: bits1_def bits_simps)

lemma bits1_of_bool: "bits1 v b = of_bool (bit v b)"
  by (rule word_eq_by_bits) (auto simp: bits_simps bit_of_bool_iff)

lemma bit_mbits [bits_simps]:
  "bit (mbits v hi lo) i \<longleftrightarrow> bit v i \<and> lo \<le> i \<and> i \<le> hi \<and> i < 64"
  by (auto simp: mbits_def bits_simps)

lemma bit_insertBits_val [bits_simps]:
  "bit (insertBits_val v hi lo b) i \<longleftrightarrow>
     (if lo \<le> i \<and> i \<le> hi then i < 64 \<and> bit b (i - lo) else bit v i)"
  by (auto simp: insertBits_val_def mask_range_def Let_def bits_simps dest: bit_imp_le_length)

lemma bit_insertBit [bits_simps]:
  "bit (insertBit v b x) i \<longleftrightarrow> (if i = b then i < 64 \<and> bit x 0 else bit v i)"
  by (auto simp: insertBit_def bits_simps)

lemma bits_val_eq_take_bit: "bits_val v k 0 = take_bit (Suc k) v"
  by (rule word_eq_by_bits) (auto simp: bits_simps)

section \<open>Logarithms\<close>

definition is_floor_log :: "nat \<Rightarrow> nat \<Rightarrow> bool" where
  "is_floor_log n r \<longleftrightarrow> 2 ^ r \<le> n \<and> n < 2 ^ Suc r"

lemma is_floor_log_unique: "is_floor_log n r \<Longrightarrow> is_floor_log n s \<Longrightarrow> r = s"
proof -
  have aux: "a < Suc b" if "(2::nat) ^ a \<le> n" "n < 2 ^ Suc b" for a b
    using order.strict_trans1 [OF that] by (rule power_less_imp_less_exp [rotated]) simp
  show "is_floor_log n r \<Longrightarrow> is_floor_log n s \<Longrightarrow> r = s"
    using aux [of r s] aux [of s r] by (simp add: is_floor_log_def)
qed

lemma is_floor_log_shift: "is_floor_log (n div 2 ^ w) r \<Longrightarrow> is_floor_log n (r + w)"
proof -
  assume a: "is_floor_log (n div 2 ^ w) r"
  then have "2 ^ r * 2 ^ w \<le> n"
    by (simp add: is_floor_log_def less_eq_div_iff_mult_less_eq)
  moreover from a have "n < 2 ^ Suc r * 2 ^ w"
    by (simp add: is_floor_log_def div_less_iff_less_mult)
  ultimately show ?thesis by (simp add: is_floor_log_def power_add)
qed

lemma is_floor_log_bit:
  fixes v :: "'a::len word"
  shows "is_floor_log (unat v) r \<longleftrightarrow> bit v r \<and> (\<forall>i > r. \<not> bit v i)"
proof -
  have "unat v < 2 ^ Suc r \<longleftrightarrow> (\<forall>i > r. \<not> bit v i)"
    by (simp only: unat_less_power_iff_bits Suc_le_eq)
  moreover have "\<not> unat v < 2 ^ r \<longleftrightarrow> bit v r" if "\<forall>i > r. \<not> bit v i"
    using that by (auto simp: unat_less_power_iff_bits le_less)
  ultimately show ?thesis by (auto simp: is_floor_log_def not_less)
qed

text \<open>The state \<open>(y, u)\<close> of a search for the logarithm of \<open>n\<close>: \<open>u\<close> fits in \<open>k\<close> bits and
  its logarithm plus \<open>y\<close> is the answer.\<close>

definition log_inv :: "nat \<Rightarrow> nat \<Rightarrow> nat \<times> 64 word \<Rightarrow> bool" where
  "log_inv n k s \<longleftrightarrow> 0 < unat (snd s) \<and> unat (snd s) < 2 ^ k \<and>
     (\<forall>r. is_floor_log (unat (snd s)) r \<longrightarrow> is_floor_log n (r + fst s))"

lemma log_inv_start: "0 < x \<Longrightarrow> unat x < 2 ^ k \<Longrightarrow> log_inv (unat x) k (0, x)"
  by (simp add: log_inv_def unat_gt_0 word_gt_0)

lemma log_inv_final: "log_inv n 1 s \<Longrightarrow> is_floor_log n (fst s)"
proof -
  assume a: "log_inv n 1 s"
  then have "unat (snd s) = 1" by (simp add: log_inv_def)
  then have "is_floor_log (unat (snd s)) 0" by (simp add: is_floor_log_def)
  with a show ?thesis by (fastforce simp: log_inv_def)
qed

lemma log_inv_step:
  assumes inv: "log_inv n (2 * w) (y, u)"
  shows "log_inv n w (if 2 ^ w \<le> unat u then (y + w, drop_bit w u) else (y, u))"
proof (cases "2 ^ w \<le> unat u")
  case True
  have u: "unat (drop_bit w u) = unat u div 2 ^ w"
    by (rule unat_drop_bit_eq_div)
  have "unat u < 2 ^ w * 2 ^ w" using inv by (simp add: log_inv_def power_add mult_2)
  then have "unat u div 2 ^ w < 2 ^ w" by (rule less_mult_imp_div_less)
  moreover have "0 < unat u div 2 ^ w" using True by (simp add: div_greater_zero_iff)
  moreover have "is_floor_log n (r + (y + w))" if "is_floor_log (unat u div 2 ^ w) r" for r
  proof -
    have "is_floor_log n (r + w + y)"
      using inv is_floor_log_shift [OF that] by (simp add: log_inv_def)
    then show ?thesis by (simp add: ac_simps)
  qed
  ultimately show ?thesis using True u by (simp add: log_inv_def)
next
  case False
  with inv show ?thesis by (simp add: log_inv_def)
qed

lemma field_test:
  assumes "unat u < 2 ^ (2 * w)"
  shows "u AND push_bit w (mask w) \<noteq> (0::64 word) \<longleftrightarrow> 2 ^ w \<le> unat u"
proof -
  have "u AND push_bit w (mask w) = 0 \<longleftrightarrow> (\<forall>i \<ge> w. \<not> bit u i)"
  proof -
    have top: "\<not> bit u i" if "2 * w \<le> i" for i
      using assms that by (simp add: unat_less_power_iff_bits)
    have "u AND push_bit w (mask w) = 0 \<longleftrightarrow> (\<forall>i. \<not> bit (u AND push_bit w (mask w)) i)"
      by (rule word_zero_iff_bits)
    also have "\<dots> \<longleftrightarrow> (\<forall>i \<ge> w. i < 2 * w \<longrightarrow> \<not> bit u i)"
    proof -
      have "i < 64" if "bit u i" for i using bit_imp_le_length [OF that] by simp
      moreover have "i - w < w" if "w \<le> i" "i < 2 * w" for i using that by arith
      ultimately show ?thesis by (auto simp: bits_simps) (meson less_imp_diff_less)
    qed
    also have "\<dots> \<longleftrightarrow> (\<forall>i \<ge> w. \<not> bit u i)"
      using top by (meson not_less)
    finally show ?thesis .
  qed
  then show ?thesis by (simp add: unat_less_power_iff_bits [symmetric] not_less)
qed

lemma log_stage_inv:
  assumes "log_inv n (2 * w) s" and "m = push_bit w (mask w)" and "wide"
  shows "log_inv n w (log_stage wide m w s)"
proof -
  obtain y u where s: "s = (y, u)" by (cases s)
  with assms have "u AND m \<noteq> 0 \<longleftrightarrow> 2 ^ w \<le> unat u"
    by (simp add: field_test log_inv_def)
  with log_inv_step assms(1,3) s show ?thesis by (simp add: log_stage_def)
qed

lemma log_stage_skip: "log_stage False m w s = s"
  by (simp add: log_stage_def split: prod.split)

lemma drop_bit_field_zero:
  "drop_bit w (u AND push_bit w (mask w)) = 0 \<longleftrightarrow> u AND push_bit w (mask w) = (0::64 word)"
proof -
  have "u AND push_bit w (mask w) = push_bit w (drop_bit w (u AND push_bit w (mask w)))"
    by (rule word_eq_by_bits) (auto simp: bits_simps)
  then show ?thesis by (metis drop_bit_of_0 push_bit_of_0)
qed

lemma msb_stage_inv:
  assumes "log_inv n (2 * w) s" and "0 < w"
  shows "log_inv n w (msb_stage w s)"
proof -
  obtain y u where s: "s = (y, u)" by (cases s)
  have "bits_val u (2 * w - 1) w = drop_bit w (u AND push_bit w (mask w))"
    using assms(2) by (intro word_eq_by_bits) (auto simp: bits_simps dest: bit_imp_le_length)
  moreover have "drop_bit w (u AND push_bit w (mask w)) = 0 \<longleftrightarrow> u AND push_bit w (mask w) = 0"
    by (rule drop_bit_field_zero)
  ultimately have "bits_val u (2 * w - 1) w \<noteq> 0 \<longleftrightarrow> 2 ^ w \<le> unat u"
    using assms(1) s by (simp add: field_test log_inv_def)
  with log_inv_step assms(1) s show ?thesis by (simp add: msb_stage_def)
qed

lemma field_masks:
  "(0x2::64 word) = push_bit 1 (mask 1)" "(0xc::64 word) = push_bit 2 (mask 2)"
  "(0xf0::64 word) = push_bit 4 (mask 4)" "(0xff00::64 word) = push_bit 8 (mask 8)"
  "(0xffff0000::64 word) = push_bit 16 (mask 16)"
  "(0xffffffff00000000::64 word) = push_bit 32 (mask 32)"
  by (simp_all add: mask_eq_exp_minus_1 push_bit_eq_mult)

lemma log_stages_tail:
  assumes "log_inv n 8 s"
  shows "is_floor_log n (fst (log_stage True 0x2 1 (log_stage True 0xc 2 (log_stage True 0xf0 4 s))))"
proof -
  have "log_inv n 4 (log_stage True 0xf0 4 s)"
    using assms by (intro log_stage_inv field_masks) simp_all
  then have "log_inv n 2 (log_stage True 0xc 2 (log_stage True 0xf0 4 s))"
    by (intro log_stage_inv field_masks) simp_all
  then have "log_inv n 1 (log_stage True 0x2 1 (log_stage True 0xc 2 (log_stage True 0xf0 4 s)))"
    by (intro log_stage_inv field_masks) simp_all
  then show ?thesis by (rule log_inv_final)
qed

lemma log_stage_narrow:
  assumes "log_inv n (if wide then 2 * w else w) s" and "m = push_bit w (mask w)"
  shows "log_inv n w (log_stage wide m w s)"
  using assms log_stage_inv [of n w s m wide] by (cases wide) (simp_all add: log_stage_skip)

lemma floorLog2_is_floor_log:
  assumes "0 < x" and "ts \<in> {1, 2, 4, 8}" and "unat x < 2 ^ (8 * ts)"
  shows "\<exists>r. floorLog2 ts x = Inr r \<and> is_floor_log (unat x) r"
proof -
  let ?s32 = "log_stage (ts \<ge> 8) 0xffffffff00000000 32 (0, x)"
  let ?s16 = "log_stage (ts \<ge> 4) 0xffff0000 16 ?s32"
  let ?s8 = "log_stage (ts \<ge> 2) 0xff00 8 ?s16"
  have "log_inv (unat x) (8 * ts) (0, x)" by (rule log_inv_start) (use assms in auto)
  then have "log_inv (unat x) (if ts \<ge> 8 then 2 * 32 else (if ts \<ge> 4 then 2 * 16 else
      (if ts \<ge> 2 then 2 * 8 else 8))) (0, x)"
    using assms(2) by auto
  then have "log_inv (unat x) (if ts \<ge> 4 then 2 * 16 else (if ts \<ge> 2 then 2 * 8 else 8)) ?s32"
    using log_stage_narrow [OF _ field_masks(6), of "unat x" "ts \<ge> 8" "(0, x)"] log_stage_skip
    by (cases "ts \<ge> 8") auto
  then have "log_inv (unat x) (if ts \<ge> 2 then 2 * 8 else 8) ?s16"
    using log_stage_narrow [OF _ field_masks(5), of "unat x" "ts \<ge> 4" ?s32] log_stage_skip
    by (cases "ts \<ge> 4") auto
  then have "log_inv (unat x) 8 ?s8"
    by (intro log_stage_narrow field_masks)
  then have "is_floor_log (unat x) (fst (log_stage True 0x2 1
      (log_stage True 0xc 2 (log_stage True 0xf0 4 ?s8))))"
    by (rule log_stages_tail)
  with assms(1) show ?thesis unfolding floorLog2_def by (simp only: require_True) blast
qed

lemma findMsbSet_is_floor_log:
  assumes "v \<noteq> 0"
  shows "is_floor_log (unat v) (findMsbSet v)"
proof -
  note inv = msb_stage_inv [where n = "unat v"]
  have "log_inv (unat v) 64 (0, v)"
    by (rule log_inv_start) (use assms unsigned_less [of v, where ?'a = nat] in \<open>auto simp: word_gt_0\<close>)
  then have "log_inv (unat v) 32 (msb_stage 32 (0, v))" by (intro inv) simp_all
  then have "log_inv (unat v) 16 (msb_stage 16 (msb_stage 32 (0, v)))" by (intro inv) simp_all
  then have "log_inv (unat v) 8 (msb_stage 8 (msb_stage 16 (msb_stage 32 (0, v))))"
    by (intro inv) simp_all
  then have "log_inv (unat v) 4 (msb_stage 4 (msb_stage 8 (msb_stage 16 (msb_stage 32 (0, v)))))"
    by (intro inv) simp_all
  then have "log_inv (unat v) 2
      (msb_stage 2 (msb_stage 4 (msb_stage 8 (msb_stage 16 (msb_stage 32 (0, v))))))"
    by (intro inv) simp_all
  then have "log_inv (unat v) 1
      (msb_stage 1 (msb_stage 2 (msb_stage 4 (msb_stage 8 (msb_stage 16 (msb_stage 32 (0, v)))))))"
    by (intro inv) simp_all
  then show ?thesis using assms by (simp add: findMsbSet_def log_inv_final)
qed

section \<open>Powers of two and rounding\<close>

lemma isPowerOf2_power: "k < LENGTH('a) \<Longrightarrow> isPowerOf2 (2 ^ k :: 'a::len word)"
proof -
  assume k: "k < LENGTH('a)"
  have "(2 ^ k :: 'a word) AND (2 ^ k - 1) = 0"
    by (rule word_eq_by_bits)
      (auto simp: bit_and_iff bit_exp_iff mask_eq_exp_minus_1 [symmetric] bit_mask_iff)
  with k show ?thesis by (simp add: isPowerOf2_def)
qed

lemma isPowerOf2_iff: "isPowerOf2 (n :: 'a::len word) \<longleftrightarrow> (\<exists>k < LENGTH('a). n = 2 ^ k)"
proof
  assume p: "isPowerOf2 n"
  then have n: "n \<noteq> 0" "n AND (n - 1) = 0" by (simp_all add: isPowerOf2_def)
  have "\<exists>r. bit n r \<and> (\<forall>i > r. \<not> bit n i)"
  proof -
    have fin: "finite {i. bit n i}"
      by (rule finite_subset [of _ "{..<LENGTH('a)}"]) (auto dest: bit_imp_le_length)
    moreover have "{i. bit n i} \<noteq> {}" using n(1) by (auto simp: word_zero_iff_bits)
    ultimately have "Max {i. bit n i} \<in> {i. bit n i}" by (rule Max_in)
    moreover have "\<not> bit n i" if "i > Max {i. bit n i}" for i
      using that fin by (metis Max_ge mem_Collect_eq not_less)
    ultimately show ?thesis by blast
  qed
  then obtain r where r: "bit n r" "\<forall>i > r. \<not> bit n i" by blast
  then have log: "is_floor_log (unat n) r" by (simp add: is_floor_log_bit)
  have rl: "r < LENGTH('a)" using r(1) by (rule bit_imp_le_length)
  have "unat n = 2 ^ r"
  proof (rule ccontr)
    assume "unat n \<noteq> 2 ^ r"
    moreover have "unat (n - 1) = unat n - 1"
      using n(1) by (simp add: unat_minus_one)
    ultimately have "is_floor_log (unat (n - 1)) r" using log by (auto simp: is_floor_log_def)
    then have "bit (n AND (n - 1)) r" using r by (simp add: is_floor_log_bit bit_and_iff)
    with n(2) show False by simp
  qed
  then have "n = 2 ^ r" using rl by (simp add: word_unat_eq_iff unat_power2)
  with rl show "\<exists>k < LENGTH('a). n = 2 ^ k" by blast
next
  assume "\<exists>k < LENGTH('a). n = 2 ^ k"
  then show "isPowerOf2 n" by (auto intro: isPowerOf2_power)
qed

lemma roundDown_power:
  "k < 64 \<Longrightarrow> roundDown v (2 ^ k) = Inr (v AND NOT (mask k))"
  by (simp add: roundDown_def isPowerOf2_power mask_eq_exp_minus_1)

lemma roundDown_correct:
  assumes "isPowerOf2 align"
  shows "\<exists>r. roundDown v align = Inr r \<and> unat r = unat v - unat v mod unat align"
proof -
  obtain k where k: "k < 64" "align = 2 ^ k" using assms by (auto simp: isPowerOf2_iff)
  then show ?thesis by (simp add: roundDown_power unat_and_not_mask unat_power2)
qed

text \<open>The integer logarithms are exact at every operand width: \<^verbatim>\<open>floorLog2\<close> is the
  largest exponent whose power does not exceed the operand and the position of its highest set
  bit, and \<^verbatim>\<open>ceilLog2\<close> is the smallest exponent whose power reaches it.\<close>

theorem integer_logarithms_exact:
  assumes "0 < x" "ts \<in> {1, 2, 4, 8}" "unat x < 2 ^ (8 * ts)"
  shows "\<exists>f c. floorLog2 ts x = Inr f \<and> 2 ^ f \<le> unat x \<and> unat x < 2 ^ (f + 1) \<and> findMsbSet x = f \<and>
    ceilLog2 ts x = Inr c \<and> unat x \<le> 2 ^ c \<and> (\<forall>k < c. 2 ^ k < unat x)"
proof -
  from floorLog2_is_floor_log [OF assms] obtain f where f: "floorLog2 ts x = Inr f" "is_floor_log (unat x) f" by blast
  have "x \<noteq> 0" using assms(1) by auto
  then have msb: "findMsbSet x = f" using findMsbSet_is_floor_log is_floor_log_unique f(2) by blast
  have ceil: "\<exists>c. ceilLog2 ts x = Inr c \<and> unat x \<le> 2 ^ c \<and> (\<forall>k < c. 2 ^ k < unat x)"
  proof (cases "x = 1")
    case True
    then show ?thesis by (simp add: ceilLog2_def)
  next
    case False
    have u: "unat (x - 1) = unat x - 1" using assms(1) by (subst unat_sub) (auto simp: word_le_nat_alt word_less_nat_alt)
    have "1 < unat x" using False assms(1) by (metis One_nat_def Suc_lessI unat_1 word_less_nat_alt word_unat_eq_iff unat_0)
    then have "0 < x - 1" "unat (x - 1) < 2 ^ (8 * ts)" using u assms(3) by (auto simp: word_less_nat_alt)
    from floorLog2_is_floor_log [OF this(1) assms(2) this(2)] obtain g where
      g: "floorLog2 ts (x - 1) = Inr g" "2 ^ g \<le> unat (x - 1)" "unat (x - 1) < 2 ^ Suc g"
      by (auto simp: is_floor_log_def)
    have "2 ^ k < unat x" if "k < g + 1" for k
    proof -
      have "(2 :: nat) ^ k \<le> 2 ^ g" using that by (intro power_increasing) simp_all
      with g(2) u \<open>1 < unat x\<close> show ?thesis by linarith
    qed
    moreover have "unat x \<le> 2 ^ (g + 1)" using g(3) u \<open>1 < unat x\<close> by simp
    ultimately show ?thesis using False assms(1) g(1) by (simp add: ceilLog2_def)
  qed
  show ?thesis using f msb ceil by (auto simp: is_floor_log_def)
qed

theorem integer_logarithms_exact_witness:
  "\<exists>f c. floorLog2 4 100 = Inr f \<and> 2 ^ f \<le> (100 :: nat) \<and> (100 :: nat) < 2 ^ (f + 1) \<and> ceilLog2 4 100 = Inr c"
  using integer_logarithms_exact [of 100 4] by auto

lemma power_loop_power: "power_loop e r c = r * c ^ e"
proof (induction e r c rule: power_loop.induct)
  case (1 e r c)
  show ?case
  proof (cases "e = 0")
    case True
    then show ?thesis by (simp add: power_loop.simps)
  next
    case False
    have "c ^ e = (c * c) ^ (e div 2) * (if odd e then c else 1)"
      by (cases "odd e") (auto elim!: oddE evenE simp: power_mult power2_eq_square)
    with 1 False show ?thesis by (subst power_loop.simps) (auto simp: ac_simps)
  qed
qed

text \<open>The square-and-multiply loop of \<^verbatim>\<open>power\<close> computes the power modulo 2 to the 64.\<close>

theorem power_is_exponentiation: "power_u32 n e = ucast n ^ unat e"
  by (simp add: power_u32_def power_loop_power)

end
