(* ===== verification/Request.thy ===== *)
theory Request
  imports Int_Math
begin

text \<open>
  Memory requests (\<^verbatim>\<open>mem/request.hh\<close>) with the flag words of \<^verbatim>\<open>base/flags.hh\<close>. Beside gem5's own
  fields a request carries the security domain of the RaS cache (\<open>domainID\<close>) and its flags:
  \<open>NO_FILL\<close> (the access must not fill the cache) and \<open>DEMAND_FETCH\<close>. Not modelled are the fields
  the cache never reads: stream identifiers, instruction counts, atomic functors, accessors and
  the transactional abort cause.
\<close>

section \<open>Flags (base/flags.hh)\<close>

definition flag_isSet :: "'a::len word \<Rightarrow> 'a word \<Rightarrow> bool" where
  "flag_isSet f m \<longleftrightarrow> f AND m \<noteq> 0"

definition flag_allSet :: "'a::len word \<Rightarrow> 'a word \<Rightarrow> bool" where
  "flag_allSet f m \<longleftrightarrow> f AND m = m"

definition flag_noneSet :: "'a::len word \<Rightarrow> 'a word \<Rightarrow> bool" where
  "flag_noneSet f m \<longleftrightarrow> f AND m = 0"

definition flag_clear :: "'a::len word \<Rightarrow> 'a word \<Rightarrow> 'a word" where
  "flag_clear f m = f AND NOT m"

definition flag_set :: "'a::len word \<Rightarrow> 'a word \<Rightarrow> 'a word" where
  "flag_set f m = f OR m"

definition flag_set_if :: "'a::len word \<Rightarrow> 'a word \<Rightarrow> bool \<Rightarrow> 'a word" where
  "flag_set_if f m condition = (if condition then flag_set f m else flag_clear f m)"

definition flag_replace :: "'a::len word \<Rightarrow> 'a word \<Rightarrow> 'a word \<Rightarrow> 'a word" where
  "flag_replace f flags m = (f AND NOT m) OR (flags AND m)"

section \<open>Request flags\<close>

definition INST_FETCH :: "64 word" where "INST_FETCH = 0x100"
definition UNCACHEABLE :: "64 word" where "UNCACHEABLE = 0x400"
definition STRICT_ORDER :: "64 word" where "STRICT_ORDER = 0x800"
definition LOCKED_RMW :: "64 word" where "LOCKED_RMW = 0x100000"
definition LLSC :: "64 word" where "LLSC = 0x200000"
definition MEM_SWAP :: "64 word" where "MEM_SWAP = 0x400000"
definition MEM_SWAP_COND :: "64 word" where "MEM_SWAP_COND = 0x800000"
definition PREFETCH :: "64 word" where "PREFETCH = 0x1000000"
definition PF_EXCLUSIVE :: "64 word" where "PF_EXCLUSIVE = 0x2000000"
definition ATOMIC_RETURN_OP :: "64 word" where "ATOMIC_RETURN_OP = 0x40000000"
definition ATOMIC_NO_RETURN_OP :: "64 word" where "ATOMIC_NO_RETURN_OP = 0x80000000"
definition SECURE :: "64 word" where "SECURE = 0x10000000"
definition INVALIDATE :: "64 word" where "INVALIDATE = 0x100000000"
definition CLEAN :: "64 word" where "CLEAN = 0x200000000"
definition HTM_START :: "64 word" where "HTM_START = 0x10000000000"
definition HTM_COMMIT :: "64 word" where "HTM_COMMIT = 0x20000000000"
definition HTM_CANCEL :: "64 word" where "HTM_CANCEL = 0x40000000000"
definition HTM_ABORT :: "64 word" where "HTM_ABORT = 0x80000000000"
definition NO_FILL :: "64 word" where "NO_FILL = 0x100000000000"
definition SHT_MATCH :: "64 word" where "SHT_MATCH = 0x200000000000"
definition SPEC_STATS :: "64 word" where "SPEC_STATS = 0x400000000000"
definition DEMAND_FETCH :: "64 word" where "DEMAND_FETCH = 0x800000000000"
definition STICKY_FLAGS :: "64 word" where "STICKY_FLAGS = INST_FETCH"

text \<open>Private flags: which fields hold a value.\<close>

definition REQ_VALID_SIZE :: "16 word" where "REQ_VALID_SIZE = 0x1"
definition VALID_PADDR :: "16 word" where "VALID_PADDR = 0x2"
definition VALID_VADDR :: "16 word" where "VALID_VADDR = 0x4"
definition VALID_PC :: "16 word" where "VALID_PC = 0x10"
definition VALID_CONTEXT_ID :: "16 word" where "VALID_CONTEXT_ID = 0x20"
definition VALID_DOMAIN_ID :: "16 word" where "VALID_DOMAIN_ID = 0x40"
definition VALID_EXTRA_DATA :: "16 word" where "VALID_EXTRA_DATA = 0x80"
definition STICKY_PRIVATE_FLAGS :: "16 word" where "STICKY_PRIVATE_FLAGS = VALID_DOMAIN_ID"

lemmas request_flag_defs = INST_FETCH_def UNCACHEABLE_def STRICT_ORDER_def LOCKED_RMW_def LLSC_def
  MEM_SWAP_def MEM_SWAP_COND_def PREFETCH_def PF_EXCLUSIVE_def ATOMIC_RETURN_OP_def
  ATOMIC_NO_RETURN_OP_def SECURE_def INVALIDATE_def CLEAN_def HTM_START_def HTM_COMMIT_def
  HTM_CANCEL_def HTM_ABORT_def NO_FILL_def SHT_MATCH_def SPEC_STATS_def DEMAND_FETCH_def
  STICKY_FLAGS_def

lemmas private_flag_defs = REQ_VALID_SIZE_def VALID_PADDR_def VALID_VADDR_def VALID_PC_def
  VALID_CONTEXT_ID_def VALID_DOMAIN_ID_def VALID_EXTRA_DATA_def STICKY_PRIVATE_FLAGS_def

text \<open>Requestor and task identifiers with a fixed meaning.\<close>

definition wbRequestorId :: "16 word" where "wbRequestorId = 0"
definition funcRequestorId :: "16 word" where "funcRequestorId = 1"
definition intRequestorId :: "16 word" where "intRequestorId = 2"
definition invldRequestorId :: "16 word" where "invldRequestorId = - 1"
definition TaskId_Prefetcher :: u32 where "TaskId_Prefetcher = 1022"
definition TaskId_Unknown :: u32 where "TaskId_Unknown = 1024"

section \<open>Requests\<close>

record request =
  req_paddr :: addr
  req_size :: u32
  req_byteEnable :: "bool list"
  req_requestorId :: "16 word"
  req_flags :: "64 word"
  req_private :: "16 word"
  req_time :: tick
  req_taskId :: u32
  req_vaddr :: addr
  req_extraData :: "64 word"
  req_contextId :: int
  req_pc :: addr
  req_domainID :: domain_id

text \<open>
  The default member initialisers. \<^verbatim>\<open>domainID\<close> has none, so a new object holds an indeterminate
  value there, an argument of the constructors.
\<close>

definition default_request :: "domain_id \<Rightarrow> request" where
  "default_request indeterminate =
     \<lparr>req_paddr = 0, req_size = 0, req_byteEnable = [], req_requestorId = invldRequestorId,
      req_flags = 0, req_private = 0, req_time = MaxTick, req_taskId = TaskId_Unknown,
      req_vaddr = MaxAddr, req_extraData = 0, req_contextId = -1, req_pc = MaxAddr,
      req_domainID = indeterminate\<rparr>"

definition new_request ::
  "domain_id \<Rightarrow> tick \<Rightarrow> addr \<Rightarrow> u32 \<Rightarrow> 64 word \<Rightarrow> 16 word \<Rightarrow> request" where
  "new_request indeterminate now paddr sz flags rid =
     (default_request indeterminate)\<lparr>req_paddr := paddr, req_size := sz, req_requestorId := rid,
        req_time := now, req_flags := flag_set 0 flags,
        req_private := flag_set 0 (VALID_PADDR OR REQ_VALID_SIZE),
        req_byteEnable := replicate (unat sz) True\<rparr>"

definition setVirt ::
  "tick \<Rightarrow> addr \<Rightarrow> u32 \<Rightarrow> 64 word \<Rightarrow> 16 word \<Rightarrow> addr \<Rightarrow> request \<Rightarrow> request" where
  "setVirt now vaddr sz flags rid pc r =
     r\<lparr>req_vaddr := vaddr, req_size := sz, req_requestorId := rid, req_pc := pc, req_time := now,
       req_flags := flag_set (flag_clear (req_flags r) (NOT STICKY_FLAGS)) flags,
       req_private := flag_set (flag_clear (req_private r) (NOT STICKY_PRIVATE_FLAGS))
         (VALID_VADDR OR REQ_VALID_SIZE OR VALID_PC)\<rparr>"

definition setContext :: "int \<Rightarrow> request \<Rightarrow> request" where
  "setContext cid r = r\<lparr>req_contextId := cid, req_private := flag_set (req_private r) VALID_CONTEXT_ID\<rparr>"

definition new_request_virt ::
  "domain_id \<Rightarrow> tick \<Rightarrow> addr \<Rightarrow> u32 \<Rightarrow> 64 word \<Rightarrow> 16 word \<Rightarrow> addr \<Rightarrow> int \<Rightarrow> request" where
  "new_request_virt indeterminate now vaddr sz flags rid pc cid =
     (setContext cid (setVirt now vaddr sz flags rid pc (default_request indeterminate)))
       \<lparr>req_byteEnable := replicate (unat sz) True\<rparr>"

text \<open>
  The copy constructor lists the members it copies; \<^verbatim>\<open>domainID\<close> is not among them, while the
  private flags, which say that the domain is valid, are.
\<close>

definition copy_request :: "domain_id \<Rightarrow> request \<Rightarrow> request" where
  "copy_request indeterminate other =
     (default_request indeterminate)\<lparr>req_paddr := req_paddr other, req_size := req_size other,
        req_byteEnable := req_byteEnable other, req_requestorId := req_requestorId other,
        req_flags := req_flags other, req_private := req_private other,
        req_time := req_time other, req_taskId := req_taskId other, req_vaddr := req_vaddr other,
        req_extraData := req_extraData other, req_contextId := req_contextId other,
        req_pc := req_pc other\<rparr>"

definition setDomainID :: "domain_id \<Rightarrow> request \<Rightarrow> request" where
  "setDomainID d r = r\<lparr>req_private := flag_set (req_private r) VALID_DOMAIN_ID, req_domainID := d\<rparr>"

definition getDomainID :: "request \<Rightarrow> domain_id" where
  "getDomainID r = req_domainID r"

definition validateDomainID :: "request \<Rightarrow> unit result" where
  "validateDomainID r = require (flag_isSet (req_private r) VALID_DOMAIN_ID) Assert (Inr ())"

definition setPaddr :: "addr \<Rightarrow> request \<Rightarrow> request" where
  "setPaddr a r = r\<lparr>req_paddr := a, req_private := flag_set (req_private r) VALID_PADDR\<rparr>"

definition hasPaddr :: "request \<Rightarrow> bool" where
  "hasPaddr r \<longleftrightarrow> flag_isSet (req_private r) VALID_PADDR"

definition getPaddr :: "request \<Rightarrow> addr result" where
  "getPaddr r = require (hasPaddr r) Assert (Inr (req_paddr r))"

definition hasVaddr :: "request \<Rightarrow> bool" where
  "hasVaddr r \<longleftrightarrow> flag_isSet (req_private r) VALID_VADDR"

definition getVaddr :: "request \<Rightarrow> addr result" where
  "getVaddr r = require (hasVaddr r) Assert (Inr (req_vaddr r))"

definition hasSize :: "request \<Rightarrow> bool" where
  "hasSize r \<longleftrightarrow> flag_isSet (req_private r) REQ_VALID_SIZE"

definition req_getSize :: "request \<Rightarrow> u32 result" where
  "req_getSize r = require (hasSize r) Assert (Inr (req_size r))"

definition hasContextId :: "request \<Rightarrow> bool" where
  "hasContextId r \<longleftrightarrow> flag_isSet (req_private r) VALID_CONTEXT_ID"

definition contextId :: "request \<Rightarrow> int result" where
  "contextId r = require (hasContextId r) Assert (Inr (req_contextId r))"

definition hasPC :: "request \<Rightarrow> bool" where
  "hasPC r \<longleftrightarrow> flag_isSet (req_private r) VALID_PC"

definition getPC :: "request \<Rightarrow> addr result" where
  "getPC r = require (hasPC r) Assert (Inr (req_pc r))"

definition setPC :: "addr \<Rightarrow> request \<Rightarrow> request" where
  "setPC pc r = r\<lparr>req_private := flag_set (req_private r) VALID_PC, req_pc := pc\<rparr>"

definition setByteEnable :: "bool list \<Rightarrow> request \<Rightarrow> request result" where
  "setByteEnable be r = require (length be = unat (req_size r)) Assert
     (Inr (r\<lparr>req_byteEnable := be\<rparr>))"

definition isMasked :: "request \<Rightarrow> bool" where
  "isMasked r \<longleftrightarrow> False \<in> set (req_byteEnable r)"

definition setFlags :: "64 word \<Rightarrow> request \<Rightarrow> request result" where
  "setFlags f r = require (hasPaddr r \<or> hasVaddr r) Assert
     (Inr (r\<lparr>req_flags := flag_set (req_flags r) f\<rparr>))"

definition clearFlags :: "64 word \<Rightarrow> request \<Rightarrow> request result" where
  "clearFlags f r = require (hasPaddr r \<or> hasVaddr r) Assert
     (Inr (r\<lparr>req_flags := flag_clear (req_flags r) f\<rparr>))"

definition setExtraData :: "64 word \<Rightarrow> request \<Rightarrow> request" where
  "setExtraData x r = r\<lparr>req_extraData := x, req_private := flag_set (req_private r) VALID_EXTRA_DATA\<rparr>"

definition getExtraData :: "request \<Rightarrow> (64 word) result" where
  "getExtraData r = require (flag_isSet (req_private r) VALID_EXTRA_DATA) Assert
     (Inr (req_extraData r))"

definition req_isUncacheable :: "request \<Rightarrow> bool" where
  "req_isUncacheable r \<longleftrightarrow> flag_isSet (req_flags r) UNCACHEABLE"
definition req_isInstFetch :: "request \<Rightarrow> bool" where
  "req_isInstFetch r \<longleftrightarrow> flag_isSet (req_flags r) INST_FETCH"
definition req_isPrefetch :: "request \<Rightarrow> bool" where
  "req_isPrefetch r \<longleftrightarrow> flag_isSet (req_flags r) PREFETCH \<or> flag_isSet (req_flags r) PF_EXCLUSIVE"
definition req_isPrefetchEx :: "request \<Rightarrow> bool" where
  "req_isPrefetchEx r \<longleftrightarrow> flag_isSet (req_flags r) PF_EXCLUSIVE"
definition req_isLLSC :: "request \<Rightarrow> bool" where
  "req_isLLSC r \<longleftrightarrow> flag_isSet (req_flags r) LLSC"
definition req_isLockedRMW :: "request \<Rightarrow> bool" where
  "req_isLockedRMW r \<longleftrightarrow> flag_isSet (req_flags r) LOCKED_RMW"
definition req_isSwap :: "request \<Rightarrow> bool" where
  "req_isSwap r \<longleftrightarrow> flag_isSet (req_flags r) (MEM_SWAP OR MEM_SWAP_COND)"
definition req_isSecure :: "request \<Rightarrow> bool" where
  "req_isSecure r \<longleftrightarrow> flag_isSet (req_flags r) SECURE"
definition req_isNoFill :: "request \<Rightarrow> bool" where
  "req_isNoFill r \<longleftrightarrow> flag_isSet (req_flags r) NO_FILL"
definition req_isShtMatch :: "request \<Rightarrow> bool" where
  "req_isShtMatch r \<longleftrightarrow> flag_isSet (req_flags r) SHT_MATCH"
definition req_isDemandFetch :: "request \<Rightarrow> bool" where
  "req_isDemandFetch r \<longleftrightarrow> flag_isSet (req_flags r) DEMAND_FETCH"
definition req_isHTMAbort :: "request \<Rightarrow> bool" where
  "req_isHTMAbort r \<longleftrightarrow> flag_isSet (req_flags r) HTM_ABORT"
definition req_isHTMCmd :: "request \<Rightarrow> bool" where
  "req_isHTMCmd r \<longleftrightarrow> flag_isSet (req_flags r) HTM_START \<or> flag_isSet (req_flags r) HTM_COMMIT \<or>
     flag_isSet (req_flags r) HTM_CANCEL \<or> flag_isSet (req_flags r) HTM_ABORT"
definition req_isAtomic :: "request \<Rightarrow> bool" where
  "req_isAtomic r \<longleftrightarrow> flag_isSet (req_flags r) ATOMIC_RETURN_OP \<or>
     flag_isSet (req_flags r) ATOMIC_NO_RETURN_OP"
definition req_isCacheClean :: "request \<Rightarrow> bool" where
  "req_isCacheClean r \<longleftrightarrow> flag_isSet (req_flags r) CLEAN"
definition req_isCacheInvalidate :: "request \<Rightarrow> bool" where
  "req_isCacheInvalidate r \<longleftrightarrow> flag_isSet (req_flags r) INVALIDATE"
definition req_isCacheMaintenance :: "request \<Rightarrow> bool" where
  "req_isCacheMaintenance r \<longleftrightarrow> flag_isSet (req_flags r) (CLEAN OR INVALIDATE)"

text \<open>
  A request that crosses a boundary is split in two. The comparison \<^verbatim>\<open>_vaddr + _size\<close> wraps at 64
  bits. Both halves are copies, each with its own indeterminate domain.
\<close>

definition splitOnVaddr ::
  "domain_id \<Rightarrow> domain_id \<Rightarrow> addr \<Rightarrow> request \<Rightarrow> (request \<times> request) result" where
  "splitOnVaddr ind1 ind2 split_addr r =
     require (hasVaddr r) Assert
     (require (\<not> hasPaddr r) Assert
     (require (req_vaddr r < split_addr \<and> split_addr < req_vaddr r + ucast (req_size r)) Assert
     (let sz1 = ucast (split_addr - req_vaddr r) :: u32
      in Inr ((copy_request ind1 r)\<lparr>req_size := sz1,
                req_byteEnable := take (unat sz1) (req_byteEnable r)\<rparr>,
              (copy_request ind2 r)\<lparr>req_vaddr := split_addr, req_size := req_size r - sz1,
                req_byteEnable := drop (unat sz1) (req_byteEnable r)\<rparr>))))"

section \<open>Splitting\<close>

lemma flag_isSet_set: "flag_isSet (flag_set f m) m' \<longleftrightarrow> flag_isSet f m' \<or> flag_isSet m m'"
  unfolding flag_isSet_def flag_set_def
  by (metis bit.conj_disj_distrib2 or_eq_0_iff)

lemma split_sizes:
  assumes "splitOnVaddr i1 i2 split_addr r = Inr (r1, r2)"
    and nowrap: "unat (req_vaddr r) + unat (req_size r) < 2 ^ 64"
  shows "unat (req_size r1) = unat split_addr - unat (req_vaddr r)"
    and "unat (req_size r2) = unat (req_vaddr r) + unat (req_size r) - unat split_addr"
    and "unat (req_vaddr r) < unat split_addr"
    and "unat split_addr < unat (req_vaddr r) + unat (req_size r)"
proof -
  let ?v = "req_vaddr r" and ?s = "req_size r" and ?d = "split_addr - req_vaddr r"
  have lt: "?v < split_addr" "split_addr < ?v + ucast ?s"
    and r: "req_size r1 = ucast ?d" "req_size r2 = ?s - ucast ?d"
    using assms(1) by (auto simp: splitOnVaddr_def Let_def result_simps)
  have sz: "unat (ucast ?s :: addr) = unat ?s" by (simp add: unsigned_ucast_eq take_bit_nat_eq_self_iff
        order_less_trans [OF unsigned_less])
  have sum: "unat (?v + ucast ?s) = unat ?v + unat ?s"
    using nowrap sz by (simp add: unat_word_ariths)
  show v: "unat ?v < unat split_addr" using lt(1) by (simp add: word_less_nat_alt)
  show s: "unat split_addr < unat ?v + unat ?s" using lt(2) sum by (simp add: word_less_nat_alt)
  have d: "unat ?d = unat split_addr - unat ?v" using lt(1) by (simp add: unat_sub)
  have small: "unat ?d < unat ?s" using d s v by simp
  have ud: "unat (ucast ?d :: u32) = unat ?d"
    using small unsigned_less [of ?s, where ?'a = nat]
    by (simp add: unsigned_ucast_eq take_bit_nat_eq_self_iff)
  show "unat (req_size r1) = unat split_addr - unat ?v" using ud d r(1) by simp
  have "(ucast ?d :: u32) \<le> ?s" using small ud by (simp add: word_le_nat_alt)
  then have "unat (?s - ucast ?d) = unat ?s - unat ?d" using ud by (simp add: unat_sub)
  then show "unat (req_size r2) = unat ?v + unat ?s - unat split_addr" using d r(2) v by simp
qed

text \<open>Claim C39. Splitting a virtual request partitions it: the two halves are adjacent, their
  sizes add up, the first ends at the split address and the second at the end of the original,
  and their byte enables concatenate to the original mask.\<close>

theorem split_request_partition:
  assumes "splitOnVaddr i1 i2 split_addr r = Inr (r1, r2)"
    and "unat (req_vaddr r) + unat (req_size r) < 2 ^ 64"
    and "length (req_byteEnable r) = unat (req_size r)"
  shows "req_vaddr r1 = req_vaddr r \<and> req_vaddr r2 = split_addr \<and>
    unat (req_vaddr r1) + unat (req_size r1) = unat (req_vaddr r2) \<and>
    unat (req_vaddr r2) + unat (req_size r2) = unat (req_vaddr r) + unat (req_size r) \<and>
    0 < unat (req_size r1) \<and> 0 < unat (req_size r2) \<and>
    req_byteEnable r1 @ req_byteEnable r2 = req_byteEnable r \<and>
    length (req_byteEnable r1) = unat (req_size r1) \<and>
    length (req_byteEnable r2) = unat (req_size r2)"
proof -
  note sz = split_sizes [OF assms(1,2)]
  have r1: "req_vaddr r1 = req_vaddr r" "req_vaddr r2 = split_addr"
    "req_byteEnable r1 = take (unat (req_size r1)) (req_byteEnable r)"
    "req_byteEnable r2 = drop (unat (req_size r1)) (req_byteEnable r)"
    using assms(1) by (auto simp: splitOnVaddr_def Let_def result_simps copy_request_def)
  with sz assms(3) show ?thesis by simp
qed

definition demo_request :: request where
  "demo_request = setDomainID 7 (new_request_virt 0 100 0x1038 16 0 5 0x400 0)"

theorem split_request_partition_witness:
  "\<exists>r1 r2. splitOnVaddr 0 0 0x1040 demo_request = Inr (r1, r2) \<and>
     unat (req_vaddr r1) + unat (req_size r1) = unat (req_vaddr r2) \<and>
     req_byteEnable r1 @ req_byteEnable r2 = req_byteEnable demo_request"
proof -
  have ok: "is_ok (splitOnVaddr 0 0 0x1040 demo_request)"
    by (simp add: demo_request_def splitOnVaddr_def setDomainID_def new_request_virt_def setContext_def
        setVirt_def default_request_def hasVaddr_def hasPaddr_def flag_isSet_def flag_set_def
        flag_clear_def private_flag_defs Let_def)
  then obtain r1 r2 where r: "splitOnVaddr 0 0 0x1040 demo_request = Inr (r1, r2)"
    by (auto simp: is_ok_iff)
  have "unat (req_vaddr demo_request) + unat (req_size demo_request) < 2 ^ 64"
    "length (req_byteEnable demo_request) = unat (req_size demo_request)"
    by (simp_all add: demo_request_def setDomainID_def new_request_virt_def setContext_def
        setVirt_def default_request_def)
  from split_request_partition [OF r this] r show ?thesis by auto
qed

text \<open>Claim C40. Splitting loses the security domain: each half carries whatever value its memory
  held, although the flag that marks the domain as valid is copied and \<^verbatim>\<open>validateDomainID\<close>
  accepts it.\<close>

theorem split_request_loses_domain:
  assumes "splitOnVaddr i1 i2 split_addr r = Inr (r1, r2)"
  shows "getDomainID r1 = i1 \<and> getDomainID r2 = i2 \<and>
    (validateDomainID r = Inr () \<longrightarrow> validateDomainID r1 = Inr () \<and> validateDomainID r2 = Inr ())"
  using assms by (auto simp: splitOnVaddr_def Let_def result_simps copy_request_def getDomainID_def
      validateDomainID_def default_request_def)

theorem split_request_loses_domain_witness:
  "\<exists>r1 r2. splitOnVaddr 3 4 0x1040 demo_request = Inr (r1, r2) \<and> getDomainID demo_request = 7 \<and>
     getDomainID r1 = 3 \<and> getDomainID r2 = 4"
proof -
  have ok: "is_ok (splitOnVaddr 3 4 0x1040 demo_request)" "getDomainID demo_request = 7"
    by (simp_all add: demo_request_def splitOnVaddr_def setDomainID_def new_request_virt_def
        setContext_def setVirt_def default_request_def hasVaddr_def hasPaddr_def flag_isSet_def
        flag_set_def flag_clear_def private_flag_defs Let_def getDomainID_def)
  then obtain r1 r2 where r: "splitOnVaddr 3 4 0x1040 demo_request = Inr (r1, r2)"
    by (auto simp: is_ok_iff)
  from split_request_loses_domain [OF r] r ok(2) show ?thesis by auto
qed

end
