(* ===== verification/Packet.thy ===== *)
theory Packet
  imports Request
begin

text \<open>
  Memory commands and packets (\<^verbatim>\<open>mem/packet.hh\<close>, \<^verbatim>\<open>mem/packet.cc\<close>): the command table, the
  packet's flag word with the two RaS bits (\<open>MAY_NOT_FILL\<close>, \<open>NO_FILL_LOWER\<close>), its constructors,
  block matching, and the copying of bytes between a packet and a block. A packet's data pointer
  is a byte list; whether it is present is recorded in the flag word, as in the code.
\<close>

section \<open>Commands\<close>

datatype mem_cmd =
    InvalidCmd | ReadReq | ReadResp | ReadRespWithInvalidate | WriteReq | WriteResp
  | WriteCompleteResp | WritebackDirty | WritebackClean | WriteClean | CleanEvict | SoftPFReq
  | SoftPFExReq | HardPFReq | SoftPFResp | HardPFResp | WriteLineReq | UpgradeReq
  | SCUpgradeReq | UpgradeResp | SCUpgradeFailReq | UpgradeFailResp | ReadExReq | ReadExResp
  | ReadCleanReq | ReadSharedReq | LoadLockedReq | StoreCondReq | StoreCondFailReq
  | StoreCondResp | SwapReq | SwapResp | MemFenceReq | MemSyncReq | MemSyncResp | MemFenceResp
  | CleanSharedReq | CleanSharedResp | CleanInvalidReq | CleanInvalidResp | InvalidDestError
  | BadAddressError | FunctionalReadError | FunctionalWriteError | PrintReq | FlushReq
  | InvalidateReq | InvalidateResp | HTMReq | HTMReqResp | HTMAbort

datatype attribute =
    IsRead | IsWrite | IsUpgrade | IsInvalidate | IsClean | NeedsWritable | IsRequest | IsResponse
  | NeedsResponse | IsEviction | IsSWPrefetch | IsHWPrefetch | IsLlsc | HasData | IsError | IsPrint
  | IsFlush | FromCache

fun commandInfo :: "mem_cmd \<Rightarrow> attribute list \<times> mem_cmd" where
  "commandInfo InvalidCmd = ([], InvalidCmd)"
| "commandInfo ReadReq = ([IsRead, IsRequest, NeedsResponse], ReadResp)"
| "commandInfo ReadResp = ([IsRead, IsResponse, HasData], InvalidCmd)"
| "commandInfo ReadRespWithInvalidate = ([IsRead, IsResponse, HasData, IsInvalidate], InvalidCmd)"
| "commandInfo WriteReq = ([IsWrite, NeedsWritable, IsRequest, NeedsResponse, HasData], WriteResp)"
| "commandInfo WriteResp = ([IsWrite, IsResponse], InvalidCmd)"
| "commandInfo WriteCompleteResp = ([IsWrite, IsResponse], InvalidCmd)"
| "commandInfo WritebackDirty = ([IsWrite, IsRequest, IsEviction, HasData, FromCache], InvalidCmd)"
| "commandInfo WritebackClean = ([IsWrite, IsRequest, IsEviction, HasData, FromCache], InvalidCmd)"
| "commandInfo WriteClean = ([IsWrite, IsRequest, HasData, FromCache], InvalidCmd)"
| "commandInfo CleanEvict = ([IsRequest, IsEviction, FromCache], InvalidCmd)"
| "commandInfo SoftPFReq = ([IsRead, IsRequest, IsSWPrefetch, NeedsResponse], SoftPFResp)"
| "commandInfo SoftPFExReq = ([IsRead, NeedsWritable, IsInvalidate, IsRequest, IsSWPrefetch, NeedsResponse], SoftPFResp)"
| "commandInfo HardPFReq = ([IsRead, IsRequest, IsHWPrefetch, NeedsResponse, FromCache], HardPFResp)"
| "commandInfo SoftPFResp = ([IsRead, IsResponse, IsSWPrefetch, HasData], InvalidCmd)"
| "commandInfo HardPFResp = ([IsRead, IsResponse, IsHWPrefetch, HasData], InvalidCmd)"
| "commandInfo WriteLineReq = ([IsWrite, NeedsWritable, IsRequest, NeedsResponse, HasData], WriteResp)"
| "commandInfo UpgradeReq = ([IsInvalidate, NeedsWritable, IsUpgrade, IsRequest, NeedsResponse, FromCache], UpgradeResp)"
| "commandInfo SCUpgradeReq = ([IsInvalidate, NeedsWritable, IsUpgrade, IsLlsc, IsRequest, NeedsResponse, FromCache], UpgradeResp)"
| "commandInfo UpgradeResp = ([IsUpgrade, IsResponse], InvalidCmd)"
| "commandInfo SCUpgradeFailReq = ([IsRead, NeedsWritable, IsInvalidate, IsLlsc, IsRequest, NeedsResponse, FromCache], UpgradeFailResp)"
| "commandInfo UpgradeFailResp = ([IsRead, IsResponse, HasData], InvalidCmd)"
| "commandInfo ReadExReq = ([IsRead, NeedsWritable, IsInvalidate, IsRequest, NeedsResponse, FromCache], ReadExResp)"
| "commandInfo ReadExResp = ([IsRead, IsResponse, HasData], InvalidCmd)"
| "commandInfo ReadCleanReq = ([IsRead, IsRequest, NeedsResponse, FromCache], ReadResp)"
| "commandInfo ReadSharedReq = ([IsRead, IsRequest, NeedsResponse, FromCache], ReadResp)"
| "commandInfo LoadLockedReq = ([IsRead, IsLlsc, IsRequest, NeedsResponse], ReadResp)"
| "commandInfo StoreCondReq = ([IsWrite, NeedsWritable, IsLlsc, IsRequest, NeedsResponse, HasData], StoreCondResp)"
| "commandInfo StoreCondFailReq = ([IsWrite, NeedsWritable, IsLlsc, IsRequest, NeedsResponse, HasData], StoreCondResp)"
| "commandInfo StoreCondResp = ([IsWrite, IsLlsc, IsResponse], InvalidCmd)"
| "commandInfo SwapReq = ([IsRead, IsWrite, NeedsWritable, IsRequest, HasData, NeedsResponse], SwapResp)"
| "commandInfo SwapResp = ([IsRead, IsWrite, IsResponse, HasData], InvalidCmd)"
| "commandInfo MemFenceReq = ([IsRequest, NeedsResponse], MemFenceResp)"
| "commandInfo MemSyncReq = ([IsRequest, NeedsResponse], MemSyncResp)"
| "commandInfo MemSyncResp = ([IsResponse], InvalidCmd)"
| "commandInfo MemFenceResp = ([IsResponse], InvalidCmd)"
| "commandInfo CleanSharedReq = ([IsRequest, IsClean, NeedsResponse, FromCache], CleanSharedResp)"
| "commandInfo CleanSharedResp = ([IsResponse, IsClean], InvalidCmd)"
| "commandInfo CleanInvalidReq = ([IsRequest, IsInvalidate, IsClean, NeedsResponse, FromCache], CleanInvalidResp)"
| "commandInfo CleanInvalidResp = ([IsResponse, IsInvalidate, IsClean], InvalidCmd)"
| "commandInfo InvalidDestError = ([IsResponse, IsError], InvalidCmd)"
| "commandInfo BadAddressError = ([IsResponse, IsError], InvalidCmd)"
| "commandInfo FunctionalReadError = ([IsRead, IsResponse, IsError], InvalidCmd)"
| "commandInfo FunctionalWriteError = ([IsWrite, IsResponse, IsError], InvalidCmd)"
| "commandInfo PrintReq = ([IsRequest, IsPrint], InvalidCmd)"
| "commandInfo FlushReq = ([IsRequest, IsFlush, NeedsWritable], InvalidCmd)"
| "commandInfo InvalidateReq = ([IsInvalidate, IsRequest, NeedsWritable, NeedsResponse, FromCache], InvalidateResp)"
| "commandInfo InvalidateResp = ([IsInvalidate, IsResponse], InvalidCmd)"
| "commandInfo HTMReq = ([IsRead, IsRequest, NeedsResponse], HTMReqResp)"
| "commandInfo HTMReqResp = ([IsRead, IsResponse], InvalidCmd)"
| "commandInfo HTMAbort = ([IsRead, IsRequest], InvalidCmd)"

definition testCmdAttrib :: "mem_cmd \<Rightarrow> attribute \<Rightarrow> bool" where
  "testCmdAttrib c a \<longleftrightarrow> a \<in> set (fst (commandInfo c))"

definition responseCommand :: "mem_cmd \<Rightarrow> mem_cmd" where
  "responseCommand c = snd (commandInfo c)"

abbreviation cmd_isRead :: "mem_cmd \<Rightarrow> bool" where "cmd_isRead c \<equiv> testCmdAttrib c IsRead"
abbreviation cmd_isWrite :: "mem_cmd \<Rightarrow> bool" where "cmd_isWrite c \<equiv> testCmdAttrib c IsWrite"
abbreviation cmd_isUpgrade :: "mem_cmd \<Rightarrow> bool" where "cmd_isUpgrade c \<equiv> testCmdAttrib c IsUpgrade"
abbreviation cmd_isRequest :: "mem_cmd \<Rightarrow> bool" where "cmd_isRequest c \<equiv> testCmdAttrib c IsRequest"
abbreviation cmd_isResponse :: "mem_cmd \<Rightarrow> bool" where "cmd_isResponse c \<equiv> testCmdAttrib c IsResponse"
abbreviation cmd_needsWritable :: "mem_cmd \<Rightarrow> bool" where
  "cmd_needsWritable c \<equiv> testCmdAttrib c NeedsWritable"
abbreviation cmd_needsResponse :: "mem_cmd \<Rightarrow> bool" where
  "cmd_needsResponse c \<equiv> testCmdAttrib c NeedsResponse"
abbreviation cmd_isInvalidate :: "mem_cmd \<Rightarrow> bool" where
  "cmd_isInvalidate c \<equiv> testCmdAttrib c IsInvalidate"
abbreviation cmd_isEviction :: "mem_cmd \<Rightarrow> bool" where "cmd_isEviction c \<equiv> testCmdAttrib c IsEviction"
abbreviation cmd_isClean :: "mem_cmd \<Rightarrow> bool" where "cmd_isClean c \<equiv> testCmdAttrib c IsClean"
abbreviation cmd_fromCache :: "mem_cmd \<Rightarrow> bool" where "cmd_fromCache c \<equiv> testCmdAttrib c FromCache"
abbreviation cmd_hasData :: "mem_cmd \<Rightarrow> bool" where "cmd_hasData c \<equiv> testCmdAttrib c HasData"
abbreviation cmd_isLLSC :: "mem_cmd \<Rightarrow> bool" where "cmd_isLLSC c \<equiv> testCmdAttrib c IsLlsc"
abbreviation cmd_isSWPrefetch :: "mem_cmd \<Rightarrow> bool" where
  "cmd_isSWPrefetch c \<equiv> testCmdAttrib c IsSWPrefetch"
abbreviation cmd_isHWPrefetch :: "mem_cmd \<Rightarrow> bool" where
  "cmd_isHWPrefetch c \<equiv> testCmdAttrib c IsHWPrefetch"
abbreviation cmd_isError :: "mem_cmd \<Rightarrow> bool" where "cmd_isError c \<equiv> testCmdAttrib c IsError"
abbreviation cmd_isPrint :: "mem_cmd \<Rightarrow> bool" where "cmd_isPrint c \<equiv> testCmdAttrib c IsPrint"
abbreviation cmd_isFlush :: "mem_cmd \<Rightarrow> bool" where "cmd_isFlush c \<equiv> testCmdAttrib c IsFlush"

definition cmd_isWriteback :: "mem_cmd \<Rightarrow> bool" where
  "cmd_isWriteback c \<longleftrightarrow> testCmdAttrib c IsEviction \<and> testCmdAttrib c HasData"

definition cmd_isPrefetch :: "mem_cmd \<Rightarrow> bool" where
  "cmd_isPrefetch c \<longleftrightarrow> testCmdAttrib c IsSWPrefetch \<or> testCmdAttrib c IsHWPrefetch"

text \<open>Claim C38. The command table is consistent: no command is both a request and a response; what
  needs a response is a request whose response command is a response that itself needs none;
  evictions are requests of a cache that need no response; upgrades carry no data; prefetches
  are reads; requests that write in the cache need a writable block, except the write-backs and
  clean writes that come from a cache.\<close>

theorem command_table_consistent:
  "\<not> (cmd_isRequest c \<and> cmd_isResponse c) \<and>
   (cmd_needsResponse c \<longrightarrow> cmd_isRequest c \<and> cmd_isResponse (responseCommand c) \<and>
      \<not> cmd_needsResponse (responseCommand c) \<and> responseCommand c \<noteq> InvalidCmd) \<and>
   (\<not> cmd_needsResponse c \<longrightarrow> responseCommand c = InvalidCmd) \<and>
   (cmd_isEviction c \<longrightarrow> cmd_isRequest c \<and> cmd_fromCache c \<and> \<not> cmd_needsResponse c) \<and>
   (cmd_isUpgrade c \<longrightarrow> \<not> cmd_hasData c) \<and>
   (cmd_isPrefetch c \<longrightarrow> cmd_isRead c) \<and>
   (cmd_isWrite c \<and> cmd_isRequest c \<and> \<not> cmd_fromCache c \<longrightarrow> cmd_needsWritable c) \<and>
   (cmd_isWriteback c \<longleftrightarrow> c = WritebackDirty \<or> c = WritebackClean)"
  by (cases c) (simp_all add: testCmdAttrib_def responseCommand_def cmd_isWriteback_def cmd_isPrefetch_def)

theorem command_table_consistent_witness:
  "cmd_isRequest HardPFReq \<and> cmd_isResponse (responseCommand HardPFReq) \<and>
   responseCommand HardPFReq = HardPFResp"
  using command_table_consistent [of HardPFReq] by (simp add: testCmdAttrib_def responseCommand_def)

section \<open>Packet flags\<close>

definition COPY_FLAGS :: u32 where "COPY_FLAGS = 0xFF"
definition RESPONDER_FLAGS :: u32 where "RESPONDER_FLAGS = 0x9"
definition HAS_SHARERS :: u32 where "HAS_SHARERS = 0x1"
definition EXPRESS_SNOOP :: u32 where "EXPRESS_SNOOP = 0x2"
definition RESPONDER_HAD_WRITABLE :: u32 where "RESPONDER_HAD_WRITABLE = 0x4"
definition CACHE_RESPONDING :: u32 where "CACHE_RESPONDING = 0x8"
definition WRITE_THROUGH :: u32 where "WRITE_THROUGH = 0x10"
definition SATISFIED :: u32 where "SATISFIED = 0x20"
definition FAILS_TRANSACTION :: u32 where "FAILS_TRANSACTION = 0x40"
definition FROM_TRANSACTION :: u32 where "FROM_TRANSACTION = 0x80"
definition VALID_ADDR :: u32 where "VALID_ADDR = 0x100"
definition VALID_SIZE :: u32 where "VALID_SIZE = 0x200"
definition STATIC_DATA :: u32 where "STATIC_DATA = 0x1000"
definition DYNAMIC_DATA :: u32 where "DYNAMIC_DATA = 0x2000"
definition SUPPRESS_FUNC_ERROR :: u32 where "SUPPRESS_FUNC_ERROR = 0x8000"
definition BLOCK_CACHED :: u32 where "BLOCK_CACHED = 0x10000"
definition MAY_NOT_FILL :: u32 where "MAY_NOT_FILL = 0x20000"
definition NO_FILL_LOWER :: u32 where "NO_FILL_LOWER = 0x40000"

lemmas packet_flag_defs = COPY_FLAGS_def RESPONDER_FLAGS_def HAS_SHARERS_def EXPRESS_SNOOP_def
  RESPONDER_HAD_WRITABLE_def CACHE_RESPONDING_def WRITE_THROUGH_def SATISFIED_def
  FAILS_TRANSACTION_def FROM_TRANSACTION_def VALID_ADDR_def VALID_SIZE_def STATIC_DATA_def
  DYNAMIC_DATA_def SUPPRESS_FUNC_ERROR_def BLOCK_CACHED_def MAY_NOT_FILL_def NO_FILL_LOWER_def

section \<open>Packets\<close>

datatype HtmCacheFailure = NO_FAIL | FAIL_SELF | FAIL_REMOTE | FAIL_OTHER

text \<open>The stack of sender states hangs off the packet as a linked list; here it is the list of
  the states' handles, topmost first.\<close>

record packet =
  cmd :: mem_cmd
  pkt_flags :: u32
  pkt_req :: request
  pkt_addr :: addr
  pkt_isSecure :: bool
  pkt_size :: u32
  pkt_data :: "u8 list"
  bytesValid :: "bool list"
  qosValue :: u8
  htmReturnReason :: HtmCacheFailure
  htmTransactionUid :: "64 word"
  headerDelay :: u32
  snoopDelay :: u32
  payloadDelay :: u32
  senderState :: "nat list"

definition pkt_isSet :: "packet \<Rightarrow> u32 \<Rightarrow> bool" where
  "pkt_isSet p m \<longleftrightarrow> flag_isSet (pkt_flags p) m"

definition pkt_setFlag :: "u32 \<Rightarrow> packet \<Rightarrow> packet" where
  "pkt_setFlag m p = p\<lparr>pkt_flags := flag_set (pkt_flags p) m\<rparr>"

definition pkt_clearFlag :: "u32 \<Rightarrow> packet \<Rightarrow> packet" where
  "pkt_clearFlag m p = p\<lparr>pkt_flags := flag_clear (pkt_flags p) m\<rparr>"

definition setNoFillLower :: "packet \<Rightarrow> packet" where "setNoFillLower = pkt_setFlag NO_FILL_LOWER"
definition clearNoFillLower :: "packet \<Rightarrow> packet" where "clearNoFillLower = pkt_clearFlag NO_FILL_LOWER"
definition isNoFillLower :: "packet \<Rightarrow> bool" where "isNoFillLower p = pkt_isSet p NO_FILL_LOWER"
definition setMayNotFill :: "packet \<Rightarrow> packet" where "setMayNotFill = pkt_setFlag MAY_NOT_FILL"
definition clearMayNotFill :: "packet \<Rightarrow> packet" where "clearMayNotFill = pkt_clearFlag MAY_NOT_FILL"
definition isMayNotFill :: "packet \<Rightarrow> bool" where "isMayNotFill p = pkt_isSet p MAY_NOT_FILL"

definition isDemandFetch :: "packet \<Rightarrow> bool" where
  "isDemandFetch p \<longleftrightarrow> req_isDemandFetch (pkt_req p) \<and> (cmd_isRead (cmd p) \<or> cmd_isWrite (cmd p))"

definition pkt_domainID :: "packet \<Rightarrow> domain_id" where
  "pkt_domainID p = getDomainID (pkt_req p)"

definition needsWritable :: "packet \<Rightarrow> bool result" where
  "needsWritable p = require (cmd_isRequest (cmd p)) Assert (Inr (cmd_needsWritable (cmd p)))"

definition hasRespData :: "packet \<Rightarrow> bool" where
  "hasRespData p \<longleftrightarrow> cmd_hasData (responseCommand (cmd p))"

definition getAddr :: "packet \<Rightarrow> addr result" where
  "getAddr p = require (pkt_isSet p VALID_ADDR) Assert (Inr (pkt_addr p))"

definition getSize :: "packet \<Rightarrow> u32 result" where
  "getSize p = require (pkt_isSet p VALID_SIZE) Assert (Inr (pkt_size p))"

definition isSecure :: "packet \<Rightarrow> bool result" where
  "isSecure p = require (pkt_isSet p VALID_ADDR) Assert (Inr (pkt_isSecure p))"

definition setAddr :: "addr \<Rightarrow> packet \<Rightarrow> packet result" where
  "setAddr a p = require (pkt_isSet p VALID_ADDR) Assert (Inr (p\<lparr>pkt_addr := a\<rparr>))"

definition getOffset :: "packet \<Rightarrow> u32 \<Rightarrow> addr result" where
  "getOffset p blk_size = bind_result (getAddr p) (\<lambda>a. Inr (a AND ucast (blk_size - 1)))"

definition getBlockAddr :: "packet \<Rightarrow> u32 \<Rightarrow> addr result" where
  "getBlockAddr p blk_size = bind_result (getAddr p) (\<lambda>a. Inr (a AND NOT (ucast (blk_size - 1))))"

definition isWholeLineWrite :: "packet \<Rightarrow> u32 \<Rightarrow> bool result" where
  "isWholeLineWrite p blk_size =
     (if cmd p = WriteReq \<or> cmd p = WriteLineReq
      then bind_result (getOffset p blk_size) (\<lambda>off.
             if off = 0 then bind_result (getSize p) (\<lambda>sz. Inr (sz = blk_size)) else Inr False)
      else Inr False)"

definition setCacheResponding :: "packet \<Rightarrow> packet result" where
  "setCacheResponding p = require (cmd_isRequest (cmd p)) Assert
     (require (\<not> pkt_isSet p CACHE_RESPONDING) Assert (Inr (pkt_setFlag CACHE_RESPONDING p)))"

definition cacheResponding :: "packet \<Rightarrow> bool" where
  "cacheResponding p = pkt_isSet p CACHE_RESPONDING"

definition setHasSharers :: "packet \<Rightarrow> packet" where "setHasSharers = pkt_setFlag HAS_SHARERS"
definition hasSharers :: "packet \<Rightarrow> bool" where "hasSharers p = pkt_isSet p HAS_SHARERS"
definition setExpressSnoop :: "packet \<Rightarrow> packet" where "setExpressSnoop = pkt_setFlag EXPRESS_SNOOP"
definition isExpressSnoop :: "packet \<Rightarrow> bool" where "isExpressSnoop p = pkt_isSet p EXPRESS_SNOOP"

definition responderHadWritable :: "packet \<Rightarrow> bool" where
  "responderHadWritable p = pkt_isSet p RESPONDER_HAD_WRITABLE"

definition setResponderHadWritable :: "packet \<Rightarrow> packet result" where
  "setResponderHadWritable p = require (cacheResponding p) Assert
     (require (\<not> responderHadWritable p) Assert (Inr (pkt_setFlag RESPONDER_HAD_WRITABLE p)))"

definition copyResponderFlags :: "packet \<Rightarrow> packet \<Rightarrow> packet result" where
  "copyResponderFlags p other = require (cmd_isRequest (cmd p)) Assert
     (require (\<not> cacheResponding other \<or> \<not> cacheResponding p) Assert
     (Inr (pkt_setFlag (pkt_flags other AND RESPONDER_FLAGS) p)))"

definition setWriteThrough :: "packet \<Rightarrow> packet result" where
  "setWriteThrough p = require (cmd_isWrite (cmd p) \<and> (cmd_isEviction (cmd p) \<or> cmd p = WriteClean)) Assert
     (Inr (pkt_setFlag WRITE_THROUGH p))"

definition writeThrough :: "packet \<Rightarrow> bool" where "writeThrough p = pkt_isSet p WRITE_THROUGH"

definition setSatisfied :: "packet \<Rightarrow> packet result" where
  "setSatisfied p = require (cmd_isClean (cmd p)) Assert
     (require (\<not> pkt_isSet p SATISFIED) Assert (Inr (pkt_setFlag SATISFIED p)))"

definition satisfied :: "packet \<Rightarrow> bool" where "satisfied p = pkt_isSet p SATISFIED"
definition setBlockCached :: "packet \<Rightarrow> packet" where "setBlockCached = pkt_setFlag BLOCK_CACHED"
definition isBlockCached :: "packet \<Rightarrow> bool" where "isBlockCached p = pkt_isSet p BLOCK_CACHED"

definition convertScToWrite :: "packet \<Rightarrow> packet result" where
  "convertScToWrite p = require (cmd_isLLSC (cmd p)) Assert
     (require (cmd_isWrite (cmd p)) Assert (Inr (p\<lparr>cmd := WriteReq\<rparr>)))"

definition convertLlToRead :: "packet \<Rightarrow> packet result" where
  "convertLlToRead p = require (cmd_isLLSC (cmd p)) Assert
     (require (cmd_isRead (cmd p)) Assert (Inr (p\<lparr>cmd := ReadReq\<rparr>)))"

section \<open>Construction, copying and responses\<close>

definition new_packet :: "request \<Rightarrow> mem_cmd \<Rightarrow> packet result" where
  "new_packet r c =
     (let p0 = \<lparr>cmd = c, pkt_flags = 0, pkt_req = r, pkt_addr = 0, pkt_isSecure = False,
                pkt_size = 0, pkt_data = [], bytesValid = [], qosValue = 0,
                htmReturnReason = NO_FAIL, htmTransactionUid = 0, headerDelay = 0,
                snoopDelay = 0, payloadDelay = 0, senderState = []\<rparr>;
          p1 = (if hasPaddr r
                then pkt_setFlag VALID_ADDR (p0\<lparr>pkt_addr := req_paddr r, pkt_isSecure := req_isSecure r\<rparr>)
                else p0);
          p2 = (if req_isHTMCmd r then pkt_setFlag VALID_ADDR p1 else p1);
          p3 = (if hasSize r then pkt_setFlag VALID_SIZE (p2\<lparr>pkt_size := req_size r\<rparr>) else p2)
      in require (req_isHTMCmd r \<longrightarrow> pkt_addr p1 = 0) Assert
         (Inr (if req_isNoFill r then setMayNotFill p3 else p3)))"

definition new_packet_blk :: "request \<Rightarrow> mem_cmd \<Rightarrow> u32 \<Rightarrow> packet" where
  "new_packet_blk r c blkSize =
     (let p0 = \<lparr>cmd = c, pkt_flags = 0, pkt_req = r, pkt_addr = 0, pkt_isSecure = False,
                pkt_size = 0, pkt_data = [], bytesValid = [], qosValue = 0,
                htmReturnReason = NO_FAIL, htmTransactionUid = 0, headerDelay = 0,
                snoopDelay = 0, payloadDelay = 0, senderState = []\<rparr>;
          p1 = (if hasPaddr r
                then pkt_setFlag VALID_ADDR (p0\<lparr>pkt_addr := req_paddr r AND NOT (ucast (blkSize - 1)),
                       pkt_isSecure := req_isSecure r\<rparr>)
                else p0);
          p2 = (if req_isNoFill r then setMayNotFill p1 else p1)
      in pkt_setFlag VALID_SIZE (p2\<lparr>pkt_size := blkSize\<rparr>))"

definition allocate :: "packet \<Rightarrow> u8 list \<Rightarrow> packet result" where
  "allocate p fresh =
     (if cmd_hasData (cmd p) \<or> hasRespData p
      then require (flag_noneSet (pkt_flags p) (STATIC_DATA OR DYNAMIC_DATA)) Assert
           (bind_result (getSize p) (\<lambda>sz.
             Inr ((pkt_setFlag DYNAMIC_DATA p)\<lparr>pkt_data := take (unat sz) fresh\<rparr>)))
      else Inr p)"

definition setHtmTransactionFailedInCache :: "HtmCacheFailure \<Rightarrow> packet \<Rightarrow> packet" where
  "setHtmTransactionFailedInCache code p =
     (if code \<noteq> NO_FAIL then pkt_setFlag FAILS_TRANSACTION p else p)\<lparr>htmReturnReason := code\<rparr>"

definition htmTransactionFailedInCache :: "packet \<Rightarrow> bool" where
  "htmTransactionFailedInCache p = pkt_isSet p FAILS_TRANSACTION"

definition setHtmTransactional :: "64 word \<Rightarrow> packet \<Rightarrow> packet" where
  "setHtmTransactional uid p = (pkt_setFlag FROM_TRANSACTION p)\<lparr>htmTransactionUid := uid\<rparr>"

definition isHtmTransactional :: "packet \<Rightarrow> bool" where
  "isHtmTransactional p = pkt_isSet p FROM_TRANSACTION"

text \<open>The copy constructor; \<open>fresh\<close> is the content of newly allocated memory.\<close>

definition copy_packet :: "packet \<Rightarrow> bool \<Rightarrow> bool \<Rightarrow> u8 list \<Rightarrow> packet result" where
  "copy_packet p clear_flags alloc_data fresh =
     (let f0 = (if \<not> clear_flags then flag_set 0 (pkt_flags p AND COPY_FLAGS) else 0);
          q0 = p\<lparr>pkt_flags := flag_set f0 (pkt_flags p AND (VALID_ADDR OR VALID_SIZE)),
                pkt_data := [], htmReturnReason := NO_FAIL, htmTransactionUid := 0, snoopDelay := 0\<rparr>;
          q1 = (if isMayNotFill p then setMayNotFill q0 else clearMayNotFill q0);
          q2 = (if isHtmTransactional p then setHtmTransactional (htmTransactionUid p) q1 else q1);
          q3 = (if htmTransactionFailedInCache p
                then setHtmTransactionFailedInCache (htmReturnReason p) q2 else q2)
      in if alloc_data
         then if pkt_isSet p STATIC_DATA
              then Inr (pkt_setFlag STATIC_DATA (q3\<lparr>pkt_data := pkt_data p\<rparr>))
              else allocate q3 fresh
         else Inr q3)"

definition makeReadCmd :: "request \<Rightarrow> mem_cmd" where
  "makeReadCmd r =
     (if req_isHTMCmd r then (if req_isHTMAbort r then HTMAbort else HTMReq)
      else if req_isLLSC r then LoadLockedReq
      else if req_isPrefetchEx r then SoftPFExReq
      else if req_isPrefetch r then SoftPFReq
      else ReadReq)"

definition makeWriteCmd :: "request \<Rightarrow> mem_cmd" where
  "makeWriteCmd r =
     (if req_isLLSC r then StoreCondReq
      else if req_isSwap r \<or> req_isAtomic r then SwapReq
      else if req_isCacheInvalidate r then (if req_isCacheClean r then CleanInvalidReq else InvalidateReq)
      else if req_isCacheClean r then CleanSharedReq
      else WriteReq)"

definition createRead :: "request \<Rightarrow> packet result" where
  "createRead r = new_packet r (makeReadCmd r)"

definition createWrite :: "request \<Rightarrow> packet result" where
  "createWrite r = new_packet r (makeWriteCmd r)"

definition makeResponse :: "packet \<Rightarrow> packet result" where
  "makeResponse p = require (cmd_needsResponse (cmd p)) Assert
     (require (cmd_isRequest (cmd p)) Assert
     (Inr (pkt_clearFlag EXPRESS_SNOOP (p\<lparr>cmd := responseCommand (cmd p)\<rparr>))))"

definition makeHtmTransactionalReqResponse :: "HtmCacheFailure \<Rightarrow> packet \<Rightarrow> packet result" where
  "makeHtmTransactionalReqResponse code p = require (cmd_needsResponse (cmd p)) Assert
     (require (cmd_isRequest (cmd p)) Assert
     (Inr (pkt_clearFlag EXPRESS_SNOOP
       (setHtmTransactionFailedInCache code (p\<lparr>cmd := responseCommand (cmd p)\<rparr>)))))"

definition setFunctionalResponseStatus :: "bool \<Rightarrow> packet \<Rightarrow> packet" where
  "setFunctionalResponseStatus success p =
     (if \<not> success then (if cmd_isWrite (cmd p) then p\<lparr>cmd := FunctionalWriteError\<rparr>
                         else p\<lparr>cmd := FunctionalReadError\<rparr>)
      else p)"

definition setSize :: "u32 \<Rightarrow> packet \<Rightarrow> packet result" where
  "setSize sz p = require (\<not> pkt_isSet p VALID_SIZE) Assert
     (Inr (pkt_setFlag VALID_SIZE (p\<lparr>pkt_size := sz\<rparr>)))"

definition setSizeSHT :: "u32 \<Rightarrow> packet \<Rightarrow> packet result" where
  "setSizeSHT sz p = require (pkt_isSet p VALID_SIZE) Assert (Inr (p\<lparr>pkt_size := sz\<rparr>))"

definition pushSenderState :: "nat \<Rightarrow> packet \<Rightarrow> packet" where
  "pushSenderState st p = p\<lparr>senderState := st # senderState p\<rparr>"

definition popSenderState :: "packet \<Rightarrow> (nat \<times> packet) result" where
  "popSenderState p =
     (case senderState p of [] \<Rightarrow> Inl Assert | st # rest \<Rightarrow> Inr (st, p\<lparr>senderState := rest\<rparr>))"

definition matchBlockAddr :: "packet \<Rightarrow> addr \<Rightarrow> bool \<Rightarrow> u32 \<Rightarrow> bool result" where
  "matchBlockAddr p a is_secure blk_size =
     bind_result (getBlockAddr p blk_size) (\<lambda>b.
     if b = a then bind_result (isSecure p) (\<lambda>s. Inr (s = is_secure)) else Inr False)"

definition matchBlockAddr_domain :: "packet \<Rightarrow> addr \<Rightarrow> bool \<Rightarrow> domain_id \<Rightarrow> u32 \<Rightarrow> bool result" where
  "matchBlockAddr_domain p a is_secure d blk_size =
     bind_result (getBlockAddr p blk_size) (\<lambda>b.
     if b = a then bind_result (isSecure p) (\<lambda>s. Inr (s = is_secure \<and> pkt_domainID p = d))
     else Inr False)"

definition matchBlockAddr_pkt :: "packet \<Rightarrow> packet \<Rightarrow> u32 \<Rightarrow> bool result" where
  "matchBlockAddr_pkt p q blk_size =
     bind_result (getBlockAddr q blk_size) (\<lambda>b. bind_result (isSecure q) (\<lambda>s.
     matchBlockAddr_domain p b s (pkt_domainID q) blk_size))"

definition matchAddr :: "packet \<Rightarrow> addr \<Rightarrow> bool \<Rightarrow> domain_id \<Rightarrow> bool result" where
  "matchAddr p a is_secure d =
     bind_result (getAddr p) (\<lambda>b.
     if b = a then bind_result (isSecure p) (\<lambda>s. Inr (s = is_secure \<and> pkt_domainID p = d))
     else Inr False)"

definition matchAddr_pkt :: "packet \<Rightarrow> packet \<Rightarrow> bool result" where
  "matchAddr_pkt p q =
     bind_result (getAddr q) (\<lambda>a. bind_result (isSecure q) (\<lambda>s. matchAddr p a s (pkt_domainID q)))"

definition mustCheckAbove :: "packet \<Rightarrow> bool" where
  "mustCheckAbove p \<longleftrightarrow> cmd p = HardPFReq \<or> cmd_isEviction (cmd p)"

definition isCleanEviction :: "packet \<Rightarrow> bool" where
  "isCleanEviction p \<longleftrightarrow> cmd p = CleanEvict \<or> cmd p = WritebackClean"

definition isMaskedWrite :: "packet \<Rightarrow> bool" where
  "isMaskedWrite p \<longleftrightarrow> cmd p = WriteReq \<and> isMasked (pkt_req p)"

end
