(* ===== verification/Packet_Data.thy ===== *)
theory Packet_Data
  imports Packet
begin

text \<open>
  The payload of a packet (\<^verbatim>\<open>mem/packet.hh\<close>, \<^verbatim>\<open>mem/packet.cc\<close>): copying bytes into and out of a
  cache block, with byte enables, and satisfying a functional access from another packet or a
  block. Memory is a byte list; a copy outside of it is undefined behaviour.
\<close>

section \<open>Byte copies\<close>

definition memcpy :: "u8 list \<Rightarrow> nat \<Rightarrow> u8 list \<Rightarrow> nat \<Rightarrow> nat \<Rightarrow> u8 list result" where
  "memcpy dst doff src soff n = require (doff + n \<le> length dst \<and> soff + n \<le> length src) Undefined
     (Inr (take doff dst @ take n (drop soff src) @ drop (doff + n) dst))"

definition getPtr :: "packet \<Rightarrow> u8 list result" where
  "getPtr p = require (pkt_isSet p (STATIC_DATA OR DYNAMIC_DATA)) Assert
     (require (\<not> isMaskedWrite p) Assert (Inr (pkt_data p)))"

definition getConstPtr :: "packet \<Rightarrow> u8 list result" where
  "getConstPtr p = require (pkt_isSet p (STATIC_DATA OR DYNAMIC_DATA)) Assert (Inr (pkt_data p))"

definition dataStatic :: "u8 list \<Rightarrow> packet \<Rightarrow> packet result" where
  "dataStatic bytes p = require (flag_noneSet (pkt_flags p) (STATIC_DATA OR DYNAMIC_DATA)) Assert
     (Inr (pkt_setFlag STATIC_DATA (p\<lparr>pkt_data := bytes\<rparr>)))"

definition dataDynamic :: "u8 list \<Rightarrow> packet \<Rightarrow> packet result" where
  "dataDynamic bytes p = require (flag_noneSet (pkt_flags p) (STATIC_DATA OR DYNAMIC_DATA)) Assert
     (Inr (pkt_setFlag DYNAMIC_DATA (p\<lparr>pkt_data := bytes\<rparr>)))"

definition deleteData :: "packet \<Rightarrow> packet" where
  "deleteData p = pkt_clearFlag (STATIC_DATA OR DYNAMIC_DATA) (p\<lparr>pkt_data := []\<rparr>)"

text \<open>\<open>aliased\<close> says whether the source pointer is the packet's own data pointer; otherwise the
  bytes are those at offset \<open>off\<close> of \<open>src\<close>.\<close>

definition setData :: "bool \<Rightarrow> u8 list \<Rightarrow> nat \<Rightarrow> packet \<Rightarrow> packet result" where
  "setData aliased src off p =
     bind_result (getPtr p) (\<lambda>dst.
     require (\<not> aliased \<or> pkt_isSet p STATIC_DATA) Assert
     (if aliased then Inr p
      else bind_result (getSize p) (\<lambda>sz.
           bind_result (memcpy dst 0 src off (unat sz)) (\<lambda>bytes. Inr (p\<lparr>pkt_data := bytes\<rparr>)))))"

definition setDataFromBlock :: "u8 list \<Rightarrow> u32 \<Rightarrow> packet \<Rightarrow> packet result" where
  "setDataFromBlock blk_data blkSize p =
     bind_result (getOffset p blkSize) (\<lambda>off. setData False blk_data (unat off) p)"

definition write_byte :: "bool list \<Rightarrow> u8 list \<Rightarrow> nat \<Rightarrow> nat \<Rightarrow> u8 list \<Rightarrow> u8 list result" where
  "write_byte be base off i dst =
     (if be ! i then require (off + i < length dst \<and> i < length base) Undefined
                       (Inr (dst[off + i := base ! i]))
      else Inr dst)"

definition writeData :: "packet \<Rightarrow> u8 list \<Rightarrow> nat \<Rightarrow> u8 list result" where
  "writeData p dst off =
     (if \<not> isMaskedWrite p
      then bind_result (getConstPtr p) (\<lambda>src. bind_result (getSize p) (\<lambda>sz.
           memcpy dst off src 0 (unat sz)))
      else bind_result (getSize p) (\<lambda>sz.
           require (length (req_byteEnable (pkt_req p)) = unat sz) Assert
           (bind_result (getConstPtr p) (\<lambda>base.
            fold_result (write_byte (req_byteEnable (pkt_req p)) base off) [0..<unat sz] dst))))"

definition writeDataToBlock :: "packet \<Rightarrow> u8 list \<Rightarrow> u32 \<Rightarrow> u8 list result" where
  "writeDataToBlock p blk_data blkSize =
     bind_result (getOffset p blkSize) (\<lambda>off. writeData p blk_data (unat off))"

section \<open>Functional accesses\<close>

text \<open>
  \<open>trySatisfyFunctional\<close> returns whether a read is complete, the packet and the other data. A
  print request only produces output.
\<close>

definition mark_valid :: "nat \<Rightarrow> nat \<Rightarrow> bool list \<Rightarrow> bool list" where
  "mark_valid lo n bv = take lo bv @ replicate n True @ drop (lo + n) bv"

definition functional_read :: "packet \<Rightarrow> u8 list \<Rightarrow> nat \<Rightarrow> nat \<Rightarrow> nat \<Rightarrow> (bool \<times> packet) result" where
  "functional_read p d func_offset val_offset overlap =
     bind_result (getPtr p) (\<lambda>dst.
     bind_result (memcpy dst func_offset d val_offset overlap) (\<lambda>bytes.
     bind_result (getSize p) (\<lambda>sz.
     let bv = (if bytesValid p = [] then replicate (unat sz) False else bytesValid p)
     in require (func_offset + overlap \<le> length bv \<and> unat sz \<le> length bv) Undefined
        (Inr (list_all id (take func_offset bv) \<and>
              list_all id (take (unat sz - (func_offset + overlap)) (drop (func_offset + overlap) bv)),
              p\<lparr>pkt_data := bytes, bytesValid := mark_valid func_offset overlap bv\<rparr>)))))"

definition trySatisfyFunctional ::
  "packet \<Rightarrow> addr \<Rightarrow> bool \<Rightarrow> u32 \<Rightarrow> u8 list option \<Rightarrow> (bool \<times> packet \<times> u8 list option) result" where
  "trySatisfyFunctional p a is_secure sz d =
     bind_result (getAddr p) (\<lambda>func_start.
     bind_result (getSize p) (\<lambda>psz.
     let func_end = func_start + ucast psz - 1;
         val_start = a;
         val_end = val_start + scast sz - 1
     in if is_secure \<noteq> pkt_isSecure p \<or> func_start > val_end \<or> val_start > func_end
        then Inr (False, p, d)
        else if cmd_isPrint (cmd p) then require (d = None) Assert (Inr (False, p, d))
        else case d of
          None \<Rightarrow> Inr (False, p, d)
        | Some bytes \<Rightarrow>
            let val_offset = (if func_start > val_start then func_start - val_start else 0);
                func_offset = (if func_start < val_start then val_start - func_start else 0);
                overlap = min val_end func_end + 1 - max val_start func_start
            in if cmd_isRead (cmd p)
               then bind_result (functional_read p bytes (unat func_offset) (unat val_offset) (unat overlap))
                      (\<lambda>(done, q). Inr (done, q, d))
               else if cmd_isWrite (cmd p)
               then bind_result (getConstPtr p) (\<lambda>src.
                    bind_result (memcpy bytes (unat val_offset) src (unat func_offset) (unat overlap))
                      (\<lambda>bytes'. Inr (False, p, Some bytes')))
               else Inl Panic))"

definition trySatisfyFunctional_pkt ::
  "packet \<Rightarrow> packet \<Rightarrow> (bool \<times> packet \<times> packet) result" where
  "trySatisfyFunctional_pkt p other =
     (if isMaskedWrite other then Inr (False, p, other)
      else bind_result (getAddr other) (\<lambda>a. bind_result (isSecure other) (\<lambda>s.
           bind_result (getSize other) (\<lambda>sz.
           if cmd_hasData (cmd other)
           then bind_result (getPtr other) (\<lambda>d.
                bind_result (trySatisfyFunctional p a s sz (Some d)) (\<lambda>(b, q, d').
                Inr (b, q, other\<lparr>pkt_data := case d' of None \<Rightarrow> [] | Some x \<Rightarrow> x\<rparr>)))
           else bind_result (trySatisfyFunctional p a s sz None) (\<lambda>(b, q, d'). Inr (b, q, other))))))"

section \<open>Lemmas\<close>

lemma memcpy_Inr:
  assumes "doff + n \<le> length dst" "soff + n \<le> length src"
  obtains r where "memcpy dst doff src soff n = Inr r" "length r = length dst"
    "\<And>i. i < length dst \<Longrightarrow> r ! i = (if doff \<le> i \<and> i < doff + n then src ! (soff + (i - doff)) else dst ! i)"
proof
  let ?r = "take doff dst @ take n (drop soff src) @ drop (doff + n) dst"
  show "memcpy dst doff src soff n = Inr ?r" using assms by (simp add: memcpy_def)
  show "length ?r = length dst" using assms by simp
  show "?r ! i = (if doff \<le> i \<and> i < doff + n then src ! (soff + (i - doff)) else dst ! i)"
    if "i < length dst" for i
  proof -
    have "length (take n (drop soff src)) = n" using assms by simp
    with assms that show ?thesis by (auto simp: nth_append)
  qed
qed

lemma length_mark_valid: "lo + n \<le> length bv \<Longrightarrow> length (mark_valid lo n bv) = length bv"
  by (simp add: mark_valid_def)

lemma list_all_mark_valid:
  assumes "lo + n \<le> length bv"
  shows "list_all id (mark_valid lo n bv) \<longleftrightarrow>
    list_all id (take lo bv) \<and> list_all id (drop (lo + n) bv)"
  by (auto simp: mark_valid_def list_all_iff)

text \<open>The word arithmetic of the overlap, over the naturals.\<close>

lemma functional_overlap:
  fixes fa va :: addr and psz sz :: u32
  defines "A \<equiv> unat fa" and "S \<equiv> unat psz" and "V \<equiv> unat va" and "N \<equiv> unat sz"
  assumes "0 < S" "0 < N" "N < 2 ^ 31" "A + S < 2 ^ 64" "V + N < 2 ^ 64"
  shows "fa > va + scast sz - 1 \<longleftrightarrow> V + N \<le> A"
    and "va > fa + ucast psz - 1 \<longleftrightarrow> A + S \<le> V"
    and "unat (if fa > va then fa - va else 0) = A - V"
    and "unat (if fa < va then va - fa else 0) = V - A"
    and "\<lbrakk>A < V + N; V < A + S\<rbrakk> \<Longrightarrow>
      unat (min (va + scast sz - 1) (fa + ucast psz - 1) + 1 - max va fa) = min (V + N) (A + S) - max V A"
proof -
  have s: "unat (ucast psz :: addr) = S"
    by (simp add: S_def unsigned_ucast_eq take_bit_nat_eq_self_iff order_less_trans [OF unsigned_less])
  have "\<not> bit sz 31" using \<open>N < 2 ^ 31\<close> unat_less_power_iff_bits [of sz 31] by (simp add: N_def)
  then have "(scast sz :: addr) = ucast sz"
  proof (intro word_eq_by_bits)
    fix i assume "i < LENGTH(64)"
    have "bit sz i \<Longrightarrow> i < 32" using bit_imp_le_length [of sz i] by simp
    with \<open>\<not> bit sz 31\<close> have "bit sz i \<Longrightarrow> i < 31" by (cases "i = 31") auto
    with \<open>\<not> bit sz 31\<close> \<open>i < LENGTH(64)\<close> show "bit (scast sz :: addr) i = bit (ucast sz :: addr) i"
      by (auto simp: bit_signed_iff bit_unsigned_iff min_def)
  qed
  then have n: "unat (scast sz :: addr) = N"
    by (simp add: N_def unsigned_ucast_eq take_bit_nat_eq_self_iff order_less_trans [OF unsigned_less])
  have fs: "unat (fa + ucast psz) = A + S" and vs: "unat (va + scast sz) = V + N"
    using assms(8,9) s n by (simp_all add: unat_word_ariths A_def V_def)
  have fe: "unat (fa + ucast psz - 1) = A + S - 1"
    using fs \<open>0 < S\<close> by (subst unat_sub) (auto simp: word_le_nat_alt)
  have ve: "unat (va + scast sz - 1) = V + N - 1"
    using vs \<open>0 < N\<close> by (subst unat_sub) (auto simp: word_le_nat_alt)
  show "fa > va + scast sz - 1 \<longleftrightarrow> V + N \<le> A"
    using ve \<open>0 < N\<close> by (auto simp: word_less_nat_alt A_def)
  show "va > fa + ucast psz - 1 \<longleftrightarrow> A + S \<le> V"
    using fe \<open>0 < S\<close> by (auto simp: word_less_nat_alt V_def)
  show "unat (if fa > va then fa - va else 0) = A - V"
    by (auto simp: word_less_nat_alt A_def V_def unat_sub word_le_nat_alt)
  show "unat (if fa < va then va - fa else 0) = V - A"
    by (auto simp: word_less_nat_alt A_def V_def unat_sub word_le_nat_alt)
  assume ov: "A < V + N" "V < A + S"
  have mn: "unat (min (va + scast sz - 1) (fa + ucast psz - 1)) = min (V + N) (A + S) - 1"
    using fe ve by (auto simp: min_def word_le_nat_alt)
  have mx: "unat (max va fa) = max V A" by (auto simp: max_def word_le_nat_alt A_def V_def)
  have e: "unat (min (va + scast sz - 1) (fa + ucast psz - 1) + 1) = min (V + N) (A + S)"
    using mn assms(5,6,8,9) by (simp add: unat_word_ariths)
  show "unat (min (va + scast sz - 1) (fa + ucast psz - 1) + 1 - max va fa) = min (V + N) (A + S) - max V A"
    using e mx ov by (subst unat_sub) (auto simp: word_le_nat_alt)
qed

section \<open>Correctness\<close>

text \<open>A packet whose address, size and data are present, with a payload as long as its size.\<close>

definition has_payload :: "packet \<Rightarrow> bool" where
  "has_payload p \<longleftrightarrow> pkt_isSet p VALID_ADDR \<and> pkt_isSet p VALID_SIZE \<and>
     pkt_isSet p (STATIC_DATA OR DYNAMIC_DATA) \<and> length (pkt_data p) = unat (pkt_size p)"

definition wf_bytesValid :: "packet \<Rightarrow> bool" where
  "wf_bytesValid p \<longleftrightarrow> bytesValid p = [] \<or> length (bytesValid p) = unat (pkt_size p)"

lemma functional_read_correct:
  assumes "has_payload p" "wf_bytesValid p" "\<not> isMaskedWrite p"
    and fo: "fo + ov \<le> unat (pkt_size p)" and vo: "vo + ov \<le> length d"
  obtains b q where "functional_read p d fo vo ov = Inr (b, q)"
    "length (pkt_data q) = unat (pkt_size p)" "length (bytesValid q) = unat (pkt_size p)"
    "\<And>i. i < unat (pkt_size p) \<Longrightarrow>
       pkt_data q ! i = (if fo \<le> i \<and> i < fo + ov then d ! (vo + (i - fo)) else pkt_data p ! i)"
    "b \<longleftrightarrow> list_all id (bytesValid q)"
proof -
  let ?n = "unat (pkt_size p)"
  let ?bv = "if bytesValid p = [] then replicate ?n False else bytesValid p"
  have len: "length (pkt_data p) = ?n" using assms(1) by (simp add: has_payload_def)
  then have "fo + ov \<le> length (pkt_data p)" using fo by simp
  from memcpy_Inr [OF this vo] obtain r where r: "memcpy (pkt_data p) fo d vo ov = Inr r"
    "length r = length (pkt_data p)"
    "\<And>i. i < length (pkt_data p) \<Longrightarrow> r ! i = (if fo \<le> i \<and> i < fo + ov then d ! (vo + (i - fo)) else pkt_data p ! i)"
    by blast
  have bv: "length ?bv = ?n" using assms(2) by (auto simp: wf_bytesValid_def)
  let ?b = "list_all id (take fo ?bv) \<and> list_all id (take (?n - (fo + ov)) (drop (fo + ov) ?bv))"
  let ?q = "p\<lparr>pkt_data := r, bytesValid := mark_valid fo ov ?bv\<rparr>"
  have e: "functional_read p d fo vo ov = Inr (?b, ?q)"
    using assms(1,3) r(1) bv fo
    by (simp add: functional_read_def getPtr_def getSize_def has_payload_def Let_def)
  have b: "?b \<longleftrightarrow> list_all id (mark_valid fo ov ?bv)"
    using bv fo list_all_mark_valid [of fo ov ?bv] by simp
  have l: "length (mark_valid fo ov ?bv) = ?n" using length_mark_valid [of fo ov ?bv] bv fo by simp
  show thesis by (rule that [OF e]) (use r len l b in simp_all)
qed

lemma trySatisfy_disjoint:
  fixes p :: packet and a :: addr and sz :: u32
  defines "A \<equiv> unat (pkt_addr p)" and "S \<equiv> unat (pkt_size p)" and "V \<equiv> unat a" and "N \<equiv> unat sz"
  assumes "has_payload p" "0 < S" "0 < N" "N < 2 ^ 31" "A + S < 2 ^ 64" "V + N < 2 ^ 64"
    and "\<not> (is_secure = pkt_isSecure p \<and> A < V + N \<and> V < A + S)"
  shows "trySatisfyFunctional p a is_secure sz (Some d) = Inr (False, p, Some d)"
proof -
  note ovl = functional_overlap [of "pkt_size p" sz "pkt_addr p" a, folded A_def S_def V_def N_def,
      OF assms(6-10)]
  have "getAddr p = Inr (pkt_addr p)" "getSize p = Inr (pkt_size p)"
    using assms(5) by (simp_all add: getAddr_def getSize_def has_payload_def)
  then show ?thesis using ovl(1,2) assms(11) by (auto simp: trySatisfyFunctional_def Let_def)
qed

lemma trySatisfy_overlap:
  fixes p :: packet and a :: addr and sz :: u32
  defines "A \<equiv> unat (pkt_addr p)" and "S \<equiv> unat (pkt_size p)" and "V \<equiv> unat a" and "N \<equiv> unat sz"
  defines "ov \<equiv> min (V + N) (A + S) - max V A"
  assumes "has_payload p" "0 < S" "0 < N" "N < 2 ^ 31" "A + S < 2 ^ 64" "V + N < 2 ^ 64"
    and "is_secure = pkt_isSecure p \<and> A < V + N \<and> V < A + S"
    and "\<not> cmd_isPrint (cmd p)"
  shows "trySatisfyFunctional p a is_secure sz (Some d) =
    (if cmd_isRead (cmd p)
     then bind_result (functional_read p d (V - A) (A - V) ov) (\<lambda>(done, q). Inr (done, q, Some d))
     else if cmd_isWrite (cmd p)
     then bind_result (memcpy d (A - V) (pkt_data p) (V - A) ov) (\<lambda>d'. Inr (False, p, Some d'))
     else Inl Panic)"
proof -
  note ovl = functional_overlap [of "pkt_size p" sz "pkt_addr p" a, folded A_def S_def V_def N_def,
      OF assms(7-11)]
  have acc: "getAddr p = Inr (pkt_addr p)" "getSize p = Inr (pkt_size p)"
    "getConstPtr p = Inr (pkt_data p)"
    using assms(6) by (simp_all add: getAddr_def getSize_def getConstPtr_def has_payload_def)
  have ends: "\<not> pkt_addr p > a + scast sz - 1" "\<not> a > pkt_addr p + ucast (pkt_size p) - 1"
    using assms(12) ovl(1,2) by simp_all
  have ov: "unat (min (a + scast sz - 1) (pkt_addr p + ucast (pkt_size p) - 1) + 1 - max a (pkt_addr p)) = ov"
    using ovl(5) assms(12) by (simp add: ov_def)
  show ?thesis
    unfolding trySatisfyFunctional_def acc bind_result_Inr Let_def option.case
    using ends assms(12,13) by (simp only: simp_thms if_False if_True ovl(3,4) ov)
qed


definition demo_read :: packet where
  "demo_read = \<lparr>cmd = ReadReq, pkt_flags = 0x2300, pkt_req = default_request 0, pkt_addr = 0x100,
     pkt_isSecure = False, pkt_size = 4, pkt_data = [0, 0, 0, 0], bytesValid = [], qosValue = 0,
     htmReturnReason = NO_FAIL, htmTransactionUid = 0, headerDelay = 0, snoopDelay = 0,
     payloadDelay = 0, senderState = []\<rparr>"


text \<open>Claim C24. A functional write updates a memory value exactly at the bytes where the two ranges
  overlap in the same secure space, with the packet's bytes, never reports completion, and leaves
  the packet as it is.\<close>

theorem functional_write_updates:
  fixes p :: packet and a :: addr and sz :: u32
  defines "A \<equiv> unat (pkt_addr p)" and "S \<equiv> unat (pkt_size p)" and "V \<equiv> unat a" and "N \<equiv> unat sz"
  assumes "has_payload p" "0 < S" "0 < N" "N < 2 ^ 31" "A + S < 2 ^ 64" "V + N < 2 ^ 64"
    and "cmd_isWrite (cmd p)" "\<not> cmd_isRead (cmd p)" "length d = N"
  shows "\<exists>d'. trySatisfyFunctional p a is_secure sz (Some d) = Inr (False, p, Some d') \<and> length d' = N \<and>
    (\<forall>j < N. d' ! j =
       (if is_secure = pkt_isSecure p \<and> A \<le> V + j \<and> V + j < A + S then pkt_data p ! (V + j - A)
        else d ! j))"
proof (cases "is_secure = pkt_isSecure p \<and> A < V + N \<and> V < A + S")
  case False
  with trySatisfy_disjoint [of p sz a is_secure d] assms show ?thesis by auto
next
  case True
  define ov where "ov = min (V + N) (A + S) - max V A"
  have np: "\<not> cmd_isPrint (cmd p)"
    using assms(11,12) by (cases "cmd p"; simp add: testCmdAttrib_def)
  have b: "A - V + ov \<le> length d" "V - A + ov \<le> length (pkt_data p)"
    using True assms(5,13) by (auto simp: ov_def S_def has_payload_def)
  from memcpy_Inr [OF b] obtain r where r: "memcpy d (A - V) (pkt_data p) (V - A) ov = Inr r"
    "length r = length d"
    "\<And>i. i < length d \<Longrightarrow> r ! i = (if A - V \<le> i \<and> i < A - V + ov then pkt_data p ! (V - A + (i - (A - V))) else d ! i)"
    by blast
  have "trySatisfyFunctional p a is_secure sz (Some d) = Inr (False, p, Some r)"
    using trySatisfy_overlap [of p sz a is_secure d] assms True np r(1) by (simp add: ov_def)
  moreover have "r ! j = (if is_secure = pkt_isSecure p \<and> A \<le> V + j \<and> V + j < A + S
      then pkt_data p ! (V + j - A) else d ! j)" if "j < N" for j
  proof -
    have "A - V \<le> j \<and> j < A - V + ov \<longleftrightarrow> A \<le> V + j \<and> V + j < A + S"
      using True that by (auto simp: ov_def)
    moreover have "V - A + (j - (A - V)) = V + j - A" if "A \<le> V + j" using that by auto
    ultimately show ?thesis using r(3) [of j] that True assms(13) by auto
  qed
  ultimately show ?thesis using r(2) assms(13) by auto
qed

theorem functional_write_updates_witness:
  "\<exists>d'. trySatisfyFunctional (demo_read\<lparr>cmd := WriteReq, pkt_data := [5, 6, 7, 8]\<rparr>) 0x102 False 4
       (Some [1, 2, 3, 4]) = Inr (False, demo_read\<lparr>cmd := WriteReq, pkt_data := [5, 6, 7, 8]\<rparr>, Some d') \<and>
     d' ! 0 = 7 \<and> d' ! 1 = 8 \<and> d' ! 3 = 4"
proof -
  let ?p = "demo_read\<lparr>cmd := WriteReq, pkt_data := [5, 6, 7, 8]\<rparr>"
  have "has_payload ?p" "\<not> cmd_isRead (cmd ?p)" "cmd_isWrite (cmd ?p)" "pkt_addr ?p = 0x100"
    "pkt_size ?p = 4" "pkt_data ?p = [5, 6, 7, 8]" "\<not> pkt_isSecure ?p"
    by (simp_all add: demo_read_def has_payload_def testCmdAttrib_def pkt_isSet_def
        flag_isSet_def packet_flag_defs)
  note f = this
  obtain d' where "trySatisfyFunctional ?p 0x102 False 4 (Some [1, 2, 3, 4]) = Inr (False, ?p, Some d')"
    and d: "\<forall>j < 4. d' ! j = (if 0x100 \<le> 0x102 + j \<and> 0x102 + j < 0x104
      then [5, 6, 7, 8] ! (0x102 + j - 0x100) else [1, 2, 3, 4] ! j)"
    using functional_write_updates [of ?p 4 "0x102" "[1, 2, 3, 4]" False, unfolded f(4-6)] f by auto
  then show ?thesis using d [rule_format, of 0] d [rule_format, of 1] d [rule_format, of 3] by auto
qed

section \<open>Writing a block\<close>

lemma write_bytes_correct:
  assumes "n \<le> length be" "n \<le> length base" "off + n \<le> length dst"
  shows "\<exists>r. fold_result (write_byte be base off) [0..<n] dst = Inr r \<and> length r = length dst \<and>
    (\<forall>j < length dst. r ! j =
       (if off \<le> j \<and> j < off + n \<and> be ! (j - off) then base ! (j - off) else dst ! j))"
  using assms
proof (induction n)
  case 0
  then show ?case by auto
next
  case (Suc n)
  then obtain r where r: "fold_result (write_byte be base off) [0..<n] dst = Inr r" "length r = length dst"
    "\<forall>j < length dst. r ! j = (if off \<le> j \<and> j < off + n \<and> be ! (j - off) then base ! (j - off) else dst ! j)"
    by auto
  have app: "fold_result f (xs @ [y]) s = bind_result (fold_result f xs s) (f y)"
    for f :: "nat \<Rightarrow> u8 list \<Rightarrow> u8 list result" and xs y s
    by (induction xs arbitrary: s) (auto simp: bind_result_def split: sum.splits)
  have "fold_result (write_byte be base off) [0..<Suc n] dst = write_byte be base off n r"
    using r(1) by (simp add: app)
  also have "\<dots> = Inr (if be ! n then r[off + n := base ! n] else r)"
    using Suc.prems r(2) by (simp add: write_byte_def)
  finally have e: "fold_result (write_byte be base off) [0..<Suc n] dst =
    Inr (if be ! n then r[off + n := base ! n] else r)" .
  show ?case unfolding e
  proof (intro exI conjI allI impI)
    fix j assume j: "j < length dst"
    show "(if be ! n then r[off + n := base ! n] else r) ! j =
      (if off \<le> j \<and> j < off + Suc n \<and> be ! (j - off) then base ! (j - off) else dst ! j)"
    proof (cases "j = off + n")
      case True
      then show ?thesis using r j by simp
    next
      case False
      then have "(if be ! n then r[off + n := base ! n] else r) ! j = r ! j" by simp
      also have "\<dots> = (if off \<le> j \<and> j < off + n \<and> be ! (j - off) then base ! (j - off) else dst ! j)"
        using r(3) j by blast
      finally show ?thesis using False by auto
    qed
  qed (use r(2) in simp_all)
qed

lemma writeData_correct:
  assumes "has_payload p" "off + unat (pkt_size p) \<le> length dst"
    and "isMaskedWrite p \<longrightarrow> length (req_byteEnable (pkt_req p)) = unat (pkt_size p)"
  shows "\<exists>r. writeData p dst off = Inr r \<and> length r = length dst \<and>
    (\<forall>j < length dst. r ! j =
       (if off \<le> j \<and> j < off + unat (pkt_size p) \<and>
           (isMaskedWrite p \<longrightarrow> req_byteEnable (pkt_req p) ! (j - off))
        then pkt_data p ! (j - off) else dst ! j))"
proof -
  have acc: "getConstPtr p = Inr (pkt_data p)" "getSize p = Inr (pkt_size p)"
    and len: "length (pkt_data p) = unat (pkt_size p)"
    using assms(1) by (simp_all add: getConstPtr_def getSize_def has_payload_def)
  show ?thesis
  proof (cases "isMaskedWrite p")
    case True
    then show ?thesis
      using write_bytes_correct [of "unat (pkt_size p)" "req_byteEnable (pkt_req p)" "pkt_data p" off dst]
        assms(2,3) len acc by (simp add: writeData_def)
  next
    case False
    have "0 + unat (pkt_size p) \<le> length (pkt_data p)" using len by simp
    from memcpy_Inr [OF assms(2) this] obtain r where
      "memcpy dst off (pkt_data p) 0 (unat (pkt_size p)) = Inr r" "length r = length dst"
      "\<And>i. i < length dst \<Longrightarrow> r ! i = (if off \<le> i \<and> i < off + unat (pkt_size p)
         then pkt_data p ! (0 + (i - off)) else dst ! i)" by blast
    with False acc show ?thesis by (simp add: writeData_def)
  qed
qed

text \<open>Claim C25. Writing a packet to a block changes exactly the bytes the packet covers and, for a
  masked write, enables; reading the same range back with \<^verbatim>\<open>setDataFromBlock\<close> then returns
  the packet's bytes where they were enabled and the block's old bytes elsewhere.\<close>

theorem write_block_read_back:
  fixes p q :: packet and blkSize :: u32
  defines "off \<equiv> unat (pkt_addr p AND ucast (blkSize - 1))" and "n \<equiv> unat (pkt_size p)"
  assumes "has_payload p" "off + n \<le> length blk"
    and "isMaskedWrite p \<longrightarrow> length (req_byteEnable (pkt_req p)) = n"
    and "has_payload q" "\<not> isMaskedWrite q" "pkt_addr q = pkt_addr p" "pkt_size q = pkt_size p"
  shows "\<exists>blk' q'. writeDataToBlock p blk blkSize = Inr blk' \<and> length blk' = length blk \<and>
    (\<forall>j < length blk. \<not> (off \<le> j \<and> j < off + n) \<longrightarrow> blk' ! j = blk ! j) \<and>
    setDataFromBlock blk' blkSize q = Inr q' \<and>
    (\<forall>i < n. pkt_data q' ! i =
       (if isMaskedWrite p \<longrightarrow> req_byteEnable (pkt_req p) ! i then pkt_data p ! i else blk ! (off + i)))"
proof -
  from writeData_correct [OF assms(3), of off blk] assms(4,5)
  obtain r where r: "writeData p blk off = Inr r" "length r = length blk"
    "\<forall>j < length blk. r ! j = (if off \<le> j \<and> j < off + n \<and>
        (isMaskedWrite p \<longrightarrow> req_byteEnable (pkt_req p) ! (j - off)) then pkt_data p ! (j - off) else blk ! j)"
    by (auto simp: n_def)
  have w: "writeDataToBlock p blk blkSize = Inr r"
    using assms(3) r(1) by (simp add: writeDataToBlock_def getOffset_def getAddr_def has_payload_def off_def)
  have len: "length (pkt_data q) = n" using assms(6,9) by (simp add: has_payload_def n_def)
  have "0 + n \<le> length (pkt_data q)" "off + n \<le> length r" using len r(2) assms(4) by simp_all
  from memcpy_Inr [OF this] obtain s where s: "memcpy (pkt_data q) 0 r off n = Inr s"
    "\<And>i. i < n \<Longrightarrow> s ! i = r ! (off + i)" using len by auto
  have q: "setDataFromBlock r blkSize q = Inr (q\<lparr>pkt_data := s\<rparr>)"
    using assms(6-9) s(1)
    by (simp add: setDataFromBlock_def setData_def getOffset_def getAddr_def getPtr_def getSize_def
        has_payload_def off_def n_def)
  have outside: "\<forall>j < length blk. \<not> (off \<le> j \<and> j < off + n) \<longrightarrow> r ! j = blk ! j"
    using r(3) by auto
  have inside: "s ! i = (if isMaskedWrite p \<longrightarrow> req_byteEnable (pkt_req p) ! i then pkt_data p ! i
      else blk ! (off + i))" if "i < n" for i
    using s(2) [OF that] r(3) [rule_format, of "off + i"] that assms(4) by auto
  show ?thesis
  proof (intro exI conjI)
    show "writeDataToBlock p blk blkSize = Inr r" by (rule w)
    show "setDataFromBlock r blkSize q = Inr (q\<lparr>pkt_data := s\<rparr>)" by (rule q)
  qed (use r(2) outside inside in simp_all)
qed

theorem write_block_read_back_witness:
  "\<exists>blk' q'. writeDataToBlock (demo_read\<lparr>cmd := WriteReq, pkt_data := [5, 6, 7, 8]\<rparr>) (replicate 16 0) 16 = Inr blk' \<and>
     setDataFromBlock blk' 16 demo_read = Inr q' \<and> pkt_data q' ! 3 = 8"
proof -
  let ?p = "demo_read\<lparr>cmd := WriteReq, pkt_data := [5, 6, 7, 8]\<rparr>"
  have f: "has_payload ?p" "has_payload demo_read" "\<not> isMaskedWrite demo_read" "\<not> isMaskedWrite ?p"
    "pkt_addr ?p = 0x100" "pkt_size ?p = 4" "pkt_addr demo_read = 0x100" "pkt_size demo_read = 4"
    "pkt_data ?p = [5, 6, 7, 8]"
    by (simp_all add: demo_read_def has_payload_def testCmdAttrib_def pkt_isSet_def isMaskedWrite_def
        isMasked_def default_request_def flag_isSet_def packet_flag_defs)
  from write_block_read_back [of ?p 16 "replicate 16 0" demo_read, unfolded f(5-9)] f(1-4)
  obtain blk' q' where "writeDataToBlock ?p (replicate 16 0) 16 = Inr blk'"
    "setDataFromBlock blk' 16 demo_read = Inr q'" "\<forall>i < 4. pkt_data q' ! i = [5, 6, 7, 8] ! i"
    by auto
  then show ?thesis by (intro exI [of _ blk'] exI [of _ q']) simp
qed

section \<open>The fill bits along the life of a packet\<close>

lemma flag_isSet_bit: "m = 2 ^ k \<Longrightarrow> flag_isSet (f :: 'a::len word) m \<longleftrightarrow> bit f k"
  by (auto simp: flag_isSet_def word_zero_iff_bits bit_and_iff bit_exp_iff dest: bit_imp_le_length)

lemma fill_bits:
  "isMayNotFill p \<longleftrightarrow> bit (pkt_flags p) 17" "isNoFillLower p \<longleftrightarrow> bit (pkt_flags p) 18"
  by (simp_all add: isMayNotFill_def isNoFillLower_def pkt_isSet_def packet_flag_defs flag_isSet_bit)

lemma fill_bits_set [simp]:
  "isMayNotFill (pkt_setFlag m p) \<longleftrightarrow> isMayNotFill p \<or> bit m 17"
  "isNoFillLower (pkt_setFlag m p) \<longleftrightarrow> isNoFillLower p \<or> bit m 18"
  "isMayNotFill (pkt_clearFlag m p) \<longleftrightarrow> isMayNotFill p \<and> \<not> bit m 17"
  "isNoFillLower (pkt_clearFlag m p) \<longleftrightarrow> isNoFillLower p \<and> \<not> bit m 18"
  by (simp_all add: fill_bits pkt_setFlag_def pkt_clearFlag_def flag_set_def flag_clear_def bit_simps)

lemma fill_bits_update [simp]:
  "isMayNotFill (p\<lparr>pkt_size := x\<rparr>) \<longleftrightarrow> isMayNotFill p" "isNoFillLower (p\<lparr>pkt_size := x\<rparr>) \<longleftrightarrow> isNoFillLower p"
  "isMayNotFill (p\<lparr>pkt_data := d\<rparr>) \<longleftrightarrow> isMayNotFill p" "isNoFillLower (p\<lparr>pkt_data := d\<rparr>) \<longleftrightarrow> isNoFillLower p"
  "isMayNotFill (p\<lparr>cmd := c\<rparr>) \<longleftrightarrow> isMayNotFill p" "isNoFillLower (p\<lparr>cmd := c\<rparr>) \<longleftrightarrow> isNoFillLower p"
  by (simp_all add: fill_bits)

lemma fill_bits_flags [simp]:
  "isMayNotFill (setMayNotFill p)" "\<not> isMayNotFill (clearMayNotFill p)"
  "isNoFillLower (setMayNotFill p) \<longleftrightarrow> isNoFillLower p"
  "isNoFillLower (clearMayNotFill p) \<longleftrightarrow> isNoFillLower p"
  by (simp_all add: setMayNotFill_def clearMayNotFill_def MAY_NOT_FILL_def)

lemma fill_bits_htm [simp]:
  "isMayNotFill (setHtmTransactional u p) \<longleftrightarrow> isMayNotFill p"
  "isNoFillLower (setHtmTransactional u p) \<longleftrightarrow> isNoFillLower p"
  "isMayNotFill (setHtmTransactionFailedInCache c p) \<longleftrightarrow> isMayNotFill p"
  "isNoFillLower (setHtmTransactionFailedInCache c p) \<longleftrightarrow> isNoFillLower p"
  by (simp_all add: fill_bits setHtmTransactional_def setHtmTransactionFailedInCache_def pkt_setFlag_def
      flag_set_def packet_flag_defs bit_simps)

lemma fill_bits_allocate:
  "allocate p fresh = Inr q \<Longrightarrow> (isMayNotFill q \<longleftrightarrow> isMayNotFill p) \<and> (isNoFillLower q \<longleftrightarrow> isNoFillLower p)"
  by (auto simp: allocate_def result_simps fill_bits pkt_setFlag_def flag_set_def packet_flag_defs bit_simps
      split: if_splits)

lemma copy_flags_low:
  "\<not> isMayNotFill (p\<lparr>pkt_flags := flag_set (if clear_flags then 0 else flag_set 0 (f AND COPY_FLAGS))
      (f AND (VALID_ADDR OR VALID_SIZE)), pkt_data := d, htmReturnReason := h, htmTransactionUid := u,
      snoopDelay := s\<rparr>)"
  "\<not> isNoFillLower (p\<lparr>pkt_flags := flag_set (if clear_flags then 0 else flag_set 0 (f AND COPY_FLAGS))
      (f AND (VALID_ADDR OR VALID_SIZE)), pkt_data := d, htmReturnReason := h, htmTransactionUid := u,
      snoopDelay := s\<rparr>)"
  by (simp_all add: fill_bits flag_set_def packet_flag_defs bit_simps)

lemma copy_packet_fill_bits:
  assumes "copy_packet p clear_flags alloc_data fresh = Inr q"
  shows "(isMayNotFill q \<longleftrightarrow> isMayNotFill p) \<and> \<not> isNoFillLower q"
proof -
  define q0 where "q0 = p\<lparr>pkt_flags := flag_set (if clear_flags then 0 else flag_set 0 (pkt_flags p AND COPY_FLAGS))
      (pkt_flags p AND (VALID_ADDR OR VALID_SIZE)), pkt_data := [], htmReturnReason := NO_FAIL,
      htmTransactionUid := 0, snoopDelay := 0\<rparr>"
  define q1 where "q1 = (if isMayNotFill p then setMayNotFill q0 else clearMayNotFill q0)"
  define q2 where "q2 = (if isHtmTransactional p then setHtmTransactional (htmTransactionUid p) q1 else q1)"
  define q3 where "q3 = (if htmTransactionFailedInCache p
    then setHtmTransactionFailedInCache (htmReturnReason p) q2 else q2)"
  have "\<not> isNoFillLower q0" unfolding q0_def by (rule copy_flags_low(2))
  then have b: "isMayNotFill q3 \<longleftrightarrow> isMayNotFill p" "\<not> isNoFillLower q3"
    by (simp_all add: q1_def q2_def q3_def)
  have e: "copy_packet p clear_flags alloc_data fresh =
    (if alloc_data then if pkt_isSet p STATIC_DATA
       then Inr (pkt_setFlag STATIC_DATA (q3\<lparr>pkt_data := pkt_data p\<rparr>)) else allocate q3 fresh
     else Inr q3)"
    by (simp only: copy_packet_def Let_def q0_def q1_def q2_def q3_def if_not_P if_P simp_thms split: if_split)
      simp
  have st: "isMayNotFill (pkt_setFlag STATIC_DATA (q3\<lparr>pkt_data := d\<rparr>)) \<longleftrightarrow> isMayNotFill q3"
    "isNoFillLower (pkt_setFlag STATIC_DATA (q3\<lparr>pkt_data := d\<rparr>)) \<longleftrightarrow> isNoFillLower q3" for d
    by (simp_all add: STATIC_DATA_def)
  show ?thesis
    using assms b fill_bits_allocate [of q3 fresh q] st unfolding e by (auto split: if_splits)
qed

lemma new_packet_fields:
  assumes "new_packet r c = Inr p"
  shows "cmd p = c" "pkt_req p = r" "isMayNotFill p \<longleftrightarrow> req_isNoFill r" "\<not> isNoFillLower p"
    "hasPaddr r \<Longrightarrow> pkt_addr p = req_paddr r \<and> pkt_isSecure p = req_isSecure r"
  using assms by (auto simp: new_packet_def Let_def result_simps VALID_ADDR_def VALID_SIZE_def setMayNotFill_def
      pkt_setFlag_def split: if_splits) (auto simp: fill_bits flag_set_def MAY_NOT_FILL_def bit_simps)

lemma allocate_fields:
  assumes "allocate p fresh = Inr q"
  shows "cmd q = cmd p" "pkt_req q = pkt_req p" "pkt_addr q = pkt_addr p" "pkt_isSecure q = pkt_isSecure p"
    "pkt_size q = pkt_size p"
  using assms by (auto simp: allocate_def result_simps pkt_setFlag_def split: if_splits)

text \<open>Claim C26. The bit that forbids a fill follows a packet: a new packet has it exactly when its
  request is marked \<open>NO_FILL\<close>, a copy keeps it even when the other flags are cleared, and a
  response keeps it. The bit that reports a missing fill below is kept by a response but lost
  in every copy.\<close>

theorem fill_bits_propagate:
  "(new_packet r c = Inr p1 \<longrightarrow> (isMayNotFill p1 \<longleftrightarrow> req_isNoFill r) \<and> \<not> isNoFillLower p1) \<and>
   (isMayNotFill (new_packet_blk r c sz) \<longleftrightarrow> req_isNoFill r) \<and>
   (copy_packet p clear_flags alloc_data fresh = Inr p2 \<longrightarrow>
      (isMayNotFill p2 \<longleftrightarrow> isMayNotFill p) \<and> \<not> isNoFillLower p2) \<and>
   (makeResponse p = Inr p3 \<longrightarrow>
      (isMayNotFill p3 \<longleftrightarrow> isMayNotFill p) \<and> (isNoFillLower p3 \<longleftrightarrow> isNoFillLower p))"
proof (intro conjI)
  show "new_packet r c = Inr p1 \<longrightarrow> (isMayNotFill p1 \<longleftrightarrow> req_isNoFill r) \<and> \<not> isNoFillLower p1"
    using new_packet_fields(3,4) by blast
  show "isMayNotFill (new_packet_blk r c sz) \<longleftrightarrow> req_isNoFill r"
    by (simp add: new_packet_blk_def Let_def VALID_ADDR_def VALID_SIZE_def) (simp add: fill_bits)
  show "copy_packet p clear_flags alloc_data fresh = Inr p2 \<longrightarrow>
      (isMayNotFill p2 \<longleftrightarrow> isMayNotFill p) \<and> \<not> isNoFillLower p2"
    using copy_packet_fill_bits by blast
  show "makeResponse p = Inr p3 \<longrightarrow>
      (isMayNotFill p3 \<longleftrightarrow> isMayNotFill p) \<and> (isNoFillLower p3 \<longleftrightarrow> isNoFillLower p)"
    by (auto simp: makeResponse_def result_simps EXPRESS_SNOOP_def)
qed

theorem fill_bits_propagate_witness:
  "\<exists>q. copy_packet (setNoFillLower (setMayNotFill demo_read)) True False [] = Inr q \<and>
     isMayNotFill q \<and> \<not> isNoFillLower q"
proof -
  let ?p = "setNoFillLower (setMayNotFill demo_read)"
  obtain q where q: "copy_packet ?p True False [] = Inr q" by (simp add: copy_packet_def Let_def)
  have "isMayNotFill ?p" by (simp add: setNoFillLower_def)
  with fill_bits_propagate [of "default_request 0" ReadReq demo_read 64 ?p True False "[]" q demo_read] q
  show ?thesis by blast
qed

end
