(* ===== verification/Cache_Blk.thy ===== *)
theory Cache_Blk
  imports Packet_Data
begin

text \<open>
  Cache blocks (\<^verbatim>\<open>mem/cache/cache_blk.hh\<close>, \<^verbatim>\<open>mem/cache/cache_blk.cc\<close>) with the tagged entry they
  extend (\<^verbatim>\<open>mem/cache/tags/tagged_entry.hh\<close>, \<^verbatim>\<open>replaceable_entry.hh\<close>). Beside gem5's fields a block
  holds the index bits of the randomised mapping (the LNreg) and its security domain. The load
  locks of a block implement load-linked and store-conditional.
\<close>

section \<open>State\<close>

record lock =
  lock_contextId :: int
  lowAddr :: addr
  highAddr :: addr

record cache_blk =
  blk_set :: u32
  blk_way :: u32
  blk_valid :: bool
  blk_secure :: bool
  blk_tag :: addr
  blk_index_bits :: addr
  blk_domainID :: domain_id
  blk_data :: "u8 list"
  whenReady :: tick
  lockList :: "lock list"
  coherence :: u32
  blk_taskId :: u32
  blk_srcRequestorId :: u32
  blk_refCount :: u32
  blk_tickInserted :: tick
  blk_prefetched :: bool

definition WritableBit :: u32 where "WritableBit = 0x02"
definition ReadableBit :: u32 where "ReadableBit = 0x04"
definition DirtyBit :: u32 where "DirtyBit = 0x08"
definition AllBits :: u32 where "AllBits = 0x0E"

lemmas coherence_defs = WritableBit_def ReadableBit_def DirtyBit_def AllBits_def

section \<open>Tagged entries\<close>

definition setPosition :: "u32 \<Rightarrow> u32 \<Rightarrow> cache_blk \<Rightarrow> cache_blk" where
  "setPosition s w b = b\<lparr>blk_set := s, blk_way := w\<rparr>"

definition matchTag :: "cache_blk \<Rightarrow> addr \<Rightarrow> bool \<Rightarrow> bool" where
  "matchTag b tag is_secure \<longleftrightarrow> blk_valid b \<and> blk_tag b = tag \<and> blk_secure b = is_secure"

definition matchIndex :: "cache_blk \<Rightarrow> addr \<Rightarrow> bool \<Rightarrow> bool" where
  "matchIndex b index_bits is_secure \<longleftrightarrow>
     blk_valid b \<and> blk_index_bits b = index_bits \<and> blk_secure b = is_secure"

definition matchIndex_domain :: "cache_blk \<Rightarrow> addr \<Rightarrow> bool \<Rightarrow> domain_id \<Rightarrow> bool" where
  "matchIndex_domain b index_bits is_secure d \<longleftrightarrow>
     blk_valid b \<and> blk_index_bits b = index_bits \<and> blk_secure b = is_secure \<and> blk_domainID b = d"

definition setValid :: "cache_blk \<Rightarrow> cache_blk result" where
  "setValid b = require (\<not> blk_valid b) Assert (Inr (b\<lparr>blk_valid := True\<rparr>))"

definition entry_insert_index :: "addr \<Rightarrow> addr \<Rightarrow> bool \<Rightarrow> cache_blk \<Rightarrow> cache_blk result" where
  "entry_insert_index tag index_bits is_secure b =
     bind_result (setValid b) (\<lambda>b1.
     let b2 = b1\<lparr>blk_tag := tag, blk_index_bits := index_bits\<rparr>
     in Inr (if is_secure then b2\<lparr>blk_secure := True\<rparr> else b2))"

definition entry_insert :: "addr \<Rightarrow> bool \<Rightarrow> cache_blk \<Rightarrow> cache_blk result" where
  "entry_insert tag is_secure b = entry_insert_index tag 0 is_secure b"

definition entry_invalidate :: "cache_blk \<Rightarrow> cache_blk" where
  "entry_invalidate b = b\<lparr>blk_valid := False, blk_tag := MaxAddr, blk_secure := False\<rparr>"

section \<open>Blocks\<close>

definition setCoherenceBits :: "u32 \<Rightarrow> cache_blk \<Rightarrow> cache_blk result" where
  "setCoherenceBits bits b = require (blk_valid b) Assert (Inr (b\<lparr>coherence := coherence b OR bits\<rparr>))"

definition clearCoherenceBits :: "u32 \<Rightarrow> cache_blk \<Rightarrow> cache_blk" where
  "clearCoherenceBits bits b = b\<lparr>coherence := coherence b AND NOT bits\<rparr>"

definition blk_isSet :: "cache_blk \<Rightarrow> u32 \<Rightarrow> bool" where
  "blk_isSet b bits \<longleftrightarrow> blk_valid b \<and> coherence b AND bits \<noteq> 0"

definition getWhenReady :: "cache_blk \<Rightarrow> tick result" where
  "getWhenReady b = require (whenReady b \<noteq> MaxTick) Assert (Inr (whenReady b))"

definition setWhenReady :: "tick \<Rightarrow> cache_blk \<Rightarrow> cache_blk result" where
  "setWhenReady t b = require (blk_tickInserted b \<le> t) Assert (Inr (b\<lparr>whenReady := t\<rparr>))"

definition increaseRefCount :: "cache_blk \<Rightarrow> cache_blk" where
  "increaseRefCount b = b\<lparr>blk_refCount := blk_refCount b + 1\<rparr>"

definition getAge :: "tick \<Rightarrow> cache_blk \<Rightarrow> tick result" where
  "getAge now b = require (blk_tickInserted b \<le> now) Assert (Inr (now - blk_tickInserted b))"

definition blk_invalidate :: "cache_blk \<Rightarrow> cache_blk" where
  "blk_invalidate b =
     (clearCoherenceBits AllBits ((entry_invalidate b)\<lparr>blk_prefetched := False\<rparr>))
       \<lparr>blk_taskId := TaskId_Unknown, whenReady := MaxTick, blk_refCount := 0,
        blk_srcRequestorId := ucast invldRequestorId, blk_domainID := 0, lockList := []\<rparr>"

definition blk_insert ::
  "tick \<Rightarrow> addr \<Rightarrow> addr \<Rightarrow> bool \<Rightarrow> u32 \<Rightarrow> u32 \<Rightarrow> cache_blk \<Rightarrow> cache_blk result" where
  "blk_insert now tag index_bits is_secure rid tid b =
     require (\<not> blk_valid b) Assert
     (bind_result (entry_insert_index tag index_bits is_secure b) (\<lambda>b1.
      Inr (increaseRefCount (b1\<lparr>blk_srcRequestorId := rid, blk_taskId := tid, blk_tickInserted := now\<rparr>))))"

definition blk_insert_tag ::
  "tick \<Rightarrow> addr \<Rightarrow> bool \<Rightarrow> u32 \<Rightarrow> u32 \<Rightarrow> cache_blk \<Rightarrow> cache_blk result" where
  "blk_insert_tag now tag is_secure rid tid b = blk_insert now tag 0 is_secure rid tid b"

text \<open>Moving a block; the pair is the destination and the (then invalid) source.\<close>

definition blk_move :: "tick \<Rightarrow> cache_blk \<Rightarrow> cache_blk \<Rightarrow> (cache_blk \<times> cache_blk) result" where
  "blk_move now dst src =
     require (\<not> blk_valid dst) Assert
     (require (blk_valid src) Assert
     (bind_result (entry_insert_index (blk_tag src) (blk_index_bits src) (blk_secure src) dst) (\<lambda>d1.
      bind_result (setCoherenceBits (coherence src)
        (if blk_prefetched src then d1\<lparr>blk_prefetched := True\<rparr> else d1)) (\<lambda>d2.
      bind_result (setWhenReady now (d2\<lparr>blk_taskId := blk_taskId src\<rparr>)) (\<lambda>d3.
      Inr (d3\<lparr>blk_refCount := blk_refCount src, blk_srcRequestorId := blk_srcRequestorId src,
              lockList := lockList src, blk_domainID := blk_domainID src\<rparr>,
           blk_invalidate (src\<lparr>lockList := lockList d3\<rparr>)))))))"

datatype moesi = Modified | Owned | Exclusive | Shared | InvalidState | OtherState

definition blk_state :: "cache_blk \<Rightarrow> moesi" where
  "blk_state b =
     (case (blk_isSet b WritableBit, blk_isSet b DirtyBit, blk_valid b) of
        (True, True, True) \<Rightarrow> Modified
      | (False, True, True) \<Rightarrow> Owned
      | (True, False, True) \<Rightarrow> Exclusive
      | (False, False, True) \<Rightarrow> Shared
      | (False, False, False) \<Rightarrow> InvalidState
      | _ \<Rightarrow> OtherState)"

section \<open>Load locks\<close>

definition new_lock :: "request \<Rightarrow> lock result" where
  "new_lock r = bind_result (contextId r) (\<lambda>c. bind_result (getPaddr r) (\<lambda>a.
     bind_result (req_getSize r) (\<lambda>sz.
     Inr \<lparr>lock_contextId = c, lowAddr = a, highAddr = a + ucast sz - 1\<rparr>)))"

definition lock_matches :: "lock \<Rightarrow> request \<Rightarrow> bool result" where
  "lock_matches l r = bind_result (getPaddr r) (\<lambda>req_low. bind_result (req_getSize r) (\<lambda>sz.
     bind_result (contextId r) (\<lambda>c.
     Inr (lock_contextId l = c \<and> lowAddr l \<le> req_low \<and> req_low + ucast sz - 1 \<le> highAddr l))))"

definition lock_intersects :: "lock \<Rightarrow> request \<Rightarrow> bool result" where
  "lock_intersects l r = bind_result (getPaddr r) (\<lambda>req_low. bind_result (req_getSize r) (\<lambda>sz.
     Inr (req_low \<le> highAddr l \<and> lowAddr l \<le> req_low + ucast sz - 1)))"

text \<open>The loop that erases the locks a test selects.\<close>

fun erase_locks :: "(lock \<Rightarrow> bool result) \<Rightarrow> lock list \<Rightarrow> lock list result" where
  "erase_locks f [] = Inr []"
| "erase_locks f (l # ls) =
     bind_result (f l) (\<lambda>hit. bind_result (erase_locks f ls) (\<lambda>rest.
     Inr (if hit then rest else l # rest)))"

definition trackLoadLocked :: "packet \<Rightarrow> cache_blk \<Rightarrow> cache_blk result" where
  "trackLoadLocked pkt b = require (cmd_isLLSC (cmd pkt)) Assert
     (bind_result (erase_locks (\<lambda>l. lock_intersects l (pkt_req pkt)) (lockList b)) (\<lambda>ls.
      bind_result (new_lock (pkt_req pkt)) (\<lambda>l. Inr (b\<lparr>lockList := l # ls\<rparr>))))"

definition clearLoadLocks :: "request \<Rightarrow> cache_blk \<Rightarrow> cache_blk result" where
  "clearLoadLocks r b =
     bind_result (erase_locks
       (\<lambda>l. bind_result (lock_intersects l r) (\<lambda>hit.
            if hit then bind_result (contextId r) (\<lambda>c. Inr (lock_contextId l \<noteq> c)) else Inr False))
       (lockList b)) (\<lambda>ls. Inr (b\<lparr>lockList := ls\<rparr>))"

text \<open>The search of a store-conditional erases the first lock that matches.\<close>

fun take_lock :: "request \<Rightarrow> lock list \<Rightarrow> (bool \<times> lock list) result" where
  "take_lock r [] = Inr (False, [])"
| "take_lock r (l # ls) =
     bind_result (lock_matches l r) (\<lambda>hit.
     if hit then Inr (True, ls)
     else bind_result (take_lock r ls) (\<lambda>(success, rest). Inr (success, l # rest)))"

text \<open>The result is the answer, the block, and the request with its extra data.\<close>

definition checkWrite :: "packet \<Rightarrow> cache_blk \<Rightarrow> (bool \<times> cache_blk \<times> request) result" where
  "checkWrite pkt b = require (cmd_isWrite (cmd pkt)) Assert
     (if \<not> cmd_isLLSC (cmd pkt) \<and> lockList b = [] then Inr (True, b, pkt_req pkt)
      else if cmd_isLLSC (cmd pkt)
      then bind_result (take_lock (pkt_req pkt) (lockList b)) (\<lambda>(success, ls).
           let r = setExtraData (if success then 1 else 0) (pkt_req pkt)
           in bind_result (clearLoadLocks r (b\<lparr>lockList := ls\<rparr>)) (\<lambda>b'. Inr (success, b', r)))
      else bind_result (clearLoadLocks (pkt_req pkt) b) (\<lambda>b'. Inr (True, b', pkt_req pkt)))"

section \<open>Temporary blocks\<close>

record temp_cache_blk =
  temp_blk :: cache_blk
  temp_addr :: addr

definition temp_invalidate :: "temp_cache_blk \<Rightarrow> temp_cache_blk" where
  "temp_invalidate t = \<lparr>temp_blk = blk_invalidate (temp_blk t), temp_addr = MaxAddr\<rparr>"

definition temp_insert :: "addr \<Rightarrow> addr \<Rightarrow> addr \<Rightarrow> bool \<Rightarrow> temp_cache_blk \<Rightarrow> temp_cache_blk result" where
  "temp_insert a tag index_bits is_secure t =
     bind_result (entry_insert_index tag index_bits is_secure (temp_blk t)) (\<lambda>b.
     Inr \<lparr>temp_blk = b, temp_addr = a\<rparr>)"

text \<open>A new block; position, coherence bits and prefetch mark are not initialised before the
  constructor calls \<open>invalidate\<close>.\<close>

definition new_cache_blk :: "cache_blk \<Rightarrow> cache_blk" where
  "new_cache_blk indeterminate = blk_invalidate
     (indeterminate\<lparr>blk_valid := False, blk_secure := False, blk_tag := MaxAddr, blk_index_bits := 0,
        blk_domainID := 0, blk_data := [], blk_tickInserted := 0, lockList := []\<rparr>)"

section \<open>Load-linked and store-conditional\<close>

datatype lock_event = LoadLocked packet | StoreTo packet

fun lock_run :: "lock_event list \<Rightarrow> cache_blk \<Rightarrow> cache_blk result" where
  "lock_run [] b = Inr b"
| "lock_run (LoadLocked p # es) b = bind_result (trackLoadLocked p b) (lock_run es)"
| "lock_run (StoreTo p # es) b = bind_result (checkWrite p b) (\<lambda>(_, b', _). lock_run es b')"

text \<open>The events that take a lock away: a load-linked on an overlapping range, and a store to one
  from another context.\<close>

fun breaks_lock :: "lock \<Rightarrow> lock_event \<Rightarrow> bool" where
  "breaks_lock l (LoadLocked q) \<longleftrightarrow> lock_intersects l (pkt_req q) \<noteq> Inr False"
| "breaks_lock l (StoreTo q) \<longleftrightarrow> lock_intersects l (pkt_req q) \<noteq> Inr False \<and>
     contextId (pkt_req q) \<noteq> Inr (lock_contextId l)"

fun conditional :: "lock_event \<Rightarrow> bool" where
  "conditional (LoadLocked q) = False"
| "conditional (StoreTo q) = cmd_isLLSC (cmd q)"

lemma erase_locks_Inr: "erase_locks f ls = Inr rs \<Longrightarrow> rs = filter (\<lambda>l. f l = Inr False) ls"
  by (induction ls arbitrary: rs) (auto simp: result_simps)

lemma erase_locks_ok: "\<lbrakk>erase_locks f ls = Inr rs; l \<in> set ls\<rbrakk> \<Longrightarrow> \<exists>hit. f l = Inr hit"
  by (induction ls arbitrary: rs) (auto simp: result_simps)

lemma take_lock_subset: "take_lock r ls = Inr (s, rest) \<Longrightarrow> set rest \<subseteq> set ls"
  by (induction ls arbitrary: s rest) (force simp: result_simps split: if_splits)+

lemma take_lock_success:
  "take_lock r ls = Inr (True, rest) \<Longrightarrow> \<exists>l \<in> set ls. lock_matches l r = Inr True"
  by (induction ls arbitrary: rest) (force simp: result_simps split: if_splits)+

lemma take_lock_found:
  "\<lbrakk>take_lock r ls = Inr (s, rest); l \<in> set ls; lock_matches l r = Inr True\<rbrakk> \<Longrightarrow> s"
  by (induction ls arbitrary: s rest) (force simp: result_simps split: if_splits)+

lemma setExtraData_same:
  "getPaddr (setExtraData x r) = getPaddr r" "req_getSize (setExtraData x r) = req_getSize r"
  "contextId (setExtraData x r) = contextId r"
  by (simp_all add: getPaddr_def req_getSize_def contextId_def setExtraData_def hasPaddr_def hasSize_def
      hasContextId_def flag_isSet_set) (simp_all add: flag_isSet_def private_flag_defs)

lemma setExtraData_intersects: "lock_intersects l (setExtraData x r) = lock_intersects l r"
  by (simp add: lock_intersects_def setExtraData_same)

lemma clearLoadLocks_locks:
  assumes "clearLoadLocks r b = Inr b'"
  shows "lockList b' = filter (\<lambda>l. lock_intersects l r = Inr False \<or>
    lock_intersects l r = Inr True \<and> contextId r = Inr (lock_contextId l)) (lockList b)"
proof -
  let ?f = "\<lambda>l. bind_result (lock_intersects l r) (\<lambda>hit.
    if hit then bind_result (contextId r) (\<lambda>c. Inr (lock_contextId l \<noteq> c)) else Inr False)"
  have "?f l = Inr False \<longleftrightarrow> lock_intersects l r = Inr False \<or>
    lock_intersects l r = Inr True \<and> contextId r = Inr (lock_contextId l)" for l
    by (auto simp: result_simps split: if_splits)
  moreover have "lockList b' = filter (\<lambda>l. ?f l = Inr False) (lockList b)"
    using assms erase_locks_Inr [of ?f "lockList b"] by (auto simp: clearLoadLocks_def result_simps)
  ultimately show ?thesis by simp
qed

lemma clearLoadLocks_ok:
  assumes "clearLoadLocks r b = Inr b'" "l \<in> set (lockList b)"
  shows "lock_intersects l r = Inr True \<or> lock_intersects l r = Inr False"
proof -
  obtain ls where "erase_locks (\<lambda>l. bind_result (lock_intersects l r) (\<lambda>hit.
    if hit then bind_result (contextId r) (\<lambda>c. Inr (lock_contextId l \<noteq> c)) else Inr False)) (lockList b) = Inr ls"
    using assms(1) by (auto simp: clearLoadLocks_def result_simps)
  from erase_locks_ok [OF this assms(2)] show ?thesis by (auto simp: result_simps)
qed

lemma clearLoadLocks_kept:
  assumes "clearLoadLocks r b = Inr b'" "l \<in> set (lockList b')" "r = pkt_req q \<or> r = setExtraData x (pkt_req q)"
  shows "l \<in> set (lockList b)" "\<not> breaks_lock l (StoreTo q)"
  using assms by (auto simp: clearLoadLocks_locks [OF assms(1)] setExtraData_same setExtraData_intersects)

lemma checkWrite_locks:
  assumes "checkWrite q b = Inr (s, b', r)" "l \<in> set (lockList b')"
  shows "l \<in> set (lockList b) \<and> \<not> breaks_lock l (StoreTo q)"
proof (cases "cmd_isLLSC (cmd q)")
  case True
  with assms(1) obtain ls where ls: "take_lock (pkt_req q) (lockList b) = Inr (s, ls)"
    and c: "clearLoadLocks (setExtraData (if s then 1 else 0) (pkt_req q)) (b\<lparr>lockList := ls\<rparr>) = Inr b'"
    by (auto simp: checkWrite_def Let_def result_simps)
  from clearLoadLocks_kept [OF c assms(2) disjI2 [OF refl]] take_lock_subset [OF ls] show ?thesis by auto
next
  case False
  with assms clearLoadLocks_kept [of "pkt_req q" b b' l q] show ?thesis
    by (auto simp: checkWrite_def result_simps split: if_splits)
qed

lemma trackLoadLocked_locks:
  assumes "trackLoadLocked q b = Inr b'"
  obtains l0 where "new_lock (pkt_req q) = Inr l0"
    "lockList b' = l0 # filter (\<lambda>l. \<not> breaks_lock l (LoadLocked q)) (lockList b)"
  using assms by (auto simp: trackLoadLocked_def result_simps dest!: erase_locks_Inr)

lemma lock_run_snoc: "lock_run (es @ [e]) b = bind_result (lock_run es b) (lock_run [e])"
  by (induction es b rule: lock_run.induct)
    (auto simp: bind_result_def split: sum.splits)

lemma lock_run_append: "lock_run (es @ fs) b = bind_result (lock_run es b) (lock_run fs)"
  by (induction es b rule: lock_run.induct)
    (auto simp: bind_result_def split: sum.splits)

definition lock_origin :: "lock_event list \<Rightarrow> lock \<Rightarrow> bool" where
  "lock_origin es l \<longleftrightarrow> (\<exists>es1 ll es2. es = es1 @ LoadLocked ll # es2 \<and>
     new_lock (pkt_req ll) = Inr l \<and> (\<forall>ev \<in> set es2. \<not> breaks_lock l ev))"

lemma lock_origin_snoc: "\<lbrakk>lock_origin es l; \<not> breaks_lock l e\<rbrakk> \<Longrightarrow> lock_origin (es @ [e]) l"
  unfolding lock_origin_def by fastforce

lemma lock_origin_new: "new_lock (pkt_req q) = Inr l \<Longrightarrow> lock_origin (es @ [LoadLocked q]) l"
  unfolding lock_origin_def by force

lemma lock_run_origin:
  assumes "lock_run es b0 = Inr b" "lockList b0 = []" "l \<in> set (lockList b)"
  shows "lock_origin es l"
  using assms(1,3)
proof (induction es arbitrary: b l rule: rev_induct)
  case Nil
  then show ?case using assms(2) by simp
next
  case (snoc e es)
  then obtain b1 where b1: "lock_run es b0 = Inr b1" and step: "lock_run [e] b1 = Inr b"
    by (auto simp: lock_run_snoc result_simps)
  show ?case
  proof (cases e)
    case (LoadLocked q)
    with step have "trackLoadLocked q b1 = Inr b" by (auto simp: result_simps)
    then obtain l0 where l0: "new_lock (pkt_req q) = Inr l0"
      "lockList b = l0 # filter (\<lambda>l. \<not> breaks_lock l (LoadLocked q)) (lockList b1)"
      by (rule trackLoadLocked_locks)
    with snoc.prems(2) consider "l = l0" | "l \<in> set (lockList b1)" "\<not> breaks_lock l (LoadLocked q)"
      by auto
    then show ?thesis
      using LoadLocked l0(1) snoc.IH [OF b1] by cases (auto intro: lock_origin_new lock_origin_snoc)
  next
    case (StoreTo q)
    with step obtain s r where "checkWrite q b1 = Inr (s, b, r)" by (auto simp: result_simps)
    from checkWrite_locks [OF this snoc.prems(2)] snoc.IH [OF b1] show ?thesis
      using StoreTo by (auto intro: lock_origin_snoc)
  qed
qed

text \<open>Claim C20. A store-conditional succeeds only if it is linked: some earlier load-linked of the
  same context covers its range, and since then no other context stored to that lock's range
  and no load-linked replaced it.\<close>

theorem store_conditional_linked:
  assumes "lock_run es b0 = Inr b" "lockList b0 = []" "cmd_isLLSC (cmd sc)"
    and "checkWrite sc b = Inr (True, b', r)"
  shows "\<exists>es1 ll es2 l. es = es1 @ LoadLocked ll # es2 \<and> new_lock (pkt_req ll) = Inr l \<and>
    lock_matches l (pkt_req sc) = Inr True \<and> (\<forall>ev \<in> set es2. \<not> breaks_lock l ev)"
proof -
  from assms(3,4) obtain ls where "take_lock (pkt_req sc) (lockList b) = Inr (True, ls)"
    by (auto simp: checkWrite_def Let_def result_simps)
  from take_lock_success [OF this] obtain l where "l \<in> set (lockList b)"
    "lock_matches l (pkt_req sc) = Inr True" by blast
  with lock_run_origin [OF assms(1,2)] show ?thesis unfolding lock_origin_def by blast
qed

lemma lock_run_keeps:
  assumes "lock_run es b = Inr b'" "l \<in> set (lockList b)"
    and "\<forall>ev \<in> set es. \<not> breaks_lock l ev \<and> \<not> conditional ev"
  shows "l \<in> set (lockList b')"
  using assms(1-3)
proof (induction es arbitrary: b)
  case Nil
  then show ?case by simp
next
  case (Cons e es)
  show ?case
  proof (cases e)
    case (LoadLocked q)
    with Cons.prems obtain b1 where b1: "trackLoadLocked q b = Inr b1" "lock_run es b1 = Inr b'"
      by (auto simp: result_simps)
    from b1(1) have "l \<in> set (lockList b1)"
      by (rule trackLoadLocked_locks) (use Cons.prems(2,3) LoadLocked in auto)
    with Cons.IH [OF b1(2)] Cons.prems(3) show ?thesis by simp
  next
    case (StoreTo q)
    with Cons.prems obtain s b1 r where b1: "checkWrite q b = Inr (s, b1, r)" "lock_run es b1 = Inr b'"
      by (auto simp: result_simps)
    have nc: "\<not> cmd_isLLSC (cmd q)" "\<not> breaks_lock l (StoreTo q)" using Cons.prems(3) StoreTo by auto
    have "l \<in> set (lockList b1)"
    proof -
      have "lockList b \<noteq> []" using Cons.prems(2) by auto
      with b1(1) nc(1) have "clearLoadLocks (pkt_req q) b = Inr b1"
        by (auto simp: checkWrite_def result_simps split: if_splits)
      from clearLoadLocks_locks [OF this] clearLoadLocks_ok [OF this Cons.prems(2)] show ?thesis
        using Cons.prems(2) nc(2) by auto
    qed
    with Cons.IH [OF b1(2)] Cons.prems(3) show ?thesis by simp
  qed
qed

text \<open>Claim C21. A linked store-conditional does succeed: if after a load-linked nobody breaks its
  lock and no other store-conditional intervenes, the store-conditional on its range writes
  and reports 1 to its request.\<close>

theorem store_conditional_succeeds:
  assumes "lock_run (es1 @ LoadLocked ll # es2) b0 = Inr b"
    and "new_lock (pkt_req ll) = Inr l" "lock_matches l (pkt_req sc) = Inr True"
    and "\<forall>ev \<in> set es2. \<not> breaks_lock l ev \<and> \<not> conditional ev"
    and "cmd_isLLSC (cmd sc)" "checkWrite sc b = Inr (s, b', r)"
  shows "s \<and> req_extraData r = 1"
proof -
  from assms(1) obtain b1 b2 where "trackLoadLocked ll b1 = Inr b2" and run: "lock_run es2 b2 = Inr b"
    by (auto simp: lock_run_append result_simps)
  from this(1) have "l \<in> set (lockList b2)"
    by (rule trackLoadLocked_locks) (use assms(2) in auto)
  from lock_run_keeps [OF run this assms(4)] have "l \<in> set (lockList b)" .
  moreover from assms(5,6) obtain ls where "take_lock (pkt_req sc) (lockList b) = Inr (s, ls)"
    and "r = setExtraData (if s then 1 else 0) (pkt_req sc)"
    by (auto simp: checkWrite_def Let_def result_simps)
  ultimately show ?thesis using take_lock_found assms(3) by (fastforce simp: setExtraData_def)
qed

definition demo_llsc_req :: request where
  "demo_llsc_req = setContext 3 (new_request 0 0 0x1000 8 LLSC 5)"

definition demo_ll :: packet where
  "demo_ll = demo_read\<lparr>cmd := LoadLockedReq, pkt_req := demo_llsc_req\<rparr>"

definition demo_sc :: packet where
  "demo_sc = demo_read\<lparr>cmd := StoreCondReq, pkt_req := demo_llsc_req\<rparr>"

definition demo_blk :: cache_blk where
  "demo_blk = \<lparr>blk_set = 0, blk_way = 0, blk_valid = False, blk_secure = False, blk_tag = MaxAddr,
     blk_index_bits = 0, blk_domainID = 0, blk_data = [], whenReady = MaxTick, lockList = [],
     coherence = 0, blk_taskId = TaskId_Unknown, blk_srcRequestorId = 0, blk_refCount = 0,
     blk_tickInserted = 0, blk_prefetched = False\<rparr>"

lemma demo_llsc_fields:
  "getPaddr demo_llsc_req = Inr 0x1000" "req_getSize demo_llsc_req = Inr 8"
  "contextId demo_llsc_req = Inr 3" "cmd_isLLSC (cmd demo_ll)" "cmd_isLLSC (cmd demo_sc)"
  "cmd_isWrite (cmd demo_sc)" "pkt_req demo_ll = demo_llsc_req" "pkt_req demo_sc = demo_llsc_req"
  "lockList demo_blk = []"
  by (simp_all add: demo_llsc_req_def demo_ll_def demo_sc_def demo_blk_def setContext_def new_request_def
      default_request_def getPaddr_def req_getSize_def contextId_def hasPaddr_def hasSize_def
      hasContextId_def flag_isSet_def flag_set_def private_flag_defs testCmdAttrib_def)

lemma demo_llsc_run:
  "lock_run [LoadLocked demo_ll] demo_blk =
     Inr (demo_blk\<lparr>lockList := [\<lparr>lock_contextId = 3, lowAddr = 0x1000, highAddr = 0x1007\<rparr>]\<rparr>)"
  "\<exists>b' r. checkWrite demo_sc
     (demo_blk\<lparr>lockList := [\<lparr>lock_contextId = 3, lowAddr = 0x1000, highAddr = 0x1007\<rparr>]\<rparr>) = Inr (True, b', r)"
  by (simp_all add: trackLoadLocked_def new_lock_def checkWrite_def lock_matches_def clearLoadLocks_def
      demo_llsc_fields)

theorem store_conditional_linked_witness:
  "\<exists>es1 ll es2 l. [LoadLocked demo_ll] = es1 @ LoadLocked ll # es2 \<and> new_lock (pkt_req ll) = Inr l \<and>
     lock_matches l (pkt_req demo_sc) = Inr True"
proof -
  from demo_llsc_run(2) obtain b' r where "checkWrite demo_sc
     (demo_blk\<lparr>lockList := [\<lparr>lock_contextId = 3, lowAddr = 0x1000, highAddr = 0x1007\<rparr>]\<rparr>) = Inr (True, b', r)"
    by blast
  from store_conditional_linked [OF demo_llsc_run(1) demo_llsc_fields(9,5) this] show ?thesis by blast
qed

theorem store_conditional_succeeds_witness:
  "\<exists>b' r. checkWrite demo_sc
     (demo_blk\<lparr>lockList := [\<lparr>lock_contextId = 3, lowAddr = 0x1000, highAddr = 0x1007\<rparr>]\<rparr>) = Inr (True, b', r) \<and>
     req_extraData r = 1"
proof -
  let ?l = "\<lparr>lock_contextId = 3, lowAddr = 0x1000, highAddr = 0x1007\<rparr> :: lock"
  from demo_llsc_run(2) obtain b' r where c: "checkWrite demo_sc (demo_blk\<lparr>lockList := [?l]\<rparr>) = Inr (True, b', r)"
    by blast
  have "new_lock (pkt_req demo_ll) = Inr ?l" "lock_matches ?l (pkt_req demo_sc) = Inr True"
    by (simp_all add: new_lock_def lock_matches_def demo_llsc_fields)
  with store_conditional_succeeds [of "[]" demo_ll "[]" demo_blk "demo_blk\<lparr>lockList := [?l]\<rparr>" ?l demo_sc True b' r]
    demo_llsc_run(1) demo_llsc_fields(5) c show ?thesis by auto
qed

section \<open>Moving a block\<close>

lemma coherence_cleared:
  "((c AND NOT AllBits) OR d) AND WritableBit = d AND WritableBit"
  "((c AND NOT AllBits) OR d) AND DirtyBit = d AND DirtyBit"
proof -
  have z: "NOT AllBits AND WritableBit = 0" "NOT AllBits AND DirtyBit = 0" by (simp_all add: coherence_defs)
  show "((c AND NOT AllBits) OR d) AND WritableBit = d AND WritableBit"
    by (simp add: bit.conj_disj_distrib2 and.assoc z)
  show "((c AND NOT AllBits) OR d) AND DirtyBit = d AND DirtyBit"
    by (simp add: bit.conj_disj_distrib2 and.assoc z)
qed

text \<open>Moving a block into an invalidated one transfers its identity: the destination
  matches exactly the tags, indices and domains the source matched, is in the same coherence
  state and holds its load locks, while it keeps its own position and data; the source ends
  invalid, without locks and without a domain.\<close>

theorem block_move_transfers:
  assumes "blk_move now (blk_invalidate d0) src = Inr (d, s)"
  shows "(\<forall>tag sec. matchTag d tag sec = matchTag src tag sec) \<and>
    (\<forall>x sec dom. matchIndex_domain d x sec dom = matchIndex_domain src x sec dom) \<and>
    blk_state d = blk_state src \<and> lockList d = lockList src \<and>
    blk_set d = blk_set d0 \<and> blk_way d = blk_way d0 \<and> blk_data d = blk_data d0 \<and>
    \<not> blk_valid s \<and> lockList s = [] \<and> blk_domainID s = 0"
proof -
  from assms have f: "blk_valid src" "blk_valid d" "blk_tag d = blk_tag src" "blk_index_bits d = blk_index_bits src"
    "blk_secure d = blk_secure src" "blk_domainID d = blk_domainID src" "lockList d = lockList src"
    "coherence d = (coherence d0 AND NOT AllBits) OR coherence src"
    "blk_set d = blk_set d0" "blk_way d = blk_way d0" "blk_data d = blk_data d0"
    and s: "\<exists>l. s = blk_invalidate (src\<lparr>lockList := l\<rparr>)"
    by (auto simp: blk_move_def entry_insert_index_def setValid_def setCoherenceBits_def setWhenReady_def
        blk_invalidate_def clearCoherenceBits_def entry_invalidate_def Let_def result_simps split: if_splits)
  have "blk_isSet d WritableBit = blk_isSet src WritableBit" "blk_isSet d DirtyBit = blk_isSet src DirtyBit"
    using f(1,2,8) by (simp_all add: blk_isSet_def coherence_cleared)
  then have "blk_state d = blk_state src" using f(1,2) by (simp add: blk_state_def)
  moreover have "\<not> blk_valid s \<and> lockList s = [] \<and> blk_domainID s = 0"
    using s by (auto simp: blk_invalidate_def clearCoherenceBits_def entry_invalidate_def)
  ultimately show ?thesis using f by (simp add: matchTag_def matchIndex_domain_def)
qed

theorem block_move_transfers_witness:
  "\<exists>d s. blk_move 9 (blk_invalidate demo_blk) (demo_blk\<lparr>blk_valid := True, blk_tag := 5, blk_domainID := 7\<rparr>) = Inr (d, s) \<and>
     matchTag d 5 False \<and> blk_state d = Shared \<and> \<not> blk_valid s"
proof -
  let ?src = "demo_blk\<lparr>blk_valid := True, blk_tag := 5, blk_domainID := 7\<rparr>"
  have "is_ok (blk_move 9 (blk_invalidate demo_blk) ?src)"
    by (simp add: blk_move_def entry_insert_index_def setValid_def setCoherenceBits_def setWhenReady_def
        blk_invalidate_def clearCoherenceBits_def entry_invalidate_def Let_def demo_blk_def)
  then obtain d s where m: "blk_move 9 (blk_invalidate demo_blk) ?src = Inr (d, s)" by (auto simp: is_ok_iff)
  have "matchTag ?src 5 False" "blk_state ?src = Shared"
    by (simp_all add: matchTag_def blk_state_def blk_isSet_def demo_blk_def)
  with block_move_transfers [OF m] m show ?thesis by auto
qed

end
