(* ===== verification/Indexing.thy ===== *)
theory Indexing
  imports Int_Math
begin

text \<open>
  The indexing policies of \<^verbatim>\<open>mem/cache/tags/indexing_policies\<close>: the base class with its table of
  sets and ways, the set-associative policy, and \<^verbatim>\<open>NewRandIdx\<close>, the fully mapped policy of the
  randomised cache. Entries are handles (positions in the tag store's block vector); a slot of
  the table that holds no entry yet is the null pointer. The contract the tag stores rely on is
  the locale \<open>indexing_policy\<close>.
\<close>

section \<open>The base policy (base.hh, base.cc)\<close>

record base_indexing =
  assoc :: nat
  numSets :: u32
  setShift :: nat
  setMask :: u32
  sets :: "nat option list list"
  tagShift :: nat

text \<open>
  The constructor. The member initialisers run in declaration order, so a zero divisor or a
  failing \<^verbatim>\<open>floorLog2\<close> assertion comes before the \<^verbatim>\<open>fatal_if\<close> checks of the body. The size is a
  \<^verbatim>\<open>uint64_t\<close>; the entry size and the associativity are 32 bits wide and so is their product; the
  quotient is truncated to \<^verbatim>\<open>uint32_t\<close>.
\<close>

definition floorLog2_int :: "u32 \<Rightarrow> nat result" where
  "floorLog2_int x = require (0 < sint x) Assert (floorLog2 4 (ucast x))"

definition new_base_indexing :: "64 word \<Rightarrow> u32 \<Rightarrow> u32 \<Rightarrow> base_indexing result" where
  "new_base_indexing sz entry_size assc =
     require (entry_size * assc \<noteq> 0) Undefined
     (let ns = ucast (sz div ucast (entry_size * assc)) :: u32
      in bind_result (floorLog2_int entry_size) (\<lambda>shift.
         bind_result (floorLog2 4 (ucast ns)) (\<lambda>lg.
         require (isPowerOf2 ns) Fatal
         (require (0 < assc) Fatal
         (Inr \<lparr>assoc = unat assc, numSets = ns, setShift = shift, setMask = ns - 1,
               sets = replicate (unat ns) (replicate (unat assc) None),
               tagShift = shift + lg\<rparr>)))))"

definition getEntry :: "'a base_indexing_scheme \<Rightarrow> nat \<Rightarrow> nat \<Rightarrow> nat option result" where
  "getEntry p st way =
     require (st < length (sets p)) Undefined
     (require (way < length (sets p ! st)) Undefined (Inr (sets p ! st ! way)))"

text \<open>\<^verbatim>\<open>setEntry\<close> returns the policy with the slot filled and the position it gives the entry.\<close>

definition setEntry ::
  "'a base_indexing_scheme \<Rightarrow> nat \<Rightarrow> nat \<Rightarrow> ('a base_indexing_scheme \<times> nat \<times> nat) result" where
  "setEntry p entry index =
     (let st = index div assoc p; way = index mod assoc p
      in require (st < unat (numSets p)) Assert
         (Inr (p\<lparr>sets := (sets p)[st := (sets p ! st)[way := Some entry]]\<rparr>, st, way)))"

definition base_extractTag :: "base_indexing \<Rightarrow> addr \<Rightarrow> addr" where
  "base_extractTag p a = drop_bit (tagShift p) a"

definition base_extractIndex :: "base_indexing \<Rightarrow> addr \<Rightarrow> addr" where
  "base_extractIndex p a = 0"

section \<open>The set-associative policy (set\_associative.cc)\<close>

definition sa_extractSet :: "base_indexing \<Rightarrow> addr \<Rightarrow> u32" where
  "sa_extractSet p a = ucast (drop_bit (setShift p) a AND ucast (setMask p))"

text \<open>The set number is a \<^verbatim>\<open>uint32_t\<close>, so its shift is a 32-bit shift.\<close>

definition sa_regenerateAddr :: "base_indexing \<Rightarrow> addr \<Rightarrow> u32 \<Rightarrow> addr" where
  "sa_regenerateAddr p tag entry_set =
     push_bit (tagShift p) tag OR ucast (push_bit (setShift p) entry_set)"

definition sa_regenerateAddr_bits :: "base_indexing \<Rightarrow> addr \<Rightarrow> addr \<Rightarrow> addr result" where
  "sa_regenerateAddr_bits p tag index_bits = Inl Panic"

definition sa_getPossibleEntries :: "base_indexing \<Rightarrow> addr \<Rightarrow> nat option list" where
  "sa_getPossibleEntries p a = sets p ! unat (sa_extractSet p a)"

section \<open>The randomised policy (new\_rand\_idx.cc)\<close>

record new_rand_idx = base_indexing +
  nbits :: nat
  indexMask :: u32

text \<open>\<^verbatim>\<open>1 << n\<close> is an \<^verbatim>\<open>int\<close> shift: undefined from 31 bits on.\<close>

definition new_new_rand_idx :: "64 word \<Rightarrow> u32 \<Rightarrow> u32 \<Rightarrow> nat \<Rightarrow> new_rand_idx result" where
  "new_new_rand_idx sz entry_size assc nb =
     bind_result (new_base_indexing sz entry_size assc) (\<lambda>b.
     bind_result (floorLog2 8 (sz div ucast entry_size)) (\<lambda>lg.
     require (lg + nb < 31) Undefined
     (require (numSets b = 1) Fatal
     (Inr (base_indexing.extend b \<lparr>nbits = nb, indexMask = push_bit (lg + nb) 1 - 1\<rparr>)))))"

definition nr_extractSet :: "new_rand_idx \<Rightarrow> addr \<Rightarrow> u32 result" where
  "nr_extractSet p a = Inl Panic"

definition nr_extractTag :: "new_rand_idx \<Rightarrow> addr \<Rightarrow> addr" where
  "nr_extractTag p a = drop_bit (tagShift p + nbits p) a"

definition nr_extractIndex :: "new_rand_idx \<Rightarrow> addr \<Rightarrow> addr" where
  "nr_extractIndex p a = drop_bit (setShift p) a AND ucast (indexMask p)"

definition nr_regenerateAddr :: "new_rand_idx \<Rightarrow> addr \<Rightarrow> addr \<Rightarrow> addr" where
  "nr_regenerateAddr p tag index_bits =
     push_bit (tagShift p + nbits p) tag OR push_bit (setShift p) index_bits"

definition nr_regenerateAddr_entry :: "new_rand_idx \<Rightarrow> addr \<Rightarrow> u32 \<Rightarrow> addr result" where
  "nr_regenerateAddr_entry p tag entry_set = Inl Panic"

definition nr_getPossibleEntries :: "new_rand_idx \<Rightarrow> addr \<Rightarrow> nat option list" where
  "nr_getPossibleEntries p a = sets p ! 0"

section \<open>Well-formed policies\<close>

text \<open>
  What the constructor establishes: \<open>n\<close> is the logarithm of the number of sets. The address of a
  block is the address with its offset bits cleared.
\<close>

definition wf_indexing :: "nat \<Rightarrow> 'a base_indexing_scheme \<Rightarrow> bool" where
  "wf_indexing n p \<longleftrightarrow> n < 32 \<and> numSets p = 2 ^ n \<and> setMask p = mask n \<and>
     tagShift p = setShift p + n \<and> 0 < assoc p \<and> tagShift p < 64 \<and>
     length (sets p) = 2 ^ n \<and> (\<forall>row \<in> set (sets p). length row = assoc p)"

definition block_addr :: "nat \<Rightarrow> addr \<Rightarrow> addr" where
  "block_addr shift a = a AND NOT (mask shift)"

lemma wf_indexing_new:
  assumes "new_base_indexing sz entry_size assc = Inr p" and "tagShift p < 64"
  shows "\<exists>n. wf_indexing n p"
proof -
  let ?ns = "ucast (sz div ucast (entry_size * assc)) :: u32"
  from assms(1) obtain shift lg where p: "isPowerOf2 ?ns" "floorLog2 4 (ucast ?ns) = Inr lg" "0 < assc"
    "p = \<lparr>assoc = unat assc, numSets = ?ns, setShift = shift, setMask = ?ns - 1,
          sets = replicate (unat ?ns) (replicate (unat assc) None), tagShift = shift + lg\<rparr>"
    by (auto simp: new_base_indexing_def Let_def result_simps)
  from p(1) obtain n where n: "n < 32" "?ns = 2 ^ n" by (auto simp: isPowerOf2_iff)
  have u: "unat (ucast ?ns :: 64 word) = 2 ^ n"
    using n by (simp add: unsigned_ucast_eq take_bit_nat_eq_self unat_power2)
  moreover have "(2::nat) ^ n < 2 ^ 32" using n(1) by (rule power_strict_increasing) simp
  then have "is_floor_log (unat (ucast ?ns :: 64 word)) lg"
    using p(2) u n floorLog2_is_floor_log [of "ucast ?ns" 4]
    by (auto simp: word_gt_0 unat_gt_0 [symmetric] simp del: unat_gt_0)
  moreover have "is_floor_log (2 ^ n) n" by (simp add: is_floor_log_def)
  ultimately have "lg = n" by (metis is_floor_log_unique)
  with p n assms(2) show ?thesis
    by (intro exI [of _ n]) (simp add: wf_indexing_def mask_eq_exp_minus_1 unat_power2 unat_gt_0 word_gt_0)
qed

section \<open>The contract of an indexing policy\<close>

text \<open>
  What a tag store needs of its policy: the positions an address may occupy depend only on its
  block, are distinct, and together with the key a block stores (the tag, or tag and index) they
  determine the block address.
\<close>

locale indexing_policy =
  fixes wf :: "'p \<Rightarrow> bool"
    and key :: "'p \<Rightarrow> addr \<Rightarrow> 'k"
    and positions :: "'p \<Rightarrow> addr \<Rightarrow> (nat \<times> nat) list"
    and regenerate :: "'p \<Rightarrow> 'k \<Rightarrow> nat \<times> nat \<Rightarrow> addr"
    and canon :: "'p \<Rightarrow> addr \<Rightarrow> addr"
  assumes regenerate_key:
      "wf p \<Longrightarrow> pos \<in> set (positions p a) \<Longrightarrow> regenerate p (key p a) pos = canon p a"
    and positions_nonempty: "wf p \<Longrightarrow> positions p a \<noteq> []"
    and distinct_positions: "wf p \<Longrightarrow> distinct (positions p a)"
    and canon_positions: "wf p \<Longrightarrow> canon p a = canon p b \<Longrightarrow> positions p a = positions p b"
    and canon_key: "wf p \<Longrightarrow> canon p a = canon p b \<Longrightarrow> key p a = key p b"
begin

lemma same_slot_same_key_same_block:
  assumes "wf p" and "pos \<in> set (positions p a)" and "pos \<in> set (positions p b)"
    and "key p a = key p b"
  shows "canon p a = canon p b"
  using regenerate_key [OF assms(1,2)] regenerate_key [OF assms(1,3)] assms(4) by simp

lemma same_slot_key_iff:
  assumes "wf p" and "pos \<in> set (positions p a)" and "pos \<in> set (positions p b)"
  shows "key p a = key p b \<longleftrightarrow> canon p a = canon p b"
  using same_slot_same_key_same_block [OF assms] canon_key [OF assms(1)] by blast

lemma positions_disjoint_if_same_key:
  assumes "wf p" and "key p a = key p b" and "canon p a \<noteq> canon p b"
  shows "set (positions p a) \<inter> set (positions p b) = {}"
  using same_slot_same_key_same_block [OF assms(1)] assms(2,3) by blast

end

section \<open>Set-associative and randomised policies keep the contract\<close>

definition sa_positions :: "base_indexing \<Rightarrow> addr \<Rightarrow> (nat \<times> nat) list" where
  "sa_positions p a = map (Pair (unat (sa_extractSet p a))) [0..<assoc p]"

definition sa_regenerate :: "base_indexing \<Rightarrow> addr \<Rightarrow> nat \<times> nat \<Rightarrow> addr" where
  "sa_regenerate p tag pos = sa_regenerateAddr p tag (word_of_nat (fst pos))"

definition sa_wf :: "base_indexing \<Rightarrow> bool" where
  "sa_wf p \<longleftrightarrow> (\<exists>n. wf_indexing n p) \<and> tagShift p \<le> 32"

lemma bit_block_addr [bits_simps]: "bit (block_addr sh a) i \<longleftrightarrow> sh \<le> i \<and> bit a i"
  by (auto simp: block_addr_def bits_simps dest: bit_imp_le_length)

lemma bit_ucast [bits_simps]:
  "bit (ucast (w :: 'a::len word) :: 'b::len word) i \<longleftrightarrow> i < LENGTH('b) \<and> bit w i"
  by (simp add: bit_unsigned_iff)

lemma bit_sa_extractSet:
  assumes "wf_indexing n p"
  shows "bit (sa_extractSet p a) i \<longleftrightarrow> i < n \<and> bit a (setShift p + i)"
  using assms by (auto simp: sa_extractSet_def wf_indexing_def bits_simps)

lemma sa_extractSet_less:
  assumes "wf_indexing n p"
  shows "unat (sa_extractSet p a) < 2 ^ n"
  using assms by (simp add: unat_less_power_iff_bits bit_sa_extractSet)

lemma sa_regenerateAddr_extract:
  assumes "wf_indexing n p" and "tagShift p \<le> 32"
  shows "sa_regenerateAddr p (base_extractTag p a) (sa_extractSet p a) = block_addr (setShift p) a"
proof (rule word_eq_by_bits)
  fix i
  have t: "tagShift p = setShift p + n" using assms(1) by (simp add: wf_indexing_def)
  show "bit (sa_regenerateAddr p (base_extractTag p a) (sa_extractSet p a)) i =
      bit (block_addr (setShift p) a) i"
    using assms(2) t
    by (cases "tagShift p \<le> i") (auto simp: sa_regenerateAddr_def base_extractTag_def bits_simps
        bit_sa_extractSet [OF assms(1)] dest: bit_imp_le_length)
qed

lemma drop_bit_block_addr: "drop_bit sh (block_addr sh a) = drop_bit sh a"
  by (rule word_eq_by_bits) (simp add: bits_simps)

lemma block_addr_eq_iff:
  "block_addr sh a = block_addr sh b \<longleftrightarrow> drop_bit sh a = drop_bit sh b"
proof
  assume "block_addr sh a = block_addr sh b"
  then have "drop_bit sh (block_addr sh a) = drop_bit sh (block_addr sh b)" by simp
  then show "drop_bit sh a = drop_bit sh b"
    by (simp add: drop_bit_block_addr)
next
  assume "drop_bit sh a = drop_bit sh b"
  then show "block_addr sh a = block_addr sh b" by (simp add: block_addr_def word_and_not_mask)
qed

lemma block_addr_drop_bit:
  assumes "block_addr sh a = block_addr sh b" and "sh \<le> k"
  shows "drop_bit k a = drop_bit k b"
proof -
  have "drop_bit k x = drop_bit (k - sh) (drop_bit sh x)" for x :: addr
    using assms(2) by simp
  then show ?thesis using assms(1) by (metis block_addr_eq_iff)
qed

interpretation sa: indexing_policy sa_wf base_extractTag sa_positions sa_regenerate
  "\<lambda>p. block_addr (setShift p)"
proof
  fix p :: base_indexing and a b :: addr and pos :: "nat \<times> nat"
  assume "sa_wf p"
  then obtain n where n: "wf_indexing n p" and t: "tagShift p \<le> 32" by (auto simp: sa_wf_def)
  show "pos \<in> set (sa_positions p a) \<Longrightarrow>
      sa_regenerate p (base_extractTag p a) pos = block_addr (setShift p) a"
    by (auto simp: sa_positions_def sa_regenerate_def sa_regenerateAddr_extract [OF n t])
  show "sa_positions p a \<noteq> []" using n by (simp add: sa_positions_def wf_indexing_def)
  show "distinct (sa_positions p a)" by (simp add: sa_positions_def distinct_map inj_on_def)
  assume eq: "block_addr (setShift p) a = block_addr (setShift p) b"
  show "sa_positions p a = sa_positions p b"
    using eq by (simp add: sa_positions_def sa_extractSet_def block_addr_eq_iff)
  show "base_extractTag p a = base_extractTag p b"
    using n by (auto simp: base_extractTag_def wf_indexing_def intro: block_addr_drop_bit [OF eq])
qed

lemma sa_getPossibleEntries_positions:
  assumes "wf_indexing n p"
  shows "sa_getPossibleEntries p a = map (\<lambda>(st, way). sets p ! st ! way) (sa_positions p a)"
proof -
  have "unat (sa_extractSet p a) < length (sets p)"
    using sa_extractSet_less [OF assms] assms by (simp add: wf_indexing_def)
  then have "length (sets p ! unat (sa_extractSet p a)) = assoc p"
    using assms by (simp add: wf_indexing_def)
  then show ?thesis
    by (auto simp: sa_getPossibleEntries_def sa_positions_def intro: nth_equalityI)
qed

text \<open>The randomised policy has one set; the key of a block is its tag and its index bits.\<close>

definition nr_wf :: "new_rand_idx \<Rightarrow> bool" where
  "nr_wf p \<longleftrightarrow> wf_indexing 0 p \<and> (\<exists>k < 31. nbits p \<le> k \<and> indexMask p = mask k) \<and>
     tagShift p + nbits p < 64"

definition nr_key :: "new_rand_idx \<Rightarrow> addr \<Rightarrow> addr \<times> addr" where
  "nr_key p a = (nr_extractTag p a, nr_extractIndex p a)"

definition nr_positions :: "new_rand_idx \<Rightarrow> addr \<Rightarrow> (nat \<times> nat) list" where
  "nr_positions p a = map (Pair 0) [0..<assoc p]"

definition nr_regenerate :: "new_rand_idx \<Rightarrow> addr \<times> addr \<Rightarrow> nat \<times> nat \<Rightarrow> addr" where
  "nr_regenerate p k pos = nr_regenerateAddr p (fst k) (snd k)"

lemma nr_regenerateAddr_extract:
  assumes "nr_wf p"
  shows "nr_regenerateAddr p (nr_extractTag p a) (nr_extractIndex p a) = block_addr (setShift p) a"
proof -
  from assms obtain k where k: "nbits p \<le> k" "indexMask p = mask k" "k < 31"
    and t: "tagShift p = setShift p" "tagShift p + nbits p < 64"
    by (auto simp: nr_wf_def wf_indexing_def)
  show ?thesis
  proof (rule word_eq_by_bits)
    fix i
    show "bit (nr_regenerateAddr p (nr_extractTag p a) (nr_extractIndex p a)) i =
        bit (block_addr (setShift p) a) i"
      using k t by (cases "tagShift p + nbits p \<le> i")
        (auto simp: nr_regenerateAddr_def nr_extractTag_def nr_extractIndex_def bits_simps
          dest: bit_imp_le_length)
  qed
qed

interpretation nr: indexing_policy nr_wf nr_key nr_positions nr_regenerate
  "\<lambda>p. block_addr (setShift p)"
proof
  fix p :: new_rand_idx and a b :: addr and pos :: "nat \<times> nat"
  assume wf: "nr_wf p"
  show "pos \<in> set (nr_positions p a) \<Longrightarrow>
      nr_regenerate p (nr_key p a) pos = block_addr (setShift p) a"
    by (simp add: nr_regenerate_def nr_key_def nr_regenerateAddr_extract [OF wf])
  show "nr_positions p a \<noteq> []" using wf by (simp add: nr_positions_def nr_wf_def wf_indexing_def)
  show "distinct (nr_positions p a)" by (simp add: nr_positions_def distinct_map inj_on_def)
  assume eq: "block_addr (setShift p) a = block_addr (setShift p) b"
  show "nr_positions p a = nr_positions p b" by (simp add: nr_positions_def)
  have "tagShift p = setShift p" using wf by (simp add: nr_wf_def wf_indexing_def)
  then show "nr_key p a = nr_key p b"
    using eq by (simp add: nr_key_def nr_extractTag_def nr_extractIndex_def
        block_addr_drop_bit [OF eq])
qed

lemma nr_wf_new:
  assumes "new_new_rand_idx sz entry_size assc nb = Inr p" and "tagShift p + nb < 64"
  shows "nr_wf p"
proof -
  from assms(1) obtain b lg where b: "new_base_indexing sz entry_size assc = Inr b"
    and lg: "lg + nb < 31" and ns: "numSets b = 1"
    and p: "p = base_indexing.extend b \<lparr>nbits = nb, indexMask = push_bit (lg + nb) 1 - 1\<rparr>"
    by (auto simp: new_new_rand_idx_def result_simps)
  have fields: "numSets p = numSets b" "setMask p = setMask b" "tagShift p = tagShift b"
    "setShift p = setShift b" "assoc p = assoc b" "sets p = sets b" "nbits p = nb"
    "indexMask p = push_bit (lg + nb) 1 - 1"
    unfolding p by (cases b; simp add: base_indexing.extend_def)+
  obtain n where n: "wf_indexing n b"
    using wf_indexing_new [OF b] assms(2) fields by auto
  then have "unat (2 ^ n :: u32) = unat (1 :: u32)" "n < 32"
    using ns by (simp_all add: wf_indexing_def)
  then have "n = 0" by (simp add: unat_power2)
  with n fields lg assms(2) show ?thesis
    by (auto simp: nr_wf_def wf_indexing_def mask_eq_exp_minus_1 push_bit_eq_mult
        intro!: exI [of _ "lg + nb"])
qed

text \<open>With more than 32 index and offset bits the set-associative policy loses address
  bits: the set number is shifted as a 32-bit value, so a well-formed configuration regenerates
  a wrong address.\<close>

theorem set_assoc_regenerate_truncates:
  "\<exists>p n a. wf_indexing n p \<and> tagShift p = 33 \<and>
     sa_regenerateAddr p (base_extractTag p a) (sa_extractSet p a) \<noteq> block_addr (setShift p) a"
proof -
  let ?p = "\<lparr>assoc = 1, numSets = 2 ^ 3, setShift = 30, setMask = 7, sets = replicate 8 [None],
    tagShift = 33\<rparr> :: base_indexing"
  have wf: "wf_indexing 3 ?p" by (simp add: wf_indexing_def mask_eq_exp_minus_1)
  have "sa_regenerateAddr ?p (base_extractTag ?p 0x100000000) (sa_extractSet ?p 0x100000000) = 0"
    by (simp add: sa_regenerateAddr_def base_extractTag_def sa_extractSet_def)
  moreover have "block_addr (setShift ?p) 0x100000000 = 0x100000000"
    by (simp add: block_addr_def mask_eq_exp_minus_1)
  ultimately show ?thesis using wf
    by (intro exI [of _ ?p] exI [of _ 3] exI [of _ "0x100000000"]) simp
qed

end
