(* ===== verification/Skewed.thy ===== *)
theory Skewed
  imports Indexing
begin

text \<open>
  The skewed-associative policy (\<^verbatim>\<open>skewed_associative.cc\<close>): every way has its own hash of the
  address. The hash is one step of a linear feedback shift register; the theory shows that
  \<^verbatim>\<open>dehash\<close> inverts it, that \<^verbatim>\<open>deskew\<close> inverts \<^verbatim>\<open>skew\<close> for every way, and that the address of a
  block can be regenerated from its tag, set and way, so the policy keeps the contract of
  \<open>indexing_policy\<close>.
\<close>

section \<open>The policy\<close>

record skewed_indexing = base_indexing +
  msbShift :: nat

definition NUM_SKEWING_FUNCTIONS :: nat where
  "NUM_SKEWING_FUNCTIONS = 8"

definition new_skewed :: "64 word \<Rightarrow> u32 \<Rightarrow> u32 \<Rightarrow> skewed_indexing result" where
  "new_skewed sz entry_size assc =
     bind_result (new_base_indexing sz entry_size assc) (\<lambda>b.
     bind_result (floorLog2 4 (ucast (numSets b))) (\<lambda>lg.
     require (setShift b + 2 * lg \<le> 64) Panic
     (require (2 < numSets b) Fatal
     (Inr (base_indexing.extend b \<lparr>msbShift = lg - 1\<rparr>)))))"

definition sk_hash :: "nat \<Rightarrow> addr \<Rightarrow> addr" where
  "sk_hash msb a =
     (let lsb = bits1 a 0; msbit = bits1 a msb; xor_bit = msbit XOR lsb
      in insertBit (drop_bit 1 a) msb xor_bit)"

definition sk_dehash :: "nat \<Rightarrow> addr \<Rightarrow> addr" where
  "sk_dehash msb a =
     (let msbit = bits1 a (msb - 1); xor_bit = bits1 a msb; lsb = msbit XOR xor_bit;
          addr_no_msb = mbits a (msb - 1) 0
      in insertBit (push_bit 1 addr_no_msb) 0 lsb)"

definition skew :: "skewed_indexing \<Rightarrow> addr \<Rightarrow> nat \<Rightarrow> addr" where
  "skew p a way =
     (let m = msbShift p; hash = sk_hash m; dehash = sk_dehash m;
          addr1 = bits_val a m 0; addr2 = bits_val a (2 * (m + 1) - 1) (m + 1);
          k = way mod NUM_SKEWING_FUNCTIONS;
          x = (if k = 0 then hash addr1 XOR hash addr2 XOR addr2
               else if k = 1 then hash addr1 XOR hash addr2 XOR addr1
               else if k = 2 then hash addr1 XOR dehash addr2 XOR addr2
               else if k = 3 then hash addr1 XOR dehash addr2 XOR addr1
               else if k = 4 then dehash addr1 XOR hash addr2 XOR addr2
               else if k = 5 then dehash addr1 XOR hash addr2 XOR addr1
               else if k = 6 then dehash addr1 XOR dehash addr2 XOR addr2
               else dehash addr1 XOR dehash addr2 XOR addr1)
      in (hash ^^ (way div NUM_SKEWING_FUNCTIONS)) x)"

definition deskew :: "skewed_indexing \<Rightarrow> addr \<Rightarrow> nat \<Rightarrow> addr" where
  "deskew p a way =
     (let m = msbShift p; hash = sk_hash m; dehash = sk_dehash m;
          addr1 = bits_val a m 0; addr2 = bits_val a (2 * (m + 1) - 1) (m + 1);
          addr1 = (if NUM_SKEWING_FUNCTIONS \<le> way
                   then (dehash ^^ (way div NUM_SKEWING_FUNCTIONS)) addr1 else addr1);
          k = way mod 8
      in if k = 0 then dehash (addr1 XOR hash addr2 XOR addr2)
         else if k = 1 then (hash ^^ m) (addr1 XOR hash addr2)
         else if k = 2 then dehash (addr1 XOR dehash addr2 XOR addr2)
         else if k = 3 then (hash ^^ m) (addr1 XOR dehash addr2)
         else if k = 4 then hash (addr1 XOR hash addr2 XOR addr2)
         else if k = 5 then (hash ^^ (m + 1)) (addr1 XOR hash addr2)
         else if k = 6 then hash (addr1 XOR dehash addr2 XOR addr2)
         else (hash ^^ (m + 1)) (addr1 XOR dehash addr2))"

definition sk_extractSet :: "skewed_indexing \<Rightarrow> addr \<Rightarrow> nat \<Rightarrow> u32" where
  "sk_extractSet p a way = ucast (skew p (drop_bit (setShift p) a) way AND ucast (setMask p))"

definition sk_regenerateAddr :: "skewed_indexing \<Rightarrow> addr \<Rightarrow> u32 \<Rightarrow> nat \<Rightarrow> addr" where
  "sk_regenerateAddr p tag entry_set way =
     (let addr_set = push_bit (msbShift p + 1) tag OR ucast entry_set
      in push_bit (tagShift p) tag OR
         push_bit (setShift p) (deskew p addr_set way AND ucast (setMask p)))"

definition sk_regenerateAddr_bits :: "skewed_indexing \<Rightarrow> addr \<Rightarrow> addr \<Rightarrow> addr result" where
  "sk_regenerateAddr_bits p tag index_bits = Inl Panic"

definition sk_getPossibleEntries :: "skewed_indexing \<Rightarrow> addr \<Rightarrow> nat option list" where
  "sk_getPossibleEntries p a =
     map (\<lambda>way. sets p ! unat (sk_extractSet p a way) ! way) [0..<assoc p]"

section \<open>The shift register\<close>

text \<open>An address \<^emph>\<open>fits\<close> when only its \<open>msb + 1\<close> low bits may be set.\<close>

definition fits :: "nat \<Rightarrow> addr \<Rightarrow> bool" where
  "fits msb a \<longleftrightarrow> (\<forall>i > msb. \<not> bit a i)"

lemma fitsD: "fits msb a \<Longrightarrow> bit a i \<Longrightarrow> i \<le> msb"
  by (meson fits_def not_le)

lemma bit_hash:
  assumes "fits msb a" and "msb < 64"
  shows "bit (sk_hash msb a) i \<longleftrightarrow>
    (if i = msb then bit a msb \<noteq> bit a 0 else i < msb \<and> bit a (i + 1))"
  using assms by (auto simp: sk_hash_def Let_def bits_simps dest: fitsD)

lemma bit_dehash:
  assumes "0 < msb" and "msb < 64"
  shows "bit (sk_dehash msb a) i \<longleftrightarrow>
    (if i = 0 then bit a (msb - 1) \<noteq> bit a msb else i \<le> msb \<and> bit a (i - 1))"
  using assms by (auto simp: sk_dehash_def Let_def bits_simps simp del: push_bit_Suc One_nat_def)

lemma fits_hash [simp]: "fits msb a \<Longrightarrow> msb < 64 \<Longrightarrow> fits msb (sk_hash msb a)"
  by (simp add: fits_def [of _ "sk_hash msb a"] bit_hash)

lemma fits_dehash [simp]: "0 < msb \<Longrightarrow> msb < 64 \<Longrightarrow> fits msb (sk_dehash msb a)"
  by (simp add: fits_def bit_dehash)

lemma fits_xor [simp]: "fits msb a \<Longrightarrow> fits msb b \<Longrightarrow> fits msb (a XOR b)"
  by (simp add: fits_def bit_xor_iff)

lemma fits_hash_iter [simp]: "fits msb a \<Longrightarrow> msb < 64 \<Longrightarrow> fits msb ((sk_hash msb ^^ k) a)"
  by (induction k) simp_all

lemma fits_bits_val [simp]: "fits msb (bits_val a msb 0)"
  "fits msb (bits_val a (2 * (msb + 1) - 1) (msb + 1))"
  by (auto simp: fits_def bits_simps)

lemma dehash_hash:
  assumes "fits msb a" and "0 < msb" and "msb < 64"
  shows "sk_dehash msb (sk_hash msb a) = a"
proof (rule word_eq_by_bits)
  fix i
  show "bit (sk_dehash msb (sk_hash msb a)) i = bit a i"
    using assms by (cases i) (auto simp: bit_dehash bit_hash dest: fitsD)
qed

lemma hash_dehash:
  assumes "fits msb a" and "0 < msb" and "msb < 64"
  shows "sk_hash msb (sk_dehash msb a) = a"
proof (rule word_eq_by_bits)
  fix i
  show "bit (sk_hash msb (sk_dehash msb a)) i = bit a i"
    using assms by (auto simp: bit_dehash bit_hash dest: fitsD)
qed

lemma hash_xor:
  assumes "fits msb a" and "fits msb b" and "msb < 64"
  shows "sk_hash msb (a XOR b) = sk_hash msb a XOR sk_hash msb b"
  by (rule word_eq_by_bits) (use assms in \<open>auto simp: bit_hash bit_xor_iff\<close>)

lemma hash_iter_xor:
  assumes "fits msb a" and "fits msb b" and "msb < 64"
  shows "(sk_hash msb ^^ k) (a XOR b) = (sk_hash msb ^^ k) a XOR (sk_hash msb ^^ k) b"
  by (induction k) (simp_all add: assms hash_xor)

lemma dehash_hash_iter:
  assumes "fits msb a" and "0 < msb" and "msb < 64"
  shows "(sk_dehash msb ^^ k) ((sk_hash msb ^^ k) a) = a"
proof (induction k)
  case (Suc k)
  have "(sk_dehash msb ^^ Suc k) ((sk_hash msb ^^ Suc k) a) =
      (sk_dehash msb ^^ k) (sk_dehash msb (sk_hash msb ((sk_hash msb ^^ k) a)))"
    by (simp add: funpow_swap1)
  also have "\<dots> = a" using Suc assms by (simp add: dehash_hash)
  finally show ?case .
qed simp

text \<open>The output sequence of the register started at \<open>a\<close>: its first \<open>msb + 1\<close> values are the bits of
  \<open>a\<close>, each later one is the sum of its predecessor and the value \<open>msb + 1\<close> places before.\<close>

fun lfsr :: "nat \<Rightarrow> addr \<Rightarrow> nat \<Rightarrow> bool" where
  "lfsr msb a i = (if i \<le> msb then bit a i else lfsr msb a (i - 1) \<noteq> lfsr msb a (i - Suc msb))"

declare lfsr.simps [simp del]

lemma bit_hash_iter:
  assumes "fits msb a" and "msb < 64" and "i \<le> msb"
  shows "bit ((sk_hash msb ^^ k) a) i = lfsr msb a (i + k)"
  using assms(3)
proof (induction k arbitrary: i)
  case 0
  then show ?case by (simp add: lfsr.simps [of msb a i])
next
  case (Suc k)
  have fit: "fits msb ((sk_hash msb ^^ k) a)" using assms by simp
  show ?case
  proof (cases "i = msb")
    case True
    then have "bit ((sk_hash msb ^^ Suc k) a) i = (lfsr msb a (msb + k) \<noteq> lfsr msb a k)"
      using Suc.IH [of msb] Suc.IH [of 0] by (simp add: bit_hash [OF fit assms(2)])
    also have "\<dots> = lfsr msb a (i + Suc k)"
      using True lfsr.simps [of msb a "msb + Suc k"] by simp
    finally show ?thesis .
  next
    case False
    with Suc.prems have "bit ((sk_hash msb ^^ Suc k) a) i = lfsr msb a (Suc i + k)"
      using Suc.IH [of "Suc i"] by (simp add: bit_hash [OF fit assms(2)])
    then show ?thesis by simp
  qed
qed

lemma hash_plus_id_inverse:
  assumes "fits msb a" and "msb < 64"
  shows "(sk_hash msb ^^ msb) (sk_hash msb a XOR a) = a"
proof (rule word_eq_by_bits)
  fix i
  have eq: "(sk_hash msb ^^ msb) (sk_hash msb a XOR a) =
      (sk_hash msb ^^ Suc msb) a XOR (sk_hash msb ^^ msb) a"
    using assms by (simp add: hash_iter_xor funpow_swap1)
  show "bit ((sk_hash msb ^^ msb) (sk_hash msb a XOR a)) i = bit a i"
  proof (cases "i \<le> msb")
    case True
    then have "bit ((sk_hash msb ^^ msb) (sk_hash msb a XOR a)) i =
        (lfsr msb a (i + Suc msb) \<noteq> lfsr msb a (i + msb))"
      unfolding eq bit_xor_iff using bit_hash_iter [OF assms] by blast
    also have "\<dots> = lfsr msb a i" using lfsr.simps [of msb a "i + Suc msb"] by auto
    finally show ?thesis using True by (simp add: lfsr.simps [of msb a i])
  next
    case False
    have "fits msb ((sk_hash msb ^^ msb) (sk_hash msb a XOR a))" using assms by simp
    with assms(1) False show ?thesis by (simp add: fits_def)
  qed
qed

section \<open>Deskewing inverts skewing\<close>

lemma xor_cancel:
  fixes x y z :: addr
  shows "(x XOR y XOR z) XOR y XOR z = x" and "(x XOR y XOR z) XOR y = x XOR z"
  by (rule word_eq_by_bits, auto simp: bit_xor_iff)+

lemma dehash_plus_id_inverse:
  assumes "fits msb a" and "0 < msb" and "msb < 64"
  shows "(sk_hash msb ^^ Suc msb) (sk_dehash msb a XOR a) = a"
proof -
  let ?b = "sk_dehash msb a"
  have a: "a = sk_hash msb ?b" using assms by (simp add: hash_dehash)
  have "(sk_hash msb ^^ Suc msb) (?b XOR a) = sk_hash msb ((sk_hash msb ^^ msb) (sk_hash msb ?b XOR ?b))"
    by (subst (2) a) (simp add: xor.commute)
  also have "\<dots> = sk_hash msb ?b" using assms by (simp add: hash_plus_id_inverse)
  finally show ?thesis using a by simp
qed

lemma deskew_skew:
  assumes m: "0 < msbShift p" "msbShift p < 64"
    and low: "bits_val b (msbShift p) 0 = skew p a way"
    and high: "bits_val b (2 * (msbShift p + 1) - 1) (msbShift p + 1) =
      bits_val a (2 * (msbShift p + 1) - 1) (msbShift p + 1)"
  shows "deskew p b way = bits_val a (msbShift p) 0"
proof -
  let ?m = "msbShift p"
  let ?h = "sk_hash ?m" and ?d = "sk_dehash ?m"
  define a1 a2 where "a1 = bits_val a ?m 0" and "a2 = bits_val a (2 * (?m + 1) - 1) (?m + 1)"
  have fit: "fits ?m a1" "fits ?m a2" by (simp_all only: a1_def a2_def fits_bits_val)
  define q k where "q = way div NUM_SKEWING_FUNCTIONS" and "k = way mod 8"
  have k8: "k < 8" by (simp add: k_def)
  define x where "x = (if k = 0 then ?h a1 XOR ?h a2 XOR a2
               else if k = 1 then ?h a1 XOR ?h a2 XOR a1
               else if k = 2 then ?h a1 XOR ?d a2 XOR a2
               else if k = 3 then ?h a1 XOR ?d a2 XOR a1
               else if k = 4 then ?d a1 XOR ?h a2 XOR a2
               else if k = 5 then ?d a1 XOR ?h a2 XOR a1
               else if k = 6 then ?d a1 XOR ?d a2 XOR a2
               else ?d a1 XOR ?d a2 XOR a1)"
  have fx: "fits ?m x" unfolding x_def using fit m by (auto intro: fits_xor)
  have sk: "skew p a way = (?h ^^ q) x"
    by (simp add: skew_def Let_def x_def a1_def a2_def q_def k_def NUM_SKEWING_FUNCTIONS_def)
  have y: "(if NUM_SKEWING_FUNCTIONS \<le> way then (?d ^^ q) (skew p a way) else skew p a way) = x"
    using dehash_hash_iter [OF fx m] by (auto simp: sk q_def NUM_SKEWING_FUNCTIONS_def)
  have "deskew p b way =
        (if k = 0 then ?d (x XOR ?h a2 XOR a2)
         else if k = 1 then (?h ^^ ?m) (x XOR ?h a2)
         else if k = 2 then ?d (x XOR ?d a2 XOR a2)
         else if k = 3 then (?h ^^ ?m) (x XOR ?d a2)
         else if k = 4 then ?h (x XOR ?h a2 XOR a2)
         else if k = 5 then (?h ^^ (?m + 1)) (x XOR ?h a2)
         else if k = 6 then ?h (x XOR ?d a2 XOR a2)
         else (?h ^^ (?m + 1)) (x XOR ?d a2))"
    unfolding deskew_def Let_def low high q_def [symmetric] y k_def [symmetric]
      a2_def [symmetric] ..
  also have "\<dots> = a1"
    using k8 fit m dehash_plus_id_inverse [OF fit(1) m]
    by (simp add: x_def xor_cancel dehash_hash hash_dehash hash_plus_id_inverse)
  finally show ?thesis by (simp add: a1_def)
qed

section \<open>The skewed policy keeps the contract\<close>

definition sk_wf :: "skewed_indexing \<Rightarrow> bool" where
  "sk_wf p \<longleftrightarrow> wf_indexing (Suc (msbShift p)) p \<and> 0 < msbShift p \<and>
     setShift p + 2 * Suc (msbShift p) \<le> 64"

definition sk_positions :: "skewed_indexing \<Rightarrow> addr \<Rightarrow> (nat \<times> nat) list" where
  "sk_positions p a = map (\<lambda>way. (unat (sk_extractSet p a way), way)) [0..<assoc p]"

definition sk_regenerate :: "skewed_indexing \<Rightarrow> addr \<Rightarrow> nat \<times> nat \<Rightarrow> addr" where
  "sk_regenerate p tag pos = sk_regenerateAddr p tag (word_of_nat (fst pos)) (snd pos)"

definition sk_extractTag :: "skewed_indexing \<Rightarrow> addr \<Rightarrow> addr" where
  "sk_extractTag p a = drop_bit (tagShift p) a"

lemma fits_skew:
  assumes "0 < msbShift p" "msbShift p < 64"
  shows "fits (msbShift p) (skew p a way)"
proof -
  let ?a1 = "bits_val a (msbShift p) 0"
  let ?a2 = "bits_val a (2 * (msbShift p + 1) - 1) (msbShift p + 1)"
  have "fits (msbShift p) ?a1" and "fits (msbShift p) ?a2" by (rule fits_bits_val)+
  then show ?thesis unfolding skew_def Let_def using assms
    by (intro fits_hash_iter) (auto simp del: One_nat_def add_Suc_right intro: fits_xor)
qed

lemma bit_sk_extractSet:
  assumes "sk_wf p"
  shows "bit (sk_extractSet p a way) i \<longleftrightarrow> bit (skew p (drop_bit (setShift p) a) way) i"
proof -
  have m: "0 < msbShift p" "msbShift p < 64" "msbShift p < 31" "setMask p = mask (Suc (msbShift p))"
    using assms by (auto simp: sk_wf_def wf_indexing_def)
  have "i \<le> msbShift p" if "bit (skew p (drop_bit (setShift p) a) way) i"
    using fitsD [OF fits_skew that] m by blast
  then show ?thesis using m by (auto simp: sk_extractSet_def bits_simps)
qed

lemma sk_regenerateAddr_extract:
  assumes wf: "sk_wf p"
  shows "sk_regenerateAddr p (sk_extractTag p a) (sk_extractSet p a way) way =
    block_addr (setShift p) a"
proof -
  let ?m = "msbShift p" and ?b = "drop_bit (setShift p) a"
  define s where "s = push_bit (?m + 1) (sk_extractTag p a) OR ucast (sk_extractSet p a way)"
  have m: "0 < ?m" "?m < 64" "?m < 31" "setMask p = mask (Suc ?m)" "tagShift p = setShift p + Suc ?m"
    "setShift p + 2 * Suc ?m \<le> 64"
    using wf by (auto simp: sk_wf_def wf_indexing_def)
  have sfit: "i \<le> ?m" if "bit (skew p ?b way) i" for i
    using fitsD [OF fits_skew that] m by blast
  have bit_s: "bit s i \<longleftrightarrow> (if i \<le> ?m then bit (skew p ?b way) i else i < 64 \<and> bit ?b i)" for i
  proof (cases "i \<le> ?m")
    case True
    with m show ?thesis by (auto simp: s_def bits_simps bit_sk_extractSet [OF wf])
  next
    case False
    then have "setShift p + Suc ?m + (i - Suc ?m) = setShift p + i" by simp
    with False m sfit [of i] show ?thesis
      by (auto simp: s_def bits_simps bit_sk_extractSet [OF wf] sk_extractTag_def dest: bit_imp_le_length)
  qed
  have low: "bits_val s ?m 0 = skew p ?b way"
    by (rule word_eq_by_bits) (auto simp: bit_bits_val bit_s dest: sfit)
  have high: "bits_val s (2 * (?m + 1) - 1) (?m + 1) = bits_val ?b (2 * (?m + 1) - 1) (?m + 1)"
    using m by (intro word_eq_by_bits) (auto simp: bit_bits_val bit_s dest: bit_imp_le_length)
  have "deskew p s way = bits_val ?b ?m 0" by (rule deskew_skew [OF m(1,2) low high])
  then have r: "sk_regenerateAddr p (sk_extractTag p a) (sk_extractSet p a way) way =
      push_bit (tagShift p) (sk_extractTag p a) OR
      push_bit (setShift p) (bits_val ?b ?m 0 AND ucast (setMask p))"
    by (simp only: sk_regenerateAddr_def Let_def s_def)
  show ?thesis
  proof (rule word_eq_by_bits)
    fix i
    show "bit (sk_regenerateAddr p (sk_extractTag p a) (sk_extractSet p a way) way) i =
        bit (block_addr (setShift p) a) i"
      unfolding r using m by (cases "tagShift p \<le> i")
        (auto simp: bits_simps sk_extractTag_def dest: bit_imp_le_length)
  qed
qed

interpretation sk: indexing_policy sk_wf sk_extractTag sk_positions sk_regenerate
  "\<lambda>p. block_addr (setShift p)"
proof
  fix p :: skewed_indexing and a b :: addr and pos :: "nat \<times> nat"
  assume wf: "sk_wf p"
  show "pos \<in> set (sk_positions p a) \<Longrightarrow>
      sk_regenerate p (sk_extractTag p a) pos = block_addr (setShift p) a"
    by (auto simp: sk_positions_def sk_regenerate_def sk_regenerateAddr_extract [OF wf])
  show "sk_positions p a \<noteq> []" using wf by (simp add: sk_positions_def sk_wf_def wf_indexing_def)
  show "distinct (sk_positions p a)" by (simp add: sk_positions_def distinct_map inj_on_def)
  assume eq: "block_addr (setShift p) a = block_addr (setShift p) b"
  show "sk_positions p a = sk_positions p b"
    using eq by (simp add: sk_positions_def sk_extractSet_def block_addr_eq_iff)
  have "setShift p \<le> tagShift p" using wf by (simp add: sk_wf_def wf_indexing_def)
  then show "sk_extractTag p a = sk_extractTag p b"
    by (simp add: sk_extractTag_def block_addr_drop_bit [OF eq])
qed

section \<open>The constructor\<close>

lemma sk_wf_new:
  assumes "new_skewed sz entry_size assc = Inr p"
  shows "sk_wf p"
proof -
  from assms obtain b lg where b: "new_base_indexing sz entry_size assc = Inr b"
    and lg: "floorLog2 4 (ucast (numSets b)) = Inr lg" "setShift b + 2 * lg \<le> 64" "2 < numSets b"
    and p: "p = base_indexing.extend b \<lparr>msbShift = lg - 1\<rparr>"
    by (auto simp: new_skewed_def result_simps)
  let ?n = "numSets b"
  from b have pow: "isPowerOf2 ?n" and ts: "\<exists>l. floorLog2 4 (ucast ?n) = Inr l \<and> tagShift b = setShift b + l"
    by (auto simp: new_base_indexing_def Let_def result_simps)
  from pow obtain n where n: "n < 32" "?n = 2 ^ n" by (auto simp: isPowerOf2_iff)
  have u: "unat (ucast ?n :: 64 word) = 2 ^ n"
    using n by (simp add: unsigned_ucast_eq take_bit_nat_eq_self unat_power2)
  have "(2::nat) ^ n < 2 ^ 32" using n(1) by (rule power_strict_increasing) simp
  then have "is_floor_log (unat (ucast ?n :: 64 word)) lg"
    using lg(1) u n floorLog2_is_floor_log [of "ucast ?n" 4]
    by (auto simp: word_gt_0 unat_gt_0 [symmetric] simp del: unat_gt_0)
  moreover have "is_floor_log (2 ^ n) n" by (simp add: is_floor_log_def)
  ultimately have lgn: "lg = n" using u by (metis is_floor_log_unique)
  have n1: "1 < n"
  proof (rule ccontr)
    assume "\<not> 1 < n"
    then have "n = 0 \<or> n = 1" by auto
    with lg(3) n(2) show False by auto
  qed
  have "tagShift b < 64" using ts lg(1,2) lgn n1 by auto
  from wf_indexing_new [OF b this] obtain k where k: "wf_indexing k b" by blast
  then have "unat (2 ^ k :: u32) = unat (2 ^ n :: u32)" "k < 32" using n(2) by (simp_all add: wf_indexing_def)
  then have "k = n" using n(1) by (simp add: unat_power2)
  moreover have "numSets p = numSets b" "setMask p = setMask b" "tagShift p = tagShift b"
    "setShift p = setShift b" "assoc p = assoc b" "sets p = sets b" "msbShift p = lg - 1"
    unfolding p by (cases b; simp add: base_indexing.extend_def)+
  ultimately show ?thesis using k n1 lgn lg(2) by (simp add: sk_wf_def wf_indexing_def)
qed

text \<open>Claim C22. The skewed policy loses no address: for every configuration its constructor accepts
  and every way, the address regenerated from a block's tag and its skewed set is the block
  address that was inserted, so the skewing functions are undone exactly by \<^verbatim>\<open>deskew\<close>.\<close>

theorem skewed_regenerate:
  assumes "new_skewed sz entry_size assc = Inr p"
  shows "sk_regenerateAddr p (sk_extractTag p a) (sk_extractSet p a way) way = block_addr (setShift p) a"
  by (rule sk_regenerateAddr_extract [OF sk_wf_new [OF assms]])

theorem skewed_regenerate_witness:
  "\<exists>p. new_skewed 4096 64 4 = Inr p \<and>
     sk_regenerateAddr p (sk_extractTag p 0x12345) (sk_extractSet p 0x12345 3) 3 = 0x12340"
proof -
  have "is_ok (new_skewed 4096 64 4)" by code_simp
  then obtain p where p: "new_skewed 4096 64 4 = Inr p" by (auto simp: is_ok_iff)
  have "bind_result (new_skewed 4096 64 4) (\<lambda>p. Inr (setShift p)) = Inr 6" by code_simp
  then have "setShift p = 6" by (simp add: p)
  with skewed_regenerate [OF p, of "0x12345" 3] p show ?thesis
    by (simp add: block_addr_def mask_eq_exp_minus_1)
qed

end
