(* ===== verification/Sat_Counter.thy ===== *)
theory Sat_Counter
  imports Int_Math
begin

text \<open>
  \<^verbatim>\<open>GenericSatCounter\<close> of \<^verbatim>\<open>base/sat_counter.hh\<close>, over an unsigned integer type of any width.
  The replacement policies and the prefetchers build their confidence and re-reference counters
  from it. The \<^verbatim>\<open>long long\<close> argument of the compound assignments is an \<open>int\<close>.
\<close>

section \<open>The counter\<close>

record (overloaded) 'a sat_counter =
  initialVal :: "'a word"
  maxVal :: "'a word"
  counter :: "'a word"

text \<open>The constructor computes the bound with a 64-bit shift before it checks the width.\<close>

definition new_sat_counter :: "nat \<Rightarrow> 'a::len word \<Rightarrow> 'a sat_counter result" where
  "new_sat_counter bts initial_val =
     require (bts < 64) Undefined
     (let mx = ucast (push_bit bts (1::64 word) - 1) :: 'a word
      in require (bts \<le> LENGTH('a)) Fatal
         (require (initial_val \<le> mx) Fatal
         (Inr \<lparr>initialVal = initial_val, maxVal = mx, counter = initial_val\<rparr>)))"

definition sat_inc :: "'a::len sat_counter \<Rightarrow> 'a sat_counter" where
  "sat_inc c = (if counter c < maxVal c then c\<lparr>counter := counter c + 1\<rparr> else c)"

definition sat_dec :: "'a::len sat_counter \<Rightarrow> 'a sat_counter" where
  "sat_dec c = (if 0 < counter c then c\<lparr>counter := counter c - 1\<rparr> else c)"

definition sat_post_inc :: "'a::len sat_counter \<Rightarrow> 'a sat_counter \<times> 'a sat_counter" where
  "sat_post_inc c = (c, sat_inc c)"

definition sat_post_dec :: "'a::len sat_counter \<Rightarrow> 'a sat_counter \<times> 'a sat_counter" where
  "sat_post_dec c = (c, sat_dec c)"

definition sat_shr :: "'a::len sat_counter \<Rightarrow> int \<Rightarrow> 'a sat_counter result" where
  "sat_shr c shift = require (0 \<le> shift) Assert
     (Inr (c\<lparr>counter := drop_bit (nat shift) (counter c)\<rparr>))"

definition sat_shl :: "'a::len sat_counter \<Rightarrow> int \<Rightarrow> 'a sat_counter result" where
  "sat_shl c shift = require (0 \<le> shift) Assert
     (let x = push_bit (nat shift) (counter c)
      in Inr (c\<lparr>counter := if maxVal c < x then maxVal c else x\<rparr>))"

definition sat_add_nonneg :: "'a::len sat_counter \<Rightarrow> int \<Rightarrow> 'a sat_counter" where
  "sat_add_nonneg c v =
     (if v \<le> uint (maxVal c - counter c) then c\<lparr>counter := counter c + word_of_int v\<rparr>
      else c\<lparr>counter := maxVal c\<rparr>)"

definition sat_sub_nonneg :: "'a::len sat_counter \<Rightarrow> int \<Rightarrow> 'a sat_counter" where
  "sat_sub_nonneg c v =
     (if v < uint (counter c) then c\<lparr>counter := counter c - word_of_int v\<rparr>
      else c\<lparr>counter := 0\<rparr>)"

definition sat_add :: "'a::len sat_counter \<Rightarrow> int \<Rightarrow> 'a sat_counter" where
  "sat_add c v = (if 0 \<le> v then sat_add_nonneg c v else sat_sub_nonneg c (- v))"

definition sat_sub :: "'a::len sat_counter \<Rightarrow> int \<Rightarrow> 'a sat_counter" where
  "sat_sub c v = (if 0 \<le> v then sat_sub_nonneg c v else sat_add_nonneg c (- v))"

definition sat_reset :: "'a::len sat_counter \<Rightarrow> 'a sat_counter" where
  "sat_reset c = c\<lparr>counter := initialVal c\<rparr>"

definition isSaturated :: "'a::len sat_counter \<Rightarrow> bool" where
  "isSaturated c \<longleftrightarrow> counter c = maxVal c"

text \<open>The difference \<^verbatim>\<open>saturate\<close> returns is a \<^verbatim>\<open>uint8_t\<close> at every width.\<close>

definition saturate :: "'a::len sat_counter \<Rightarrow> u8 \<times> 'a sat_counter" where
  "saturate c = (ucast (maxVal c - counter c), c\<lparr>counter := maxVal c\<rparr>)"

definition sat_swap ::
  "'a::len sat_counter \<Rightarrow> 'a sat_counter \<Rightarrow> 'a sat_counter \<times> 'a sat_counter" where
  "sat_swap a b = (b, a)"

section \<open>The counter stays within its bounds\<close>

definition sat_inv :: "'a::len sat_counter \<Rightarrow> bool" where
  "sat_inv c \<longleftrightarrow> initialVal c \<le> maxVal c \<and> counter c \<le> maxVal c"

lemma sat_inv_new: "new_sat_counter bts v = Inr c \<Longrightarrow> sat_inv c"
  by (auto simp: new_sat_counter_def Let_def result_simps sat_inv_def)

lemma sat_inv_inc: "sat_inv c \<Longrightarrow> sat_inv (sat_inc c)"
  by (auto simp: sat_inv_def sat_inc_def intro: inc_le)

lemma sat_inv_dec: "sat_inv c \<Longrightarrow> sat_inv (sat_dec c)"
proof -
  have "unat (counter c - 1) \<le> unat (counter c)" if "0 < counter c"
    using that by (simp add: unat_minus_one word_gt_0)
  then show "sat_inv c \<Longrightarrow> sat_inv (sat_dec c)"
    by (auto simp: sat_inv_def sat_dec_def word_le_nat_alt)
qed

lemma sat_inv_shr: "sat_inv c \<Longrightarrow> sat_shr c s = Inr d \<Longrightarrow> sat_inv d"
proof -
  assume a: "sat_inv c" "sat_shr c s = Inr d"
  have "unat (drop_bit (nat s) (counter c)) \<le> unat (counter c)"
    by (simp add: unat_drop_bit_eq_div)
  with a show ?thesis
    by (auto simp: sat_inv_def sat_shr_def result_simps word_le_nat_alt)
qed

lemma sat_inv_shl: "sat_inv c \<Longrightarrow> sat_shl c s = Inr d \<Longrightarrow> sat_inv d"
  by (auto simp: sat_inv_def sat_shl_def Let_def result_simps)

lemma uint_sub_max:
  assumes "sat_inv c"
  shows "uint (maxVal c - counter c) = uint (maxVal c) - uint (counter c)"
  using assms by (simp add: sat_inv_def uint_minus_simple_alt)

lemma uint_sat_add_nonneg:
  assumes "sat_inv c" and "0 \<le> v"
  shows "uint (counter (sat_add_nonneg c v)) = min (uint (maxVal c)) (uint (counter c) + v)"
proof (cases "v \<le> uint (maxVal c - counter c)")
  case True
  then have le: "uint (counter c) + v \<le> uint (maxVal c)" using uint_sub_max [OF assms(1)] by simp
  moreover have "uint (maxVal c) < 2 ^ LENGTH('a)" by simp
  ultimately have "uint (counter c) + v < 2 ^ LENGTH('a)" by (rule le_less_trans)
  then have "uint (counter c + word_of_int v) = uint (counter c) + v"
    using assms(2) by (simp add: uint_word_ariths uint_word_of_int mod_simps)
  with True le show ?thesis by (simp add: sat_add_nonneg_def)
next
  case False
  then show ?thesis using uint_sub_max [OF assms(1)] by (simp add: sat_add_nonneg_def)
qed

lemma uint_sat_sub_nonneg:
  assumes "0 \<le> v"
  shows "uint (counter (sat_sub_nonneg c v)) = max 0 (uint (counter c) - v)"
proof (cases "v < uint (counter c)")
  case True
  moreover have "uint (counter c) < 2 ^ LENGTH('a)" by simp
  ultimately have "uint (counter c) - v < 2 ^ LENGTH('a)" "0 \<le> uint (counter c) - v"
    using assms by linarith+
  then have "uint (counter c - word_of_int v) = uint (counter c) - v"
    using assms by (simp add: uint_word_ariths uint_word_of_int mod_simps)
  with True show ?thesis by (simp add: sat_sub_nonneg_def)
next
  case False
  then show ?thesis by (simp add: sat_sub_nonneg_def)
qed

lemma sat_fields_unchanged [simp]:
  "maxVal (sat_add_nonneg c v) = maxVal c" "initialVal (sat_add_nonneg c v) = initialVal c"
  "maxVal (sat_sub_nonneg c v) = maxVal c" "initialVal (sat_sub_nonneg c v) = initialVal c"
  "maxVal (sat_add c v) = maxVal c" "initialVal (sat_add c v) = initialVal c"
  "maxVal (sat_inc c) = maxVal c" "maxVal (sat_dec c) = maxVal c"
  "maxVal (sat_reset c) = maxVal c" "maxVal (snd (saturate c)) = maxVal c"
  by (auto simp: sat_add_nonneg_def sat_sub_nonneg_def sat_add_def sat_inc_def sat_dec_def
      sat_reset_def saturate_def)

lemma uint_sat_add:
  assumes "sat_inv c"
  shows "uint (counter (sat_add c v)) = max 0 (min (uint (maxVal c)) (uint (counter c) + v))"
  using assms uint_sat_add_nonneg [OF assms, of v] uint_sat_sub_nonneg [of "- v" c]
  by (auto simp: sat_add_def sat_inv_def word_le_def)

lemma sat_inv_add: "sat_inv c \<Longrightarrow> sat_inv (sat_add c v)"
  using uint_sat_add [of c v] by (auto simp: sat_inv_def word_le_def)

lemma sat_inv_reset: "sat_inv c \<Longrightarrow> sat_inv (sat_reset c)"
  by (simp add: sat_inv_def sat_reset_def)

lemma sat_inv_saturate: "sat_inv c \<Longrightarrow> sat_inv (snd (saturate c))"
  by (simp add: sat_inv_def saturate_def)

lemmas sat_inv_ops = sat_inv_inc sat_inv_dec sat_inv_add sat_inv_reset sat_inv_saturate

text \<open>A saturating counter clamps: from any counter the constructor returns, adding or
  subtracting any amount gives the exact sum clamped to the interval from 0 to the maximum, and
  no operation leaves the interval.\<close>

theorem sat_counter_clamps:
  assumes "sat_inv c"
  shows "uint (counter (sat_add c v)) = max 0 (min (uint (maxVal c)) (uint (counter c) + v)) \<and>
    uint (counter (sat_sub c v)) = max 0 (min (uint (maxVal c)) (uint (counter c) - v)) \<and>
    uint (counter (sat_inc c)) = min (uint (maxVal c)) (uint (counter c) + 1) \<and>
    uint (counter (sat_dec c)) = max 0 (uint (counter c) - 1) \<and>
    sat_inv (sat_add c v) \<and> sat_inv (sat_sub c v) \<and> sat_inv (sat_inc c) \<and> sat_inv (sat_dec c) \<and>
    sat_inv (sat_reset c) \<and> sat_inv (snd (saturate c)) \<and> isSaturated (snd (saturate c))"
proof -
  have sub: "sat_sub c v = sat_add c (- v)" if "v \<noteq> 0"
    using that by (auto simp: sat_sub_def sat_add_def)
  have sub0: "counter (sat_sub c 0) = counter c" "maxVal (sat_sub c 0) = maxVal c" "initialVal (sat_sub c 0) = initialVal c"
    by (auto simp: sat_sub_def sat_sub_nonneg_def) (metis uint_0_iff uint_nonnegative order_le_less)
  have s: "uint (counter (sat_sub c v)) = max 0 (min (uint (maxVal c)) (uint (counter c) - v)) \<and> sat_inv (sat_sub c v)"
  proof (cases "v = 0")
    case True
    then show ?thesis using assms sub0 by (auto simp: sat_inv_def word_le_def)
  next
    case False
    then show ?thesis using sub uint_sat_add [OF assms, of "- v"] sat_inv_add [OF assms, of "- v"] by simp
  qed
  have i: "uint (counter (sat_inc c)) = min (uint (maxVal c)) (uint (counter c) + 1)"
  proof (cases "counter c < maxVal c")
    case True
    then have "uint (counter c) + 1 < 2 ^ LENGTH('a)"
      using unsigned_less [of "maxVal c", where ?'a = int] by (simp only: word_less_def)
    then have "uint (counter c + 1) = uint (counter c) + 1"
      by (simp add: uint_word_ariths mod_pos_pos_trivial)
    with True show ?thesis by (simp add: sat_inc_def word_less_def)
  next
    case False
    with assms show ?thesis by (auto simp: sat_inc_def sat_inv_def word_less_def word_le_def)
  qed
  have d: "uint (counter (sat_dec c)) = max 0 (uint (counter c) - 1)"
  proof (cases "0 < counter c")
    case True
    then have "0 \<le> uint (counter c) - 1" "uint (counter c) - 1 < 2 ^ LENGTH('a)"
      using unsigned_less [of "counter c", where ?'a = int] unfolding word_less_def unsigned_0 by linarith+
    moreover have "uint (counter c - 1) = (uint (counter c) - 1) mod 2 ^ LENGTH('a)"
      by (simp add: uint_word_ariths)
    ultimately have "uint (counter c - 1) = uint (counter c) - 1" by (simp only: mod_pos_pos_trivial)
    with True show ?thesis by (simp add: sat_dec_def word_less_def)
  next
    case False
    then have "counter c = 0" by (simp add: word_gt_0)
    then show ?thesis by (simp add: sat_dec_def)
  qed
  show ?thesis using uint_sat_add [OF assms] s i d sat_inv_ops [OF assms]
    by (simp add: isSaturated_def saturate_def)
qed

theorem sat_counter_clamps_witness:
  "uint (counter (sat_add (\<lparr>initialVal = 0, maxVal = 7, counter = 5\<rparr> :: 8 sat_counter) 4)) = 7"
  using sat_counter_clamps [of "\<lparr>initialVal = 0, maxVal = 7, counter = 5\<rparr> :: 8 sat_counter" 4]
  by (simp add: sat_inv_def)

text \<open>Two operations of the counter break their contract: a left shift drops the bits it
  shifts out of the word instead of saturating, and \<^verbatim>\<open>saturate\<close> returns the difference it added
  only modulo 256.\<close>

theorem sat_counter_wide_operations_wrong:
  "(\<exists>c d :: 8 sat_counter. sat_inv c \<and> sat_shl c 1 = Inr d \<and> counter c = 0x80 \<and> counter d = 0) \<and>
   (\<exists>c :: 16 sat_counter. sat_inv c \<and> uint (maxVal c) - uint (counter c) = 0x100 \<and> fst (saturate c) = 0)"
proof
  show "\<exists>c d :: 8 sat_counter. sat_inv c \<and> sat_shl c 1 = Inr d \<and> counter c = 0x80 \<and> counter d = 0"
    by (intro exI [of _ "\<lparr>initialVal = 0, maxVal = 0xFF, counter = 0x80\<rparr>"]
        exI [of _ "\<lparr>initialVal = 0, maxVal = 0xFF, counter = 0\<rparr>"]) (simp add: sat_inv_def sat_shl_def)
  show "\<exists>c :: 16 sat_counter. sat_inv c \<and> uint (maxVal c) - uint (counter c) = 0x100 \<and> fst (saturate c) = 0"
    by (intro exI [of _ "\<lparr>initialVal = 0, maxVal = 0x1FF, counter = 0xFF\<rparr>"]) (simp add: sat_inv_def saturate_def)
qed

end
