(* ===== verification/Replacement.thy ===== *)
theory Replacement
  imports Sat_Counter
begin

text \<open>
  The replacement policies of \<^verbatim>\<open>mem/cache/replacement_policies\<close> (the tree policy has its own
  theory). Entries are handles; the shared pointers to their replacement data are a store
  \<open>nat \<Rightarrow> data\<close>, so that \<^verbatim>\<open>getVictim\<close>, which in some policies updates the data of its candidates,
  returns the victim and the new store. The current tick and the values drawn from the random
  number generator are arguments. The contract every policy keeps is the locale
  \<open>replacement_policy\<close>.
\<close>

section \<open>Scanning the candidates\<close>

text \<open>The loop shared by the policies: keep the current victim unless a candidate is better.\<close>

fun scan_victim :: "(nat \<Rightarrow> nat \<Rightarrow> bool) \<Rightarrow> nat \<Rightarrow> nat list \<Rightarrow> nat" where
  "scan_victim better victim [] = victim"
| "scan_victim better victim (c # cs) =
     scan_victim better (if better c victim then c else victim) cs"

section \<open>LRU, FIFO, LFU, MRU, BIP\<close>

record lru_data =
  lastTouchTick :: tick

definition lru_invalidate :: "lru_data \<Rightarrow> lru_data" where
  "lru_invalidate d = d\<lparr>lastTouchTick := 0\<rparr>"

definition lru_touch :: "tick \<Rightarrow> lru_data \<Rightarrow> lru_data" where
  "lru_touch now d = d\<lparr>lastTouchTick := now\<rparr>"

definition lru_reset :: "tick \<Rightarrow> lru_data \<Rightarrow> lru_data" where
  "lru_reset now d = d\<lparr>lastTouchTick := now\<rparr>"

definition lru_getVictim ::
  "(nat \<Rightarrow> lru_data) \<Rightarrow> nat list \<Rightarrow> (nat \<times> (nat \<Rightarrow> lru_data)) result" where
  "lru_getVictim rd cs = require (0 < length cs) Assert
     (Inr (scan_victim (\<lambda>c v. lastTouchTick (rd c) < lastTouchTick (rd v)) (cs ! 0) cs, rd))"

definition lru_instantiateEntry :: lru_data where
  "lru_instantiateEntry = \<lparr>lastTouchTick = 0\<rparr>"

text \<open>\<open>r\<close> is the value of \<^verbatim>\<open>random_mt.random<unsigned>(1, 100)\<close>.\<close>

definition bip_reset :: "nat \<Rightarrow> nat \<Rightarrow> tick \<Rightarrow> lru_data \<Rightarrow> lru_data" where
  "bip_reset btp r now d = (if r \<le> btp then d\<lparr>lastTouchTick := now\<rparr> else d\<lparr>lastTouchTick := 1\<rparr>)"

record fifo_data =
  tickInserted :: tick

definition fifo_invalidate :: "'a fifo_data_scheme \<Rightarrow> 'a fifo_data_scheme" where
  "fifo_invalidate d = d\<lparr>tickInserted := 0\<rparr>"

definition fifo_touch :: "'a fifo_data_scheme \<Rightarrow> 'a fifo_data_scheme" where
  "fifo_touch d = d"

definition fifo_reset :: "tick \<Rightarrow> 'a fifo_data_scheme \<Rightarrow> 'a fifo_data_scheme" where
  "fifo_reset now d = d\<lparr>tickInserted := now\<rparr>"

definition fifo_pick :: "(nat \<Rightarrow> 'a fifo_data_scheme) \<Rightarrow> nat list \<Rightarrow> nat" where
  "fifo_pick rd cs = scan_victim (\<lambda>c v. tickInserted (rd c) < tickInserted (rd v)) (cs ! 0) cs"

definition fifo_getVictim ::
  "(nat \<Rightarrow> fifo_data) \<Rightarrow> nat list \<Rightarrow> (nat \<times> (nat \<Rightarrow> fifo_data)) result" where
  "fifo_getVictim rd cs = require (0 < length cs) Assert (Inr (fifo_pick rd cs, rd))"

definition fifo_instantiateEntry :: fifo_data where
  "fifo_instantiateEntry = \<lparr>tickInserted = 0\<rparr>"

record lfu_data =
  refCount :: u32

definition lfu_invalidate :: "lfu_data \<Rightarrow> lfu_data" where
  "lfu_invalidate d = d\<lparr>refCount := 0\<rparr>"

definition lfu_touch :: "lfu_data \<Rightarrow> lfu_data" where
  "lfu_touch d = d\<lparr>refCount := refCount d + 1\<rparr>"

definition lfu_reset :: "lfu_data \<Rightarrow> lfu_data" where
  "lfu_reset d = d\<lparr>refCount := 1\<rparr>"

definition lfu_getVictim ::
  "(nat \<Rightarrow> lfu_data) \<Rightarrow> nat list \<Rightarrow> (nat \<times> (nat \<Rightarrow> lfu_data)) result" where
  "lfu_getVictim rd cs = require (0 < length cs) Assert
     (Inr (scan_victim (\<lambda>c v. refCount (rd c) < refCount (rd v)) (cs ! 0) cs, rd))"

definition lfu_instantiateEntry :: lfu_data where
  "lfu_instantiateEntry = \<lparr>refCount = 0\<rparr>"

record mru_data =
  mruTouchTick :: tick

definition mru_invalidate :: "mru_data \<Rightarrow> mru_data" where
  "mru_invalidate d = d\<lparr>mruTouchTick := 0\<rparr>"

definition mru_touch :: "tick \<Rightarrow> mru_data \<Rightarrow> mru_data" where
  "mru_touch now d = d\<lparr>mruTouchTick := now\<rparr>"

definition mru_reset :: "tick \<Rightarrow> mru_data \<Rightarrow> mru_data" where
  "mru_reset now d = d\<lparr>mruTouchTick := now\<rparr>"

text \<open>The scan stops at the first invalidated candidate.\<close>

fun mru_scan :: "(nat \<Rightarrow> mru_data) \<Rightarrow> nat \<Rightarrow> nat list \<Rightarrow> nat" where
  "mru_scan rd victim [] = victim"
| "mru_scan rd victim (c # cs) =
     (if mruTouchTick (rd c) = 0 then c
      else if mruTouchTick (rd victim) < mruTouchTick (rd c) then mru_scan rd c cs
      else mru_scan rd victim cs)"

definition mru_getVictim ::
  "(nat \<Rightarrow> mru_data) \<Rightarrow> nat list \<Rightarrow> (nat \<times> (nat \<Rightarrow> mru_data)) result" where
  "mru_getVictim rd cs = require (0 < length cs) Assert (Inr (mru_scan rd (cs ! 0) cs, rd))"

definition mru_instantiateEntry :: mru_data where
  "mru_instantiateEntry = \<lparr>mruTouchTick = 0\<rparr>"

section \<open>Random\<close>

record random_data =
  valid :: bool

definition random_invalidate :: "random_data \<Rightarrow> random_data" where
  "random_invalidate d = d\<lparr>valid := False\<rparr>"

definition random_touch :: "random_data \<Rightarrow> random_data" where
  "random_touch d = d"

definition random_reset :: "random_data \<Rightarrow> random_data" where
  "random_reset d = d\<lparr>valid := True\<rparr>"

text \<open>\<open>r\<close> is the value of \<^verbatim>\<open>random_mt.random<unsigned>(0, candidates.size() - 1)\<close>.\<close>

definition random_getVictim ::
  "nat \<Rightarrow> (nat \<Rightarrow> random_data) \<Rightarrow> nat list \<Rightarrow> (nat \<times> (nat \<Rightarrow> random_data)) result" where
  "random_getVictim r rd cs = require (0 < length cs) Assert
     (require (r < length cs) Undefined
     (Inr (case first_match (\<lambda>c. \<not> valid (rd c)) cs of Some c \<Rightarrow> c | None \<Rightarrow> cs ! r, rd)))"

definition random_instantiateEntry :: random_data where
  "random_instantiateEntry = \<lparr>valid = False\<rparr>"

section \<open>Second chance\<close>

record sc_data = fifo_data +
  hasSecondChance :: bool

definition useSecondChance :: "tick \<Rightarrow> sc_data \<Rightarrow> sc_data" where
  "useSecondChance now d = (fifo_reset now d)\<lparr>hasSecondChance := False\<rparr>"

definition sc_invalidate :: "sc_data \<Rightarrow> sc_data" where
  "sc_invalidate d = (fifo_invalidate d)\<lparr>hasSecondChance := False\<rparr>"

definition sc_touch :: "sc_data \<Rightarrow> sc_data" where
  "sc_touch d = (fifo_touch d)\<lparr>hasSecondChance := True\<rparr>"

definition sc_reset :: "tick \<Rightarrow> sc_data \<Rightarrow> sc_data" where
  "sc_reset now d = (fifo_reset now d)\<lparr>hasSecondChance := False\<rparr>"

definition sc_instantiateEntry :: sc_data where
  "sc_instantiateEntry = \<lparr>tickInserted = 0, hasSecondChance = False\<rparr>"

text \<open>
  The search loop of \<^verbatim>\<open>getVictim\<close>: every round takes the chance of one candidate away, so the
  number of candidates that still have one decreases.
\<close>

lemma scan_victim_in: "scan_victim b v cs \<in> insert v (set cs)"
proof (induction cs arbitrary: v)
  case (Cons c cs)
  show ?case using Cons.IH [of "if b c v then c else v"] by (auto split: if_splits)
qed simp

lemma fifo_pick_in: "cs \<noteq> [] \<Longrightarrow> fifo_pick rd cs \<in> set cs"
  unfolding fifo_pick_def
  using scan_victim_in [of "\<lambda>c v. tickInserted (rd c) < tickInserted (rd v)" "cs ! 0" cs]
  by (simp add: insert_absorb)

function sc_loop :: "tick \<Rightarrow> (nat \<Rightarrow> sc_data) \<Rightarrow> nat list \<Rightarrow> nat \<times> (nat \<Rightarrow> sc_data)" where
  "sc_loop now rd cs =
     (let v = fifo_pick rd cs
      in if cs \<noteq> [] \<and> hasSecondChance (rd v)
         then sc_loop now (rd(v := useSecondChance now (rd v))) cs
         else (v, rd))"
  by pat_completeness auto
termination
proof (relation "measure (\<lambda>(now, rd, cs). card {c \<in> set cs. hasSecondChance (rd c)})")
  fix now :: tick and rd :: "nat \<Rightarrow> sc_data" and cs :: "nat list" and v
  assume v: "v = fifo_pick rd cs" and *: "cs \<noteq> [] \<and> hasSecondChance (rd v)"
  have "{c \<in> set cs. hasSecondChance ((rd(v := useSecondChance now (rd v))) c)} \<subset>
      {c \<in> set cs. hasSecondChance (rd c)}"
    using * v fifo_pick_in [of cs rd] by (auto simp: useSecondChance_def)
  then show "((now, rd(v := useSecondChance now (rd v)), cs), now, rd, cs) \<in>
      measure (\<lambda>(now, rd, cs). card {c \<in> set cs. hasSecondChance (rd c)})"
    by (simp add: psubset_card_mono)
qed simp

declare sc_loop.simps [simp del]

definition sc_getVictim ::
  "tick \<Rightarrow> (nat \<Rightarrow> sc_data) \<Rightarrow> nat list \<Rightarrow> (nat \<times> (nat \<Rightarrow> sc_data)) result" where
  "sc_getVictim now rd cs = require (0 < length cs) Assert
     (case first_match (\<lambda>c. tickInserted (rd c) = 0 \<and> \<not> hasSecondChance (rd c)) cs of
        Some c \<Rightarrow> Inr (c, rd)
      | None \<Rightarrow> Inr (sc_loop now rd cs))"

section \<open>Bimodal re-reference interval prediction\<close>

record brrip_data =
  rrpv :: "8 sat_counter"
  brrip_valid :: bool

definition brrip_instantiateEntry :: "nat \<Rightarrow> brrip_data result" where
  "brrip_instantiateEntry numRRPVBits =
     bind_result (new_sat_counter numRRPVBits 0) (\<lambda>c. Inr \<lparr>rrpv = c, brrip_valid = False\<rparr>)"

definition brrip_invalidate :: "brrip_data \<Rightarrow> brrip_data" where
  "brrip_invalidate d = d\<lparr>brrip_valid := False\<rparr>"

definition brrip_touch :: "bool \<Rightarrow> brrip_data \<Rightarrow> brrip_data" where
  "brrip_touch hitPriority d =
     (if hitPriority then d\<lparr>rrpv := sat_reset (rrpv d)\<rparr> else d\<lparr>rrpv := sat_dec (rrpv d)\<rparr>)"

text \<open>\<open>r\<close> is the value of \<^verbatim>\<open>random_mt.random<unsigned>(1, 100)\<close>.\<close>

definition brrip_reset :: "nat \<Rightarrow> nat \<Rightarrow> brrip_data \<Rightarrow> brrip_data" where
  "brrip_reset btp r d =
     (let c = snd (saturate (rrpv d)); c' = (if r \<le> btp then sat_dec c else c)
      in d\<lparr>rrpv := c', brrip_valid := True\<rparr>)"

text \<open>The first loop of \<^verbatim>\<open>getVictim\<close>: \<open>Inl\<close> is the early return of an invalid candidate.\<close>

fun brrip_scan :: "(nat \<Rightarrow> brrip_data) \<Rightarrow> nat \<Rightarrow> nat list \<Rightarrow> nat + nat" where
  "brrip_scan rd victim [] = Inr victim"
| "brrip_scan rd victim (c # cs) =
     (if \<not> brrip_valid (rd c) then Inl c
      else if counter (rrpv (rd victim)) < counter (rrpv (rd c)) then brrip_scan rd c cs
      else brrip_scan rd victim cs)"

definition brrip_age :: "u8 \<Rightarrow> nat \<Rightarrow> (nat \<Rightarrow> brrip_data) \<Rightarrow> (nat \<Rightarrow> brrip_data)" where
  "brrip_age diff c rd = rd(c := (rd c)\<lparr>rrpv := sat_add (rrpv (rd c)) (uint diff)\<rparr>)"

definition brrip_getVictim ::
  "(nat \<Rightarrow> brrip_data) \<Rightarrow> nat list \<Rightarrow> (nat \<times> (nat \<Rightarrow> brrip_data)) result" where
  "brrip_getVictim rd cs = require (0 < length cs) Assert
     (case brrip_scan rd (cs ! 0) cs of
        Inl c \<Rightarrow> Inr (c, rd)
      | Inr v \<Rightarrow>
          let (diff, s) = saturate (rrpv (rd v)); rd' = rd(v := (rd v)\<lparr>rrpv := s\<rparr>)
          in Inr (v, if 0 < diff then fold (brrip_age diff) cs rd' else rd'))"

section \<open>Weighted LRU\<close>

record wlru_data =
  last_occ_ptr :: int
  last_touch_tick :: tick

definition wlru_touch :: "tick \<Rightarrow> wlru_data \<Rightarrow> wlru_data" where
  "wlru_touch now d = d\<lparr>last_touch_tick := now\<rparr>"

definition wlru_touch_occ :: "tick \<Rightarrow> int \<Rightarrow> wlru_data \<Rightarrow> wlru_data" where
  "wlru_touch_occ now occupancy d = d\<lparr>last_touch_tick := now, last_occ_ptr := occupancy\<rparr>"

definition wlru_getVictim ::
  "(nat \<Rightarrow> wlru_data) \<Rightarrow> nat list \<Rightarrow> (nat \<times> (nat \<Rightarrow> wlru_data)) result" where
  "wlru_getVictim rd cs = require (0 < length cs) Assert
     (Inr (scan_victim (\<lambda>c v.
        last_occ_ptr (rd c) < last_occ_ptr (rd v) \<or>
        last_occ_ptr (rd c) = last_occ_ptr (rd v) \<and>
          last_touch_tick (rd c) < last_touch_tick (rd v)) (cs ! 0) cs, rd))"

definition wlru_instantiateEntry :: wlru_data where
  "wlru_instantiateEntry = \<lparr>last_occ_ptr = 0, last_touch_tick = 0\<rparr>"

definition wlru_reset :: "tick \<Rightarrow> wlru_data \<Rightarrow> wlru_data" where
  "wlru_reset now d = d\<lparr>last_touch_tick := now\<rparr>"

definition wlru_invalidate :: "wlru_data \<Rightarrow> wlru_data" where
  "wlru_invalidate d = d\<lparr>last_touch_tick := 0\<rparr>"

section \<open>The scan finds a best candidate\<close>

lemma scan_victim_min:
  fixes f :: "nat \<Rightarrow> 'k::linorder"
  assumes "\<And>c v. b c v \<longleftrightarrow> f c < f v" and "x \<in> insert v (set cs)"
  shows "f (scan_victim b v cs) \<le> f x"
  using assms(2)
proof (induction cs arbitrary: v x)
  case Nil
  then show ?case by simp
next
  case (Cons c cs)
  let ?w = "if b c v then c else v"
  have w: "f ?w \<le> f v" "f ?w \<le> f c" by (auto simp: assms(1) not_less)
  show ?case
  proof (cases "x \<in> set cs")
    case True
    then show ?thesis using Cons.IH [of x ?w] by simp
  next
    case False
    have "f (scan_victim b ?w cs) \<le> f ?w" using Cons.IH [of ?w ?w] by simp
    with False Cons.prems w show ?thesis by auto
  qed
qed

lemma scan_victim_hd:
  fixes f :: "nat \<Rightarrow> 'k::linorder"
  assumes "cs \<noteq> []" and "\<And>c v. b c v \<longleftrightarrow> f c < f v"
  shows "scan_victim b (cs ! 0) cs \<in> set cs"
    and "x \<in> set cs \<Longrightarrow> f (scan_victim b (cs ! 0) cs) \<le> f x"
  using scan_victim_in [of b "cs ! 0" cs] scan_victim_min [of b f, OF assms(2)] assms(1)
  by (auto simp: insert_absorb)

lemma mru_scan_in: "mru_scan rd v cs \<in> insert v (set cs)"
  by (induction rd v cs rule: mru_scan.induct) auto

lemma mru_scan_invalid:
  assumes "\<exists>c \<in> set cs. mruTouchTick (rd c) = 0"
  shows "mruTouchTick (rd (mru_scan rd v cs)) = 0"
  using assms by (induction rd v cs rule: mru_scan.induct) auto

lemma mru_scan_max:
  assumes "\<forall>c \<in> set cs. mruTouchTick (rd c) \<noteq> 0" and "x \<in> insert v (set cs)"
  shows "mruTouchTick (rd x) \<le> mruTouchTick (rd (mru_scan rd v cs))"
  using assms
proof (induction cs arbitrary: v x)
  case (Cons c cs)
  let ?w = "if mruTouchTick (rd v) < mruTouchTick (rd c) then c else v"
  have step: "mru_scan rd v (c # cs) = mru_scan rd ?w cs" using Cons.prems(1) by simp
  have "mruTouchTick (rd ?w) \<le> mruTouchTick (rd (mru_scan rd ?w cs))"
    using Cons.IH [of ?w ?w] Cons.prems(1) by simp
  moreover have "mruTouchTick (rd y) \<le> mruTouchTick (rd ?w)" if "y \<in> {v, c}" for y
    using that by (auto simp: not_less)
  ultimately show ?case
    unfolding step using Cons.IH [of x ?w] Cons.prems by (cases "x \<in> set cs") (auto intro: order_trans)
qed simp

section \<open>The second-chance loop\<close>

lemma sc_loop_props:
  assumes "cs \<noteq> []" and "sc_loop now rd cs = (v, rd')"
  shows "v \<in> set cs \<and> \<not> hasSecondChance (rd' v) \<and> (\<forall>e. e \<notin> set cs \<longrightarrow> rd' e = rd e) \<and>
    (\<forall>e. rd' e = rd e \<or> hasSecondChance (rd e) \<and> rd' e = useSecondChance now (rd e))"
  using assms
proof (induction now rd cs rule: sc_loop.induct)
  case (1 now rd cs)
  let ?v = "fifo_pick rd cs"
  have vin: "?v \<in> set cs" by (rule fifo_pick_in [OF "1.prems"(1)])
  show ?case
  proof (cases "hasSecondChance (rd ?v)")
    case True
    let ?rd = "rd(?v := useSecondChance now (rd ?v))"
    have "sc_loop now ?rd cs = (v, rd')"
      using "1.prems" True by (simp add: sc_loop.simps [of now rd cs] Let_def)
    from "1.IH" [OF refl _ "1.prems"(1) this] True "1.prems"(1)
    have ih: "v \<in> set cs" "\<not> hasSecondChance (rd' v)" "\<forall>e. e \<notin> set cs \<longrightarrow> rd' e = ?rd e"
      "\<forall>e. rd' e = ?rd e \<or> hasSecondChance (?rd e) \<and> rd' e = useSecondChance now (?rd e)"
      by simp_all
    have "\<forall>e. rd' e = rd e \<or> hasSecondChance (rd e) \<and> rd' e = useSecondChance now (rd e)"
    proof
      fix e
      show "rd' e = rd e \<or> hasSecondChance (rd e) \<and> rd' e = useSecondChance now (rd e)"
        using spec [OF ih(4), of e] True by (cases "e = ?v") (simp_all add: useSecondChance_def)
    qed
    moreover have "\<forall>e. e \<notin> set cs \<longrightarrow> rd' e = rd e" using ih(3) vin by (metis fun_upd_other)
    ultimately show ?thesis using ih(1,2) by blast
  next
    case False
    with "1.prems" have "v = ?v" "rd' = rd" by (auto simp: sc_loop.simps [of now rd cs] Let_def)
    with False vin show ?thesis by simp
  qed
qed

lemma sc_loop_fifo:
  assumes "cs \<noteq> []" and "sc_loop now rd cs = (v, rd')" and "x \<in> set cs"
  shows "tickInserted (rd' v) \<le> tickInserted (rd' x)"
  using assms
proof (induction now rd cs rule: sc_loop.induct)
  case (1 now rd cs)
  show ?case
  proof (cases "hasSecondChance (rd (fifo_pick rd cs))")
    case True
    let ?rd = "rd(fifo_pick rd cs := useSecondChance now (rd (fifo_pick rd cs)))"
    have "sc_loop now ?rd cs = (v, rd')"
      using "1.prems" True by (simp add: sc_loop.simps [of now rd cs] Let_def)
    from "1.IH" [OF refl _ "1.prems"(1) this "1.prems"(3)] True "1.prems"(1) show ?thesis by simp
  next
    case False
    with "1.prems" have "v = fifo_pick rd cs" "rd' = rd"
      by (auto simp: sc_loop.simps [of now rd cs] Let_def)
    then show ?thesis
      using scan_victim_hd(2) [OF "1.prems"(1), where f = "\<lambda>c. tickInserted (rd c)"] "1.prems"(3)
      by (simp add: fifo_pick_def)
  qed
qed

section \<open>Ageing in BRRIP\<close>

lemma brrip_scan_Inl: "brrip_scan rd v cs = Inl c \<Longrightarrow> c \<in> set cs \<and> \<not> brrip_valid (rd c)"
  by (induction rd v cs rule: brrip_scan.induct) (auto split: if_splits)

lemma brrip_scan_Inr: "brrip_scan rd v cs = Inr w \<Longrightarrow> w \<in> insert v (set cs)"
  by (induction rd v cs rule: brrip_scan.induct) (auto split: if_splits)

lemma brrip_scan_valid: "brrip_scan rd v cs = Inr w \<Longrightarrow> c \<in> set cs \<Longrightarrow> brrip_valid (rd c)"
proof (induction cs arbitrary: v)
  case (Cons d cs)
  let ?u = "if counter (rrpv (rd v)) < counter (rrpv (rd d)) then d else v"
  have "brrip_valid (rd d)" "brrip_scan rd ?u cs = Inr w"
    using Cons.prems(1) by (simp_all split: if_splits)
  with Cons.IH [of ?u] Cons.prems(2) show ?case by auto
qed simp

lemma brrip_scan_max:
  assumes "brrip_scan rd v cs = Inr w" and "x \<in> insert v (set cs)"
  shows "counter (rrpv (rd x)) \<le> counter (rrpv (rd w))"
  using assms
proof (induction cs arbitrary: v x)
  case (Cons c cs)
  let ?u = "if counter (rrpv (rd v)) < counter (rrpv (rd c)) then c else v"
  have step: "brrip_scan rd ?u cs = Inr w" using Cons.prems(1) by (auto split: if_splits)
  have "counter (rrpv (rd ?u)) \<le> counter (rrpv (rd w))" using Cons.IH [OF step, of ?u] by simp
  moreover have "counter (rrpv (rd y)) \<le> counter (rrpv (rd ?u))" if "y \<in> {v, c}" for y
    using that by (auto simp: not_less)
  ultimately show ?case
    using Cons.IH [OF step, of x] Cons.prems(2) by (cases "x \<in> set cs") (auto intro: order_trans)
qed simp

lemma fold_brrip_age_frame: "e \<notin> set cs \<Longrightarrow> fold (brrip_age diff) cs rd e = rd e"
  by (induction cs arbitrary: rd) (auto simp: brrip_age_def)

lemma fold_brrip_age:
  "distinct cs \<Longrightarrow> e \<in> set cs \<Longrightarrow>
    fold (brrip_age diff) cs rd e = (rd e)\<lparr>rrpv := sat_add (rrpv (rd e)) (uint diff)\<rparr>"
proof (induction cs arbitrary: rd)
  case (Cons c cs)
  show ?case
  proof (cases "e = c")
    case True
    with Cons.prems show ?thesis by (simp add: fold_brrip_age_frame) (simp add: brrip_age_def)
  next
    case False
    with Cons.prems Cons.IH [of "brrip_age diff c rd"] show ?thesis by (simp add: brrip_age_def)
  qed
qed simp

section \<open>The contract of a replacement policy\<close>

text \<open>
  The environment \<open>w\<close> carries what the call reads besides its arguments: the current tick, the
  value drawn at random, the shared trees. A call without candidates fails its assertion; an
  admissible call returns one of its candidates and changes the data of no other entry.
\<close>

locale replacement_policy =
  fixes getVictim :: "'w \<Rightarrow> (nat \<Rightarrow> 'rd) \<Rightarrow> nat list \<Rightarrow> (nat \<times> (nat \<Rightarrow> 'rd)) result"
    and admissible :: "'w \<Rightarrow> (nat \<Rightarrow> 'rd) \<Rightarrow> nat list \<Rightarrow> bool"
  assumes no_candidates: "getVictim w rd [] = Inl Assert"
    and victim_exists: "cs \<noteq> [] \<Longrightarrow> admissible w rd cs \<Longrightarrow>
      \<exists>v rd'. getVictim w rd cs = Inr (v, rd') \<and> v \<in> set cs"
    and victim_frame: "getVictim w rd cs = Inr (v, rd') \<Longrightarrow> e \<notin> set cs \<Longrightarrow> rd' e = rd e"
begin

lemma victim_candidate:
  assumes "getVictim w rd cs = Inr (v, rd')" and "admissible w rd cs"
  shows "v \<in> set cs"
proof -
  have "cs \<noteq> []" using assms(1) no_candidates [of w rd] by auto
  from victim_exists [OF this assms(2)] assms(1) show ?thesis by auto
qed

lemma singleton_victim:
  assumes "admissible w rd [c]"
  shows "\<exists>rd'. getVictim w rd [c] = Inr (c, rd')"
  using victim_exists [of "[c]" w rd] assms by auto

end

text \<open>Most policies also prefer an invalidated candidate to every valid one.\<close>

locale invalid_first_policy = replacement_policy +
  fixes invalid :: "'b \<Rightarrow> bool" and invalidate :: "'b \<Rightarrow> 'b"
  assumes invalid_invalidate: "invalid (invalidate d)"
    and invalid_first: "admissible w rd cs \<Longrightarrow> getVictim w rd cs = Inr (v, rd') \<Longrightarrow>
      e \<in> set cs \<Longrightarrow> invalid (rd e) \<Longrightarrow> invalid (rd v)"
begin

lemma sole_invalid_is_victim:
  assumes "admissible w (rd(e := invalidate (rd e))) cs"
    and "getVictim w (rd(e := invalidate (rd e))) cs = Inr (v, rd')" and "e \<in> set cs"
    and "\<And>c. c \<in> set cs \<Longrightarrow> c \<noteq> e \<Longrightarrow> \<not> invalid (rd c)"
  shows "v = e"
proof (rule ccontr)
  assume "v \<noteq> e"
  have "invalid ((rd(e := invalidate (rd e))) v)"
    by (rule invalid_first [OF assms(1,2,3)]) (simp add: invalid_invalidate)
  moreover have "v \<in> set cs" by (rule victim_candidate [OF assms(2,1)])
  ultimately show False using assms(4) [of v] \<open>v \<noteq> e\<close> by simp
qed

end

lemma minimal_victim_policy:
  fixes f :: "'rd \<Rightarrow> 'k::linorder"
  assumes "\<And>rd cs. gv rd cs = require (0 < length cs) Assert
      (Inr (scan_victim (\<lambda>c v. f (rd c) < f (rd v)) (cs ! 0) cs, rd))"
  shows "replacement_policy (\<lambda>_ :: unit. gv) (\<lambda>_ _ _. True)"
  by unfold_locales
    (auto simp: assms result_simps scan_victim_hd(1) [where f = "\<lambda>c. f (_ c)"])

interpretation lru: invalid_first_policy "\<lambda>_ :: unit. lru_getVictim" "\<lambda>_ _ _. True"
  "\<lambda>d. lastTouchTick d = 0" lru_invalidate
proof (intro invalid_first_policy.intro minimal_victim_policy [where f = lastTouchTick]
    invalid_first_policy_axioms.intro)
  fix rd cs v rd' e
  assume "lru_getVictim rd cs = Inr (v, rd')" "e \<in> set cs" "lastTouchTick (rd e) = 0"
  then show "lastTouchTick (rd v) = 0"
    using scan_victim_hd(2) [where f = "\<lambda>c. lastTouchTick (rd c)" and x = e and cs = cs]
    by (auto simp: lru_getVictim_def result_simps)
qed (simp_all add: lru_getVictim_def lru_invalidate_def)

interpretation fifo: invalid_first_policy "\<lambda>_ :: unit. fifo_getVictim" "\<lambda>_ _ _. True"
  "\<lambda>d. tickInserted d = 0" fifo_invalidate
proof (intro invalid_first_policy.intro minimal_victim_policy [where f = tickInserted]
    invalid_first_policy_axioms.intro)
  fix rd :: "nat \<Rightarrow> fifo_data" and cs v rd' e
  assume "fifo_getVictim rd cs = Inr (v, rd')" "e \<in> set cs" "tickInserted (rd e) = 0"
  then show "tickInserted (rd v) = 0"
    using scan_victim_hd(2) [where f = "\<lambda>c. tickInserted (rd c)" and x = e and cs = cs]
    by (auto simp: fifo_getVictim_def fifo_pick_def result_simps)
qed (simp_all add: fifo_getVictim_def fifo_pick_def fifo_invalidate_def)

interpretation lfu: invalid_first_policy "\<lambda>_ :: unit. lfu_getVictim" "\<lambda>_ _ _. True"
  "\<lambda>d. refCount d = 0" lfu_invalidate
proof (intro invalid_first_policy.intro minimal_victim_policy [where f = refCount]
    invalid_first_policy_axioms.intro)
  fix rd cs v rd' e
  assume "lfu_getVictim rd cs = Inr (v, rd')" "e \<in> set cs" "refCount (rd e) = 0"
  then show "refCount (rd v) = 0"
    using scan_victim_hd(2) [where f = "\<lambda>c. refCount (rd c)" and x = e and cs = cs]
    by (auto simp: lfu_getVictim_def result_simps)
qed (simp_all add: lfu_getVictim_def lfu_invalidate_def)

interpretation mru: invalid_first_policy "\<lambda>_ :: unit. mru_getVictim" "\<lambda>_ _ _. True"
  "\<lambda>d. mruTouchTick d = 0" mru_invalidate
proof
  fix rd cs v rd' e
  assume "mru_getVictim rd cs = Inr (v, rd')" "e \<in> set cs" "mruTouchTick (rd e) = 0"
  then show "mruTouchTick (rd v) = 0"
    using mru_scan_invalid [of cs rd "cs ! 0"] by (auto simp: mru_getVictim_def result_simps)
next
  fix rd and cs :: "nat list"
  assume "cs \<noteq> []"
  then show "\<exists>v rd'. mru_getVictim rd cs = Inr (v, rd') \<and> v \<in> set cs"
    using mru_scan_in [of rd "cs ! 0" cs] by (auto simp: mru_getVictim_def insert_absorb)
qed (auto simp: mru_getVictim_def mru_invalidate_def result_simps)

interpretation rnd: invalid_first_policy random_getVictim "\<lambda>r _ cs. r < length cs"
  "\<lambda>d. \<not> valid d" random_invalidate
  by unfold_locales
    (auto simp: random_getVictim_def random_invalidate_def result_simps
      split: option.splits dest!: first_match_SomeD)

interpretation sc: replacement_policy sc_getVictim "\<lambda>_ _ _. True"
proof
  fix now rd and cs :: "nat list"
  assume "cs \<noteq> []"
  then show "\<exists>v rd'. sc_getVictim now rd cs = Inr (v, rd') \<and> v \<in> set cs"
    using sc_loop_props [of cs now rd] by (cases "sc_loop now rd cs")
      (auto simp: sc_getVictim_def split: option.splits dest!: first_match_SomeD)
next
  fix now rd and cs :: "nat list" and v rd' e
  assume "sc_getVictim now rd cs = Inr (v, rd')" "e \<notin> set cs"
  then show "rd' e = rd e"
    using sc_loop_props [of cs now rd v rd']
    by (auto simp: sc_getVictim_def result_simps split: option.splits)
qed (simp add: sc_getVictim_def)

interpretation brrip: invalid_first_policy "\<lambda>_ :: unit. brrip_getVictim" "\<lambda>_ _ _. True"
  "\<lambda>d. \<not> brrip_valid d" brrip_invalidate
proof
  fix rd and cs :: "nat list"
  assume "cs \<noteq> []"
  then show "\<exists>v rd'. brrip_getVictim rd cs = Inr (v, rd') \<and> v \<in> set cs"
    using brrip_scan_Inl [of rd "cs ! 0" cs] brrip_scan_Inr [of rd "cs ! 0" cs]
    by (auto simp: brrip_getVictim_def insert_absorb Let_def split: sum.splits prod.splits)
next
  fix rd and cs :: "nat list" and v rd' e
  assume "brrip_getVictim rd cs = Inr (v, rd')" "e \<notin> set cs"
  then show "rd' e = rd e"
    using brrip_scan_Inr [of rd "cs ! 0" cs]
    by (auto simp: brrip_getVictim_def result_simps fold_brrip_age_frame insert_absorb Let_def
        split: sum.splits prod.splits if_splits)
next
  fix rd and cs :: "nat list" and v rd' e
  assume "brrip_getVictim rd cs = Inr (v, rd')" "e \<in> set cs" "\<not> brrip_valid (rd e)"
  then show "\<not> brrip_valid (rd v)"
    using brrip_scan_valid [of rd "cs ! 0" cs _ e] brrip_scan_Inl [of rd "cs ! 0" cs]
    by (auto simp: brrip_getVictim_def result_simps split: sum.splits prod.splits)
qed (simp_all add: brrip_getVictim_def brrip_invalidate_def)

interpretation wlru: replacement_policy "\<lambda>_ :: unit. wlru_getVictim" "\<lambda>_ _ _. True"
  by unfold_locales
    (use scan_victim_in in \<open>force simp: wlru_getVictim_def result_simps insert_absorb\<close>)+

section \<open>Properties\<close>

lemma lru_victim_least_recent:
  assumes "lru_getVictim rd cs = Inr (v, rd')"
  shows "v \<in> set cs \<and> (\<forall>c \<in> set cs. lastTouchTick (rd v) \<le> lastTouchTick (rd c)) \<and> rd' = rd"
  using assms lru.victim_candidate [OF assms]
    scan_victim_hd(2) [where f = "\<lambda>c. lastTouchTick (rd c)" and cs = cs]
  by (auto simp: lru_getVictim_def result_simps)

text \<open>A history of touches, each with its tick.\<close>

fun lru_run :: "(tick \<times> nat) list \<Rightarrow> (nat \<Rightarrow> lru_data) \<Rightarrow> (nat \<Rightarrow> lru_data)" where
  "lru_run [] rd = rd"
| "lru_run ((now, e) # hist) rd = lru_run hist (rd(e := lru_touch now (rd e)))"

lemma lru_run_append: "lru_run (h1 @ h2) rd = lru_run h2 (lru_run h1 rd)"
  by (induction h1 arbitrary: rd) auto

lemma lru_run_other: "e \<notin> snd ` set hist \<Longrightarrow> lru_run hist rd e = rd e"
  by (induction hist arbitrary: rd) auto

lemma lru_run_last:
  assumes "e \<notin> snd ` set h2"
  shows "lastTouchTick (lru_run (h1 @ (now, e) # h2) rd e) = now"
  using lru_run_other [OF assms] by (simp add: lru_run_append lru_touch_def)

text \<open>Claim C35. LRU evicts the least recently used candidate: after a history of touches at
  increasing ticks in which every candidate occurs, all other candidates have been touched since
  the victim's last touch.\<close>

theorem lru_evicts_least_recently_used:
  assumes "sorted_wrt (<) (map fst hist)" "set cs \<subseteq> snd ` set hist"
    and "lru_getVictim (lru_run hist rd) cs = Inr (v, rd')"
  shows "\<exists>h1 now h2. hist = h1 @ (now, v) # h2 \<and> v \<notin> snd ` set h2 \<and> (\<forall>c \<in> set cs. c \<noteq> v \<longrightarrow> c \<in> snd ` set h2)"
proof -
  note v = lru_victim_least_recent [OF assms(3)]
  have split: "\<exists>h1 now h2. hist = h1 @ (now, c) # h2 \<and> c \<notin> snd ` set h2" if "c \<in> set cs" for c
  proof -
    have "c \<in> set (map snd hist)" using that assms(2) by auto
    from split_list_last [OF this] show ?thesis by (auto simp: map_eq_append_conv) (metis image_set)
  qed
  from split v obtain h1 now h2 where h: "hist = h1 @ (now, v) # h2" "v \<notin> snd ` set h2" by blast
  have "c \<in> snd ` set h2" if c: "c \<in> set cs" "c \<noteq> v" for c
  proof (rule ccontr)
    assume nc: "c \<notin> snd ` set h2"
    from split [OF c(1)] obtain g1 t g2 where g: "hist = g1 @ (t, c) # g2" "c \<notin> snd ` set g2" by blast
    have "(t, c) \<in> set hist" using g by simp
    then have "(t, c) \<in> set h1" using h(1) nc c(2) by force
    then have "t < now" using assms(1) h(1) by (fastforce simp: sorted_wrt_append)
    moreover have "lastTouchTick (lru_run hist rd c) = t" using lru_run_last [OF g(2)] g(1) by simp
    moreover have "lastTouchTick (lru_run hist rd v) = now" using lru_run_last [OF h(2)] h(1) by simp
    ultimately show False using v c(1) by (auto simp: not_le [symmetric])
  qed
  with h show ?thesis by blast
qed

theorem lru_evicts_least_recently_used_witness:
  "\<exists>h1 now h2. [(1, 0), (2, 1), (3, 0)] = h1 @ (now, 1 :: nat) # h2 \<and> 0 \<in> snd ` set h2 \<and> now = (2 :: tick)"
proof -
  let ?h = "[(1, 0), (2, 1), (3, 0)] :: (tick \<times> nat) list"
  have "lru_getVictim (lru_run ?h (\<lambda>_. lru_instantiateEntry)) [0, 1] =
    Inr (1, lru_run ?h (\<lambda>_. lru_instantiateEntry))"
    by (simp add: lru_getVictim_def lru_touch_def)
  from lru_evicts_least_recently_used [OF _ _ this] show ?thesis
    by (force simp: append_eq_Cons_conv Cons_eq_append_conv)
qed

lemma brrip_age_exact:
  fixes c v :: "8 sat_counter"
  assumes "sat_inv c" and "sat_inv v" and "maxVal c = maxVal v" and "counter c \<le> counter v"
  shows "uint (counter (sat_add c (uint (fst (saturate v))))) =
    uint (counter c) + (uint (maxVal v) - uint (counter v))"
  using assms uint_sat_add [OF assms(1), of "uint (fst (saturate v))"] uint_sub_max [OF assms(2)]
  by (simp add: saturate_def word_le_def sat_inv_def)

text \<open>Claim C36. When every candidate is valid, BRRIP evicts one with the largest re-reference
  value and ages all candidates by exactly the amount that brings the victim to the maximum:
  no other candidate saturates early, so the order of the candidates is kept.\<close>

theorem brrip_victim_ageing:
  assumes run: "brrip_getVictim rd cs = Inr (v, rd')"
    and valid: "\<forall>c \<in> set cs. brrip_valid (rd c) \<and> sat_inv (rrpv (rd c)) \<and> maxVal (rrpv (rd c)) = M"
    and dist: "distinct cs"
  shows "v \<in> set cs \<and>
    (\<forall>c \<in> set cs. counter (rrpv (rd c)) \<le> counter (rrpv (rd v)) \<and>
       uint (counter (rrpv (rd' c))) =
         uint (counter (rrpv (rd c))) + (uint M - uint (counter (rrpv (rd v)))))"
proof -
  have vin: "v \<in> set cs" by (rule brrip.victim_candidate [OF run]) simp
  have "cs \<noteq> []" using vin by auto
  then obtain w where scan: "brrip_scan rd (cs ! 0) cs = Inr w" and w: "w = v"
    using run valid brrip_scan_Inl [of rd "cs ! 0" cs]
    by (auto simp: brrip_getVictim_def Let_def split: sum.splits prod.splits)
  let ?s = "saturate (rrpv (rd v))" and ?rd = "rd(v := (rd v)\<lparr>rrpv := snd (saturate (rrpv (rd v)))\<rparr>)"
  have rd': "rd' = (if 0 < fst ?s then fold (brrip_age (fst ?s)) cs ?rd else ?rd)"
    using run scan w \<open>cs \<noteq> []\<close>
    by (auto simp: brrip_getVictim_def Let_def split: prod.splits)
  have max: "counter (rrpv (rd c)) \<le> counter (rrpv (rd v))" if "c \<in> set cs" for c
    using brrip_scan_max [OF scan] that w by simp
  have "uint (counter (rrpv (rd' c))) =
      uint (counter (rrpv (rd c))) + (uint M - uint (counter (rrpv (rd v))))" if c: "c \<in> set cs" for c
  proof -
    have inv: "sat_inv (rrpv (rd c))" "sat_inv (rrpv (rd v))" "maxVal (rrpv (rd c)) = maxVal (rrpv (rd v))"
      "maxVal (rrpv (rd v)) = M" using valid c vin by auto
    have diff: "uint (fst ?s) = uint M - uint (counter (rrpv (rd v)))"
      using uint_sub_max [OF inv(2)] inv(4) by (simp add: saturate_def)
    have sat_add_max: "uint (counter (sat_add (snd ?s) d)) = uint M" if "0 \<le> d" for d
      using uint_sat_add [OF sat_inv_saturate [OF inv(2)], of d] that inv(4) by (simp add: saturate_def)
    show ?thesis
    proof (cases "0 < fst ?s")
      case True
      show ?thesis
      proof (cases "c = v")
        case True
        with \<open>0 < fst ?s\<close> show ?thesis
          by (simp add: rd' fold_brrip_age [OF dist vin] sat_add_max)
      next
        case False
        with True show ?thesis
          using brrip_age_exact [OF inv(1,2,3) max [OF c]] inv(4)
          by (simp add: rd' fold_brrip_age [OF dist c])
      qed
    next
      case False
      then have "uint M = uint (counter (rrpv (rd v)))"
        using diff uint_nonnegative [of "fst ?s"] by (simp add: word_less_def)
      with False inv(4) show ?thesis by (simp add: rd' saturate_def)
    qed
  qed
  with vin max show ?thesis by blast
qed

theorem brrip_victim_ageing_witness:
  "\<exists>v rd'. brrip_getVictim (\<lambda>c. \<lparr>rrpv = \<lparr>initialVal = 3, maxVal = 3, counter = of_nat c\<rparr>, brrip_valid = True\<rparr>) [1, 2] = Inr (v, rd') \<and>
     v \<in> set [1, 2] \<and> uint (counter (rrpv (rd' 1))) = 2"
proof -
  let ?rd = "\<lambda>c. \<lparr>rrpv = \<lparr>initialVal = 3, maxVal = 3, counter = of_nat c\<rparr>, brrip_valid = True\<rparr> :: brrip_data"
  from brrip.victim_exists [of "[1, 2]" ?rd] obtain v rd' where
    run: "brrip_getVictim ?rd [1, 2] = Inr (v, rd')" by auto
  have "\<forall>c \<in> set [1, 2]. brrip_valid (?rd c) \<and> sat_inv (rrpv (?rd c)) \<and> maxVal (rrpv (?rd c)) = 3"
    by (simp add: sat_inv_def)
  from brrip_victim_ageing [OF run this] have a: "v \<in> set [1, 2]"
    "\<forall>c \<in> set [1, 2]. counter (rrpv (?rd c)) \<le> counter (rrpv (?rd v)) \<and> uint (counter (rrpv (rd' c))) =
       uint (counter (rrpv (?rd c))) + (uint (3 :: u8) - uint (counter (rrpv (?rd v))))" by simp_all
  then have "v = 2" by (auto simp: word_le_nat_alt)
  with a run show ?thesis by (intro exI [of _ v] exI [of _ rd']) simp
qed



text \<open>The weighted policy does not prefer invalidated entries: invalidating an entry
  leaves its occupancy in place, so a live candidate with a smaller occupancy is evicted while
  an invalidated way stays empty.\<close>

theorem wlru_invalidated_not_preferred:
  "\<exists>rd cs v rd'. wlru_getVictim (rd(0 := wlru_invalidate (rd 0))) cs = Inr (v, rd') \<and>
     0 \<in> set cs \<and> v \<noteq> 0 \<and> last_touch_tick (rd v) \<noteq> 0"
  by (rule exI [of _ "\<lambda>e. if e = 0 then \<lparr>last_occ_ptr = 2, last_touch_tick = 5\<rparr>
        else \<lparr>last_occ_ptr = 1, last_touch_tick = 9\<rparr>"], rule exI [of _ "[0, 1]"])
    (simp add: wlru_getVictim_def wlru_invalidate_def)

end
