(* ===== verification/Tree_PLRU.thy ===== *)
theory Tree_PLRU
  imports Replacement
begin

text \<open>
  The tree-based pseudo-LRU policy (\<^verbatim>\<open>tree_plru_rp.cc\<close>). The inner nodes of a complete binary
  tree are stored in a vector of bits shared by the entries of a set; entry \<open>k\<close> is leaf
  \<open>numLeaves - 1 + k\<close>. The shared trees are a vector of the policy's state and an entry's data
  holds its leaf and the number of its tree. Indices are \<^verbatim>\<open>uint64_t\<close>; the wrap-around of
  \<^verbatim>\<open>parentIndex(0)\<close> is written out.
\<close>

section \<open>The policy\<close>

definition parentIndex :: "nat \<Rightarrow> nat" where
  "parentIndex i = (if i = 0 then (2 ^ 64 - 1) div 2 else (i - 1) div 2)"

definition leftSubtreeIndex :: "nat \<Rightarrow> nat" where
  "leftSubtreeIndex i = 2 * i + 1"

definition rightSubtreeIndex :: "nat \<Rightarrow> nat" where
  "rightSubtreeIndex i = 2 * i + 2"

definition isRightSubtree :: "nat \<Rightarrow> bool" where
  "isRightSubtree i \<longleftrightarrow> i mod 2 = 0"

record plru_data =
  leaf :: nat
  tree_id :: nat

record tree_plru =
  numLeaves :: nat
  plru_count :: nat
  treeInstance :: nat
  trees :: "bool list list"

definition new_tree_plru :: "64 word \<Rightarrow> tree_plru result" where
  "new_tree_plru num_leaves = require (isPowerOf2 num_leaves) Fatal
     (Inr \<lparr>numLeaves = unat num_leaves, plru_count = 0, treeInstance = 0, trees = []\<rparr>)"

text \<open>
  The loop of \<^verbatim>\<open>touch\<close> and \<^verbatim>\<open>invalidate\<close>: climb from a leaf to the root and make every node on the
  way point towards the leaf (\<open>toward\<close>) or away from it. \<^verbatim>\<open>tree->at\<close> is a checked access.
\<close>

function plru_update :: "bool \<Rightarrow> bool list \<Rightarrow> nat \<Rightarrow> bool list result" where
  "plru_update toward tree i =
     (let right = isRightSubtree i; p = parentIndex i
      in if p < length tree
         then let tree' = tree[p := (right = toward)]
              in if p \<noteq> 0 then plru_update toward tree' p else Inr tree'
         else Inl OutOfRange)"
  by pat_completeness auto
termination
  by (relation "measure (\<lambda>(toward, tree, i). if i = 0 then 2 ^ 64 else i)")
    (auto simp: parentIndex_def)

declare plru_update.simps [simp del]

definition with_tree :: "tree_plru \<Rightarrow> plru_data \<Rightarrow> (bool list \<Rightarrow> bool list result) \<Rightarrow> tree_plru result" where
  "with_tree s d f =
     bind_result (nth_result (trees s) (tree_id d)) (\<lambda>t.
     bind_result (f t) (\<lambda>t'. Inr (s\<lparr>trees := (trees s)[tree_id d := t']\<rparr>)))"

definition plru_invalidate :: "tree_plru \<Rightarrow> plru_data \<Rightarrow> tree_plru result" where
  "plru_invalidate s d = with_tree s d (\<lambda>t. plru_update True t (leaf d))"

definition plru_touch :: "tree_plru \<Rightarrow> plru_data \<Rightarrow> tree_plru result" where
  "plru_touch s d = with_tree s d (\<lambda>t. plru_update False t (leaf d))"

definition plru_reset :: "tree_plru \<Rightarrow> plru_data \<Rightarrow> tree_plru result" where
  "plru_reset s d = plru_touch s d"

function plru_walk :: "bool list \<Rightarrow> nat \<Rightarrow> nat" where
  "plru_walk tree i =
     (if i < length tree
      then plru_walk tree (if tree ! i then rightSubtreeIndex i else leftSubtreeIndex i)
      else i)"
  by pat_completeness auto
termination
  by (relation "measure (\<lambda>(tree, i). length tree - i)")
    (auto simp: rightSubtreeIndex_def leftSubtreeIndex_def)

declare plru_walk.simps [simp del]

definition plru_getVictim ::
  "tree_plru \<Rightarrow> (nat \<Rightarrow> plru_data) \<Rightarrow> nat list \<Rightarrow> (nat \<times> (nat \<Rightarrow> plru_data)) result" where
  "plru_getVictim s rd cs = require (0 < length cs) Assert
     (bind_result (nth_result (trees s) (tree_id (rd (cs ! 0)))) (\<lambda>t.
        let i = plru_walk t 0
        in require (numLeaves s - 1 \<le> i \<and> i - (numLeaves s - 1) < length cs) Undefined
           (Inr (cs ! (i - (numLeaves s - 1)), rd))))"

definition plru_instantiateEntry :: "tree_plru \<Rightarrow> plru_data \<times> tree_plru" where
  "plru_instantiateEntry s =
     (let s1 = (if plru_count s mod numLeaves s = 0
                then s\<lparr>treeInstance := length (trees s),
                       trees := trees s @ [replicate (numLeaves s - 1) False]\<rparr>
                else s)
      in (\<lparr>leaf = plru_count s mod numLeaves s + numLeaves s - 1, tree_id = treeInstance s1\<rparr>,
          s1\<lparr>plru_count := plru_count s + 1\<rparr>))"

section \<open>Walking and updating\<close>

definition child :: "nat \<Rightarrow> bool \<Rightarrow> nat" where
  "child i right = (if right then rightSubtreeIndex i else leftSubtreeIndex i)"

lemma child_parent: "0 < i \<Longrightarrow> child (parentIndex i) (isRightSubtree i) = i"
  by (cases "even i") (auto simp: child_def parentIndex_def isRightSubtree_def rightSubtreeIndex_def
      leftSubtreeIndex_def elim!: evenE oddE)

lemma parent_child: "parentIndex (child i r) = i" "isRightSubtree (child i r) = r"
  by (auto simp: child_def parentIndex_def isRightSubtree_def rightSubtreeIndex_def
      leftSubtreeIndex_def)

lemma parent_less: "0 < i \<Longrightarrow> parentIndex i < i"
  by (simp add: parentIndex_def)

lemma walk_step: "i < length t \<Longrightarrow> plru_walk t i = plru_walk t (child i (t ! i))"
  by (subst plru_walk.simps) (simp add: child_def)

lemma walk_leaf: "length t \<le> i \<Longrightarrow> plru_walk t i = i"
  by (subst plru_walk.simps) simp

lemma walk_range:
  "i \<le> 2 * length t \<Longrightarrow> length t \<le> plru_walk t i \<and> plru_walk t i \<le> 2 * length t"
proof (induction t i rule: plru_walk.induct)
  case (1 t i)
  show ?case
  proof (cases "i < length t")
    case True
    then have "child i (t ! i) \<le> 2 * length t"
      by (simp add: child_def rightSubtreeIndex_def leftSubtreeIndex_def)
    with "1.IH" [OF True] True show ?thesis by (simp add: walk_step child_def)
  next
    case False
    with "1.prems" show ?thesis by (simp add: walk_leaf)
  qed
qed

lemma walk_last_step:
  "plru_walk t i = j \<Longrightarrow> i \<noteq> j \<Longrightarrow> parentIndex j < length t \<and> t ! parentIndex j = isRightSubtree j"
proof (induction t i rule: plru_walk.induct)
  case (1 t i)
  have i: "i < length t" using "1.prems" walk_leaf by (metis not_less)
  show ?case
  proof (cases "child i (t ! i) = j")
    case True
    with i parent_child [of i "t ! i"] show ?thesis by simp
  next
    case False
    with "1.IH" [OF i] "1.prems"(1) i show ?thesis by (simp add: walk_step child_def)
  qed
qed

lemma update_preserves:
  "plru_update b t i = Inr t' \<Longrightarrow> 0 < i \<Longrightarrow>
    length t' = length t \<and> (\<forall>j \<ge> i. t' ! j = t ! j) \<and> parentIndex i < length t \<and>
    t' ! parentIndex i = (isRightSubtree i = b)"
proof (induction b t i rule: plru_update.induct)
  case (1 b t i)
  let ?p = "parentIndex i" and ?t = "t[parentIndex i := (isRightSubtree i = b)]"
  have p: "?p < length t"
    using "1.prems"(1) by (subst (asm) plru_update.simps) (auto simp: Let_def split: if_splits)
  show ?case
  proof (cases "?p = 0")
    case True
    with "1.prems" p have "t' = ?t"
      by (subst (asm) plru_update.simps) (simp add: Let_def)
    with p parent_less [OF "1.prems"(2)] show ?thesis by simp
  next
    case False
    with "1.prems"(1) p have rec: "plru_update b ?t ?p = Inr t'"
      by (subst (asm) plru_update.simps) (simp add: Let_def)
    from "1.IH" [OF refl refl p refl False rec] False
    have "length t' = length t" "\<forall>j \<ge> ?p. t' ! j = ?t ! j" by simp_all
    with p parent_less [OF "1.prems"(2)] show ?thesis by simp
  qed
qed

lemma update_defined:
  "0 < i \<Longrightarrow> i \<le> 2 * length t \<Longrightarrow> \<exists>t'. plru_update b t i = Inr t'"
proof (induction b t i rule: plru_update.induct)
  case (1 b t i)
  let ?p = "parentIndex i" and ?t = "t[parentIndex i := (isRightSubtree i = b)]"
  have p: "?p < length t" using "1.prems" by (simp add: parentIndex_def)
  show ?case
  proof (cases "?p = 0")
    case True
    with p show ?thesis by (subst plru_update.simps) (simp add: Let_def)
  next
    case False
    with "1.IH" [OF refl refl p refl False] p obtain t' where "plru_update b ?t ?p = Inr t'" by auto
    with False p show ?thesis by (subst plru_update.simps) (simp add: Let_def)
  qed
qed

lemma update_toward_walk:
  "plru_update True t i = Inr t' \<Longrightarrow> 0 < i \<Longrightarrow> plru_walk t' 0 = plru_walk t' i"
proof (induction "True" t i rule: plru_update.induct)
  case (1 t i)
  let ?p = "parentIndex i" and ?t = "t[parentIndex i := (isRightSubtree i = True)]"
  from update_preserves [OF "1.prems"]
  have p: "?p < length t" "length t' = length t" "t' ! ?p = isRightSubtree i" by simp_all
  then have up: "plru_walk t' ?p = plru_walk t' i"
    using walk_step [of ?p t'] child_parent [OF "1.prems"(2)] by simp
  show ?case
  proof (cases "?p = 0")
    case True
    with up show ?thesis by simp
  next
    case False
    with "1.prems"(1) p have "plru_update True ?t ?p = Inr t'"
      by (subst (asm) plru_update.simps) (simp add: Let_def)
    from "1.hyps" [OF refl refl p(1) refl False this] False up show ?thesis by simp
  qed
qed

section \<open>The entries of one set\<close>

text \<open>The candidates of a set: one entry per leaf of one tree, in the order of the leaves.\<close>

definition plru_set :: "tree_plru \<Rightarrow> (nat \<Rightarrow> plru_data) \<Rightarrow> nat list \<Rightarrow> bool" where
  "plru_set s rd cs \<longleftrightarrow> length cs = numLeaves s \<and> distinct cs \<and>
     (\<exists>t < length (trees s). length (trees s ! t) = numLeaves s - 1 \<and>
        (\<forall>k < length cs. rd (cs ! k) = \<lparr>leaf = numLeaves s - 1 + k, tree_id = t\<rparr>))"

lemma plru_getVictim_walk:
  assumes "plru_set s rd cs" and "0 < numLeaves s"
  shows "plru_getVictim s rd cs =
    Inr (cs ! (plru_walk (trees s ! tree_id (rd (cs ! 0))) 0 - (numLeaves s - 1)), rd)"
proof -
  obtain t where t: "t < length (trees s)" "length (trees s ! t) = numLeaves s - 1"
    "\<forall>k < length cs. rd (cs ! k) = \<lparr>leaf = numLeaves s - 1 + k, tree_id = t\<rparr>"
    and len: "length cs = numLeaves s"
    using assms(1) by (auto simp: plru_set_def)
  have "tree_id (rd (cs ! 0)) = t" using t(3) len assms(2) by simp
  moreover have "numLeaves s - 1 \<le> plru_walk (trees s ! t) 0 \<and>
      plru_walk (trees s ! t) 0 \<le> 2 * (numLeaves s - 1)"
    using walk_range [of 0 "trees s ! t"] t(2) by simp
  ultimately show ?thesis
    using t(1) len assms(2) by (auto simp: plru_getVictim_def nth_result_def Let_def require_def)
qed

lemma plru_update_set:
  assumes set: "plru_set s rd cs" and k: "k < length cs" and two: "2 \<le> numLeaves s"
  shows "\<exists>s' t'. with_tree s (rd (cs ! k)) (\<lambda>t. plru_update b t (leaf (rd (cs ! k)))) = Inr s' \<and>
    plru_set s' rd cs \<and> numLeaves s' = numLeaves s \<and>
    trees s' ! tree_id (rd (cs ! 0)) = t' \<and> length t' = numLeaves s - 1 \<and>
    plru_update b (trees s ! tree_id (rd (cs ! k))) (numLeaves s - 1 + k) = Inr t'"
proof -
  obtain t where t: "t < length (trees s)" "length (trees s ! t) = numLeaves s - 1"
    "\<forall>k < length cs. rd (cs ! k) = \<lparr>leaf = numLeaves s - 1 + k, tree_id = t\<rparr>"
    and len: "length cs = numLeaves s" and dist: "distinct cs"
    using set by (auto simp: plru_set_def)
  have ids: "tree_id (rd (cs ! k)) = t" "leaf (rd (cs ! k)) = numLeaves s - 1 + k"
    "tree_id (rd (cs ! 0)) = t"
    using t(3) k len two by (auto simp: le_less_trans [OF le0 k])
  have pos: "0 < numLeaves s - 1 + k" using two by simp
  obtain t' where t': "plru_update b (trees s ! t) (numLeaves s - 1 + k) = Inr t'"
    using update_defined [OF pos] k len t(2) by fastforce
  with update_preserves [OF t' pos] t(2) have "length t' = numLeaves s - 1" by simp
  then show ?thesis
    using t t' len dist ids
    by (auto simp: with_tree_def nth_result_def plru_set_def intro!: exI [of _ t])
qed

interpretation plru: replacement_policy plru_getVictim
  "\<lambda>s rd cs. plru_set s rd cs \<and> 0 < numLeaves s"
proof
  fix s rd cs
  assume "cs \<noteq> []" and set: "plru_set s rd cs \<and> 0 < numLeaves s"
  let ?w = "plru_walk (trees s ! tree_id (rd (cs ! 0))) 0"
  obtain t where "length (trees s ! t) = numLeaves s - 1" "tree_id (rd (cs ! 0)) = t"
    using set \<open>cs \<noteq> []\<close> by (auto simp: plru_set_def)
  then have "?w - (numLeaves s - 1) < length cs"
    using walk_range [of 0 "trees s ! t"] set by (auto simp: plru_set_def)
  then show "\<exists>v rd'. plru_getVictim s rd cs = Inr (v, rd') \<and> v \<in> set cs"
    using plru_getVictim_walk set by auto
qed (auto simp: plru_getVictim_def result_simps Let_def)

section \<open>Instantiated entries form sets\<close>

fun plru_instantiate_n :: "nat \<Rightarrow> tree_plru \<Rightarrow> plru_data list \<times> tree_plru" where
  "plru_instantiate_n 0 s = ([], s)"
| "plru_instantiate_n (Suc n) s =
     (let (ds, s1) = plru_instantiate_n n s; (d, s2) = plru_instantiateEntry s1
      in (ds @ [d], s2))"

lemma div_pred_eq: "(n::nat) mod L \<noteq> 0 \<Longrightarrow> (n - 1) div L = n div L"
  by (cases n) (auto simp: div_Suc)

lemma plru_instantiate_n_props:
  assumes "0 < numLeaves s" and "plru_count s = 0" and "trees s = []"
    and "plru_instantiate_n n s = (ds, s')"
  shows "length ds = n \<and> numLeaves s' = numLeaves s \<and> plru_count s' = n \<and>
    (0 < n \<longrightarrow> treeInstance s' = (n - 1) div numLeaves s \<and>
       length (trees s') = Suc ((n - 1) div numLeaves s)) \<and> (n = 0 \<longrightarrow> trees s' = []) \<and>
    (\<forall>t \<in> set (trees s'). length t = numLeaves s - 1) \<and>
    (\<forall>k < n. ds ! k = \<lparr>leaf = numLeaves s - 1 + k mod numLeaves s, tree_id = k div numLeaves s\<rparr>)"
  using assms(4)
proof (induction n arbitrary: ds s')
  case 0
  with assms show ?case by simp
next
  case (Suc n)
  obtain es s1 where es: "plru_instantiate_n n s = (es, s1)" by fastforce
  note ih = Suc.IH [OF es]
  have ds: "ds = es @ [fst (plru_instantiateEntry s1)]" "s' = snd (plru_instantiateEntry s1)"
    using Suc.prems es by (auto simp: Let_def split: prod.splits)
  have "treeInstance s' = n div numLeaves s \<and> length (trees s') = Suc (n div numLeaves s) \<and>
      tree_id (fst (plru_instantiateEntry s1)) = n div numLeaves s"
  proof (cases "n mod numLeaves s = 0")
    case True
    then have "length (trees s1) = n div numLeaves s"
      using ih assms(1) by (cases n) (auto simp: div_Suc)
    with True ih show ?thesis by (simp add: ds plru_instantiateEntry_def Let_def)
  next
    case False
    then have "0 < n" by (cases n) auto
    with False ih div_pred_eq [of n "numLeaves s"] show ?thesis
      by (simp add: ds plru_instantiateEntry_def Let_def)
  qed
  moreover have "leaf (fst (plru_instantiateEntry s1)) = numLeaves s - 1 + n mod numLeaves s"
    using ih assms(1) by (simp add: plru_instantiateEntry_def Let_def)
  moreover have "\<forall>t \<in> set (trees s'). length t = numLeaves s - 1"
    using ih by (simp add: ds plru_instantiateEntry_def Let_def)
  moreover have "numLeaves s' = numLeaves s" "plru_count s' = Suc n"
    using ih by (simp_all add: ds plru_instantiateEntry_def Let_def)
  ultimately show ?case using ih by (auto simp: ds nth_append less_Suc_eq)
qed

section \<open>Properties\<close>

text \<open>Claim C37. Using an entry protects it and invalidating it exposes it: after a touch the next
  victim is another entry of the set, after an invalidation the next victim is exactly the
  invalidated entry.\<close>

theorem tree_plru_touch_and_invalidate:
  assumes "plru_set s rd cs" and "k < length cs" and "2 \<le> numLeaves s"
  shows "(\<exists>s' v. plru_touch s (rd (cs ! k)) = Inr s' \<and>
      plru_getVictim s' rd cs = Inr (v, rd) \<and> v \<in> set cs \<and> v \<noteq> cs ! k) \<and>
    (\<exists>s'. plru_invalidate s (rd (cs ! k)) = Inr s' \<and> plru_getVictim s' rd cs = Inr (cs ! k, rd))"
proof
  let ?n = "numLeaves s - 1"
  have len: "length cs = numLeaves s" and dist: "distinct cs"
    using assms(1) by (auto simp: plru_set_def)
  have pos: "0 < ?n + k" using assms(3) by simp
  obtain s' t' where s': "plru_touch s (rd (cs ! k)) = Inr s'" "plru_set s' rd cs"
    "numLeaves s' = numLeaves s" "trees s' ! tree_id (rd (cs ! 0)) = t'" "length t' = ?n"
    and up: "plru_update False (trees s ! tree_id (rd (cs ! k))) (?n + k) = Inr t'"
    using plru_update_set [OF assms, of False] by (auto simp: plru_touch_def)
  let ?w = "plru_walk t' 0"
  have victim: "plru_getVictim s' rd cs = Inr (cs ! (?w - ?n), rd)"
    using plru_getVictim_walk [OF s'(2)] s'(3,4) assms(3) by simp
  have range: "?n \<le> ?w" "?w - ?n < length cs"
    using walk_range [of 0 t'] s'(5) len assms(3) by auto
  have "?w \<noteq> ?n + k"
    using walk_last_step [of t' 0 "?n + k"] update_preserves [OF up pos] pos by fastforce
  then have "cs ! (?w - ?n) \<noteq> cs ! k"
    using range assms(2) dist by (auto simp: nth_eq_iff_index_eq)
  then show "\<exists>s' v. plru_touch s (rd (cs ! k)) = Inr s' \<and>
      plru_getVictim s' rd cs = Inr (v, rd) \<and> v \<in> set cs \<and> v \<noteq> cs ! k"
    using s'(1) victim range by auto
next
  let ?n = "numLeaves s - 1"
  have pos: "0 < ?n + k" using assms(3) by simp
  obtain s' t' where s': "plru_invalidate s (rd (cs ! k)) = Inr s'" "plru_set s' rd cs"
    "numLeaves s' = numLeaves s" "trees s' ! tree_id (rd (cs ! 0)) = t'" "length t' = ?n"
    and up: "plru_update True (trees s ! tree_id (rd (cs ! k))) (?n + k) = Inr t'"
    using plru_update_set [OF assms, of True] by (auto simp: plru_invalidate_def)
  have "plru_walk t' 0 = ?n + k"
    using update_toward_walk [OF up pos] walk_leaf [of t' "?n + k"] s'(5) by simp
  with plru_getVictim_walk [OF s'(2)] s' assms(3)
  show "\<exists>s'. plru_invalidate s (rd (cs ! k)) = Inr s' \<and> plru_getVictim s' rd cs = Inr (cs ! k, rd)"
    by auto
qed

definition plru_demo :: tree_plru where
  "plru_demo = \<lparr>numLeaves = 4, plru_count = 4, treeInstance = 0, trees = [[True, False, True]]\<rparr>"

definition plru_demo_data :: "nat \<Rightarrow> plru_data" where
  "plru_demo_data e = \<lparr>leaf = 3 + e, tree_id = 0\<rparr>"

lemma plru_demo_set: "plru_set plru_demo plru_demo_data [0, 1, 2, 3]"
  by (auto simp: plru_set_def plru_demo_def plru_demo_data_def less_Suc_eq numeral_eq_Suc)

theorem tree_plru_touch_and_invalidate_witness:
  "\<exists>s'. plru_invalidate plru_demo (plru_demo_data 2) = Inr s' \<and>
     plru_getVictim s' plru_demo_data [0, 1, 2, 3] = Inr (2, plru_demo_data)"
  using tree_plru_touch_and_invalidate [OF plru_demo_set, of 2] by (simp add: plru_demo_def)

text \<open>The constructor accepts a policy with a single leaf (one is a power of two), but
  the first touch or invalidation of its entry climbs to the parent of the root and leaves the
  tree: the checked access throws.\<close>

theorem tree_plru_single_leaf_fails:
  "\<exists>s d s'. new_tree_plru 1 = Inr s \<and> plru_instantiateEntry s = (d, s') \<and>
     plru_touch s' d = Inl OutOfRange \<and> plru_invalidate s' d = Inl OutOfRange"
  by (simp add: new_tree_plru_def isPowerOf2_def plru_instantiateEntry_def plru_touch_def
      plru_invalidate_def with_tree_def nth_result_def plru_update.simps Let_def)

end
