(* ===== verification/Tags.thy ===== *)
theory Tags
  imports Cache_Blk Skewed Tree_PLRU
begin

text \<open>
  The tag stores (\<^verbatim>\<open>mem/cache/tags/base.hh\<close>, \<^verbatim>\<open>base.cc\<close>, \<^verbatim>\<open>base_set_assoc.hh\<close>, \<^verbatim>\<open>base_set_assoc.cc\<close>). A
  tag store owns a vector of blocks and calls an indexing and a replacement policy through their
  virtual interfaces, which are the records \<open>ip\<close> and \<open>rp\<close> of functions here. Blocks are named by
  their position in the vector. The vector statistics per requestor are functions.
\<close>

section \<open>Interfaces of the policies\<close>

record ip =
  ip_extractTag :: "addr \<Rightarrow> addr"
  ip_extractIndex :: "addr \<Rightarrow> addr"
  ip_entries :: "addr \<Rightarrow> nat option list"
  ip_regenerate :: "addr \<Rightarrow> cache_blk \<Rightarrow> addr result"

definition sa_ip :: "base_indexing \<Rightarrow> ip" where
  "sa_ip p = \<lparr>ip_extractTag = base_extractTag p, ip_extractIndex = base_extractIndex p,
     ip_entries = sa_getPossibleEntries p,
     ip_regenerate = (\<lambda>tag b. Inr (sa_regenerateAddr p tag (blk_set b)))\<rparr>"

lemma sa_ip_simps [simp]:
  "ip_extractTag (sa_ip p) = base_extractTag p" "ip_extractIndex (sa_ip p) = base_extractIndex p"
  "ip_entries (sa_ip p) = sa_getPossibleEntries p"
  by (simp_all add: sa_ip_def)

definition nr_ip :: "new_rand_idx \<Rightarrow> ip" where
  "nr_ip p = \<lparr>ip_extractTag = nr_extractTag p, ip_extractIndex = nr_extractIndex p,
     ip_entries = nr_getPossibleEntries p,
     ip_regenerate = (\<lambda>tag b. nr_regenerateAddr_entry p tag (blk_set b))\<rparr>"

lemma nr_ip_simps [simp]:
  "ip_extractTag (nr_ip p) = nr_extractTag p" "ip_extractIndex (nr_ip p) = nr_extractIndex p"
  "ip_entries (nr_ip p) = nr_getPossibleEntries p"
  by (simp_all add: nr_ip_def)

record 's rp =
  rp_touch :: "nat \<Rightarrow> 's \<Rightarrow> 's result"
  rp_reset :: "nat \<Rightarrow> 's \<Rightarrow> 's result"
  rp_invalidate :: "nat \<Rightarrow> 's \<Rightarrow> 's result"
  rp_getVictim :: "'s \<Rightarrow> nat list \<Rightarrow> (nat \<times> 's) result"
  rp_instantiate :: "nat \<Rightarrow> 's \<Rightarrow> 's"

definition lru_rp :: "tick \<Rightarrow> (nat \<Rightarrow> lru_data) rp" where
  "lru_rp now = \<lparr>rp_touch = (\<lambda>h s. Inr (s(h := lru_touch now (s h)))),
     rp_reset = (\<lambda>h s. Inr (s(h := lru_reset now (s h)))),
     rp_invalidate = (\<lambda>h s. Inr (s(h := lru_invalidate (s h)))),
     rp_getVictim = lru_getVictim, rp_instantiate = (\<lambda>h s. s(h := lru_instantiateEntry))\<rparr>"

definition random_rp :: "nat \<Rightarrow> (nat \<Rightarrow> random_data) rp" where
  "random_rp r = \<lparr>rp_touch = (\<lambda>h s. Inr (s(h := random_touch (s h)))),
     rp_reset = (\<lambda>h s. Inr (s(h := random_reset (s h)))),
     rp_invalidate = (\<lambda>h s. Inr (s(h := random_invalidate (s h)))),
     rp_getVictim = random_getVictim r, rp_instantiate = (\<lambda>h s. s(h := random_instantiateEntry))\<rparr>"

section \<open>State\<close>

record tag_stats =
  tagsInUse :: int
  totalRefs :: nat
  sampledRefs :: nat
  occupancies :: "nat \<Rightarrow> int"
  occupanciesTaskId :: "nat \<Rightarrow> nat"
  ageTaskId :: "nat \<Rightarrow> nat \<Rightarrow> nat"
  warmupTick :: tick
  tagAccesses :: nat
  dataAccesses :: nat

record 's tags =
  tag_blkSize :: u32
  tag_blkMask :: addr
  lookupLatency :: "64 word"
  warmupBound :: u32
  warmedUp :: bool
  numBlocks :: u32
  allocAssoc :: u32
  sequentialAccess :: bool
  blks :: "cache_blk list"
  rdata :: "'s"
  stats :: tag_stats

text \<open>Reading and writing the block a pointer denotes; a pointer that denotes none is undefined
  behaviour.\<close>

definition get_blk :: "'s tags \<Rightarrow> nat \<Rightarrow> cache_blk result" where
  "get_blk t h = require (h < length (blks t)) Undefined (Inr (blks t ! h))"

definition put_blk :: "nat \<Rightarrow> cache_blk \<Rightarrow> 's tags \<Rightarrow> 's tags" where
  "put_blk h b t = t\<lparr>blks := (blks t)[h := b]\<rparr>"

fun deref_all :: "nat option list \<Rightarrow> nat list result" where
  "deref_all [] = Inr []"
| "deref_all (None # es) = Inl Undefined"
| "deref_all (Some h # es) = bind_result (deref_all es) (\<lambda>hs. Inr (h # hs))"

definition possible_blks :: "ip \<Rightarrow> addr \<Rightarrow> nat list result" where
  "possible_blks i a = deref_all (ip_entries i a)"

fun find_blk :: "(cache_blk \<Rightarrow> bool) \<Rightarrow> 's tags \<Rightarrow> nat list \<Rightarrow> nat option result" where
  "find_blk P t [] = Inr None"
| "find_blk P t (h # hs) =
     bind_result (get_blk t h) (\<lambda>b. if P b then Inr (Some h) else find_blk P t hs)"

section \<open>The base class\<close>

definition new_base_tags :: "64 word \<Rightarrow> u32 \<Rightarrow> 64 word \<Rightarrow> u32 \<Rightarrow> u32 \<Rightarrow> bool \<Rightarrow> 's \<Rightarrow> cache_blk list \<Rightarrow> 's tags" where
  "new_base_tags sz block_size lat warmup assc seq_access rd fresh =
     \<lparr>tag_blkSize = block_size, tag_blkMask = ucast (block_size - 1), lookupLatency = lat,
      warmupBound = warmup, warmedUp = False, numBlocks = ucast (sz div ucast block_size),
      allocAssoc = assc, sequentialAccess = seq_access,
      blks = map new_cache_blk (take (unat (sz div ucast block_size)) fresh), rdata = rd,
      stats = \<lparr>tagsInUse = 0, totalRefs = 0, sampledRefs = 0, occupancies = (\<lambda>_. 0),
        occupanciesTaskId = (\<lambda>_. 0), ageTaskId = (\<lambda>_ _. 0), warmupTick = 0, tagAccesses = 0,
        dataAccesses = 0\<rparr>\<rparr>"

definition blkAlign :: "'s tags \<Rightarrow> addr \<Rightarrow> addr" where
  "blkAlign t a = a AND NOT (tag_blkMask t)"

definition extractBlkOffset :: "'s tags \<Rightarrow> addr \<Rightarrow> u32" where
  "extractBlkOffset t a = ucast (a AND tag_blkMask t)"

definition base_findBlock :: "ip \<Rightarrow> 's tags \<Rightarrow> addr \<Rightarrow> bool \<Rightarrow> nat option result" where
  "base_findBlock i t a is_secure =
     bind_result (possible_blks i a) (find_blk (\<lambda>b. matchTag b (ip_extractTag i a) is_secure) t)"

definition base_findBlock_domain ::
  "ip \<Rightarrow> 's tags \<Rightarrow> addr \<Rightarrow> bool \<Rightarrow> domain_id \<Rightarrow> nat option result" where
  "base_findBlock_domain i t a is_secure d =
     bind_result (possible_blks i a)
       (find_blk (\<lambda>b. matchTag b (ip_extractTag i a) is_secure \<and> d = blk_domainID b) t)"

definition base_findMappingHitBlock :: "packet \<Rightarrow> nat option result" where
  "base_findMappingHitBlock pkt = Inl Panic"

definition base_invalidate :: "nat \<Rightarrow> 's tags \<Rightarrow> 's tags result" where
  "base_invalidate h t =
     bind_result (get_blk t h) (\<lambda>b.
     require (blk_valid b) Assert
     (let st = stats t; rid = unat (blk_srcRequestorId b)
      in Inr (put_blk h (blk_invalidate b)
           (t\<lparr>stats := st\<lparr>occupancies := (occupancies st)(rid := occupancies st rid - 1),
                          totalRefs := totalRefs st + unat (blk_refCount b),
                          sampledRefs := sampledRefs st + 1\<rparr>\<rparr>))))"

definition base_insertBlock :: "ip \<Rightarrow> nat \<Rightarrow> tick \<Rightarrow> packet \<Rightarrow> nat \<Rightarrow> 's tags \<Rightarrow> 's tags result" where
  "base_insertBlock i maxRequestors now pkt h t =
     bind_result (get_blk t h) (\<lambda>b.
     require (\<not> blk_valid b) Assert
     (let rid = req_requestorId (pkt_req pkt); st = stats t
      in require (unat rid < maxRequestors) Assert
         (bind_result (getAddr pkt) (\<lambda>a.
          bind_result (isSecure pkt) (\<lambda>sec.
          bind_result (blk_insert now (ip_extractTag i a) (ip_extractIndex i a) sec (ucast rid)
            (req_taskId (pkt_req pkt)) b) (\<lambda>b1.
          let warm = \<not> warmedUp t \<and> tagsInUse st \<ge> int (unat (warmupBound t))
          in Inr (put_blk h (b1\<lparr>blk_domainID := pkt_domainID pkt\<rparr>)
               (t\<lparr>warmedUp := warmedUp t \<or> warm,
                  stats := st\<lparr>occupancies := (occupancies st)(unat rid := occupancies st (unat rid) + 1),
                    warmupTick := if warm then now else warmupTick st,
                    tagAccesses := tagAccesses st + 1, dataAccesses := dataAccesses st + 1\<rparr>\<rparr>))))))))"

definition base_moveBlock :: "tick \<Rightarrow> nat \<Rightarrow> nat \<Rightarrow> 's tags \<Rightarrow> 's tags result" where
  "base_moveBlock now src dst t =
     bind_result (get_blk t src) (\<lambda>s. bind_result (get_blk t dst) (\<lambda>d.
     require (\<not> blk_valid d) Assert
     (require (blk_valid s) Assert
     (bind_result (blk_move now d s) (\<lambda>(d', s').
      require (blk_valid d') Assert
      (require (\<not> blk_valid s') Assert (Inr (put_blk src s' (put_blk dst d' t)))))))))"

definition cleanupRefsVisitor :: "cache_blk \<Rightarrow> tag_stats \<Rightarrow> tag_stats" where
  "cleanupRefsVisitor b st =
     (if blk_valid b then st\<lparr>totalRefs := totalRefs st + unat (blk_refCount b),
                            sampledRefs := sampledRefs st + 1\<rparr>
      else st)"

definition cleanupRefs :: "'s tags \<Rightarrow> 's tags" where
  "cleanupRefs t = t\<lparr>stats := fold cleanupRefsVisitor (blks t) (stats t)\<rparr>"

text \<open>\<open>us\<close> and \<open>ms\<close> are the ticks in a micro- and a millisecond; \<open>NumTaskId\<close> is 1025.\<close>

definition NumTaskId :: nat where "NumTaskId = 1025"

definition age_index :: "tick \<Rightarrow> tick \<Rightarrow> tick \<Rightarrow> nat" where
  "age_index us ms age =
     (if age div us < 10 then 0 else if age div us < 100 then 1
      else if age div ms < 1 then 2 else if age div ms < 10 then 3 else 4)"

definition computeStatsVisitor ::
  "tick \<Rightarrow> tick \<Rightarrow> tick \<Rightarrow> cache_blk \<Rightarrow> tag_stats \<Rightarrow> tag_stats result" where
  "computeStatsVisitor us ms now b st =
     (if blk_valid b
      then let tid = unat (blk_taskId b)
           in require (tid < NumTaskId) Assert
              (bind_result (getAge now b) (\<lambda>age.
               let k = age_index us ms age
               in Inr (st\<lparr>occupanciesTaskId := (occupanciesTaskId st)(tid := occupanciesTaskId st tid + 1),
                          ageTaskId := (ageTaskId st)(tid := (ageTaskId st tid)(k := ageTaskId st tid k + 1))\<rparr>)))
      else Inr st)"

definition computeStats :: "tick \<Rightarrow> tick \<Rightarrow> tick \<Rightarrow> 's tags \<Rightarrow> 's tags result" where
  "computeStats us ms now t =
     bind_result (fold_result (computeStatsVisitor us ms now) (blks t)
       ((stats t)\<lparr>occupanciesTaskId := (\<lambda>i. if i < NumTaskId then 0 else occupanciesTaskId (stats t) i),
                  ageTaskId := (\<lambda>i j. if i < NumTaskId \<and> j < 5 then 0 else ageTaskId (stats t) i j)\<rparr>))
       (\<lambda>st. Inr (t\<lparr>stats := st\<rparr>))"

section \<open>The set-associative store\<close>

text \<open>The constructor's checks, and the initialisation of the blocks, which places every block in
  the indexing policy. \<open>bytes\<close> is the content of the data store.\<close>

definition new_base_set_assoc :: "64 word \<Rightarrow> u32 \<Rightarrow> 64 word \<Rightarrow> u32 \<Rightarrow> u32 \<Rightarrow> bool \<Rightarrow> 's \<Rightarrow> cache_blk list \<Rightarrow> 's tags result" where
  "new_base_set_assoc sz block_size lat warmup assc seq_access rd fresh =
     require (block_size \<noteq> 0) Undefined
     (require (4 \<le> block_size \<and> isPowerOf2 block_size) Fatal
     (Inr (new_base_tags sz block_size lat warmup assc seq_access rd fresh)))"

definition init_blk :: "'s rp \<Rightarrow> u8 list \<Rightarrow> nat \<Rightarrow> 'a base_indexing_scheme \<times> 's tags \<Rightarrow>
    ('a base_indexing_scheme \<times> 's tags) result" where
  "init_blk pol bytes h = (\<lambda>(p, t).
     bind_result (get_blk t h) (\<lambda>b.
     bind_result (setEntry p h h) (\<lambda>(p', st, way).
     let sz = unat (tag_blkSize t)
     in Inr (p', (put_blk h ((setPosition (of_nat st) (of_nat way) b)\<lparr>blk_data := take sz (drop (sz * h) bytes)\<rparr>)
                    (t\<lparr>rdata := rp_instantiate pol h (rdata t)\<rparr>))))))"

definition tagsInit :: "'s rp \<Rightarrow> u8 list \<Rightarrow> 'a base_indexing_scheme \<times> 's tags \<Rightarrow>
    ('a base_indexing_scheme \<times> 's tags) result" where
  "tagsInit pol bytes pt = fold_result (init_blk pol bytes) [0..<unat (numBlocks (snd pt))] pt"

definition with_rdata :: "('s \<Rightarrow> 's result) \<Rightarrow> 's tags \<Rightarrow> 's tags result" where
  "with_rdata f t = bind_result (f (rdata t)) (\<lambda>s. Inr (t\<lparr>rdata := s\<rparr>))"

definition add_tagsInUse :: "int \<Rightarrow> 's tags \<Rightarrow> 's tags" where
  "add_tagsInUse n t = t\<lparr>stats := (stats t)\<lparr>tagsInUse := tagsInUse (stats t) + n\<rparr>\<rparr>"

definition sa_invalidate :: "'s rp \<Rightarrow> nat \<Rightarrow> 's tags \<Rightarrow> 's tags result" where
  "sa_invalidate pol h t =
     bind_result (base_invalidate h t) (\<lambda>t1. with_rdata (rp_invalidate pol h) (add_tagsInUse (- 1) t1))"

definition count_access :: "nat option \<Rightarrow> 's tags \<Rightarrow> 's tags" where
  "count_access hit t =
     (let st = stats t; n = unat (allocAssoc t)
      in t\<lparr>stats := st\<lparr>tagAccesses := tagAccesses st + n,
             dataAccesses := dataAccesses st +
               (if sequentialAccess t then (if hit \<noteq> None then 1 else 0) else n)\<rparr>\<rparr>)"

text \<open>What follows the lookup of an access; \<open>touch\<close> says whether a hit updates the replacement
  data.\<close>

definition finish_access :: "'s rp \<Rightarrow> bool \<Rightarrow> 's tags \<Rightarrow> nat option \<Rightarrow> (nat option \<times> 64 word \<times> 's tags) result" where
  "finish_access pol touch t hit =
     (let t1 = count_access hit t
      in case hit of
           None \<Rightarrow> Inr (None, lookupLatency t, t1)
         | Some h \<Rightarrow>
             bind_result (get_blk t1 h) (\<lambda>b.
             let t2 = put_blk h (increaseRefCount b) t1
             in if touch then bind_result (with_rdata (rp_touch pol h) t2) (\<lambda>t3. Inr (Some h, lookupLatency t, t3))
                else Inr (Some h, lookupLatency t, t2)))"

definition sa_accessBlock ::
  "ip \<Rightarrow> 's rp \<Rightarrow> addr \<Rightarrow> bool \<Rightarrow> 's tags \<Rightarrow> (nat option \<times> 64 word \<times> 's tags) result" where
  "sa_accessBlock i pol a is_secure t =
     bind_result (base_findBlock i t a is_secure) (finish_access pol True t)"

definition sa_accessBlock_domain :: "ip \<Rightarrow> 's rp \<Rightarrow> addr \<Rightarrow> bool \<Rightarrow> domain_id \<Rightarrow> bool \<Rightarrow> 's tags \<Rightarrow>
    (nat option \<times> 64 word \<times> 's tags) result" where
  "sa_accessBlock_domain i pol a is_secure d no_fill t =
     bind_result (base_findBlock_domain i t a is_secure d) (finish_access pol (\<not> no_fill) t)"

text \<open>Both overloads of \<^verbatim>\<open>findVictim\<close> have the same body; the victim is the only block to evict.\<close>

definition sa_findVictim :: "ip \<Rightarrow> 's rp \<Rightarrow> addr \<Rightarrow> 's tags \<Rightarrow> (nat \<times> nat list \<times> 's tags) result" where
  "sa_findVictim i pol a t =
     bind_result (possible_blks i a) (\<lambda>hs.
     bind_result (rp_getVictim pol (rdata t) hs) (\<lambda>(v, s). Inr (v, [v], t\<lparr>rdata := s\<rparr>)))"

definition sa_findVictim_domain ::
  "ip \<Rightarrow> 's rp \<Rightarrow> addr \<Rightarrow> domain_id \<Rightarrow> 's tags \<Rightarrow> (nat \<times> nat list \<times> 's tags) result" where
  "sa_findVictim_domain i pol a d t = sa_findVictim i pol a t"

definition sa_insertBlock ::
  "ip \<Rightarrow> 's rp \<Rightarrow> nat \<Rightarrow> tick \<Rightarrow> packet \<Rightarrow> nat \<Rightarrow> 's tags \<Rightarrow> 's tags result" where
  "sa_insertBlock i pol maxRequestors now pkt h t =
     bind_result (base_insertBlock i maxRequestors now pkt h t) (\<lambda>t1.
     with_rdata (rp_reset pol h) (add_tagsInUse 1 t1))"

definition sa_moveBlock :: "'s rp \<Rightarrow> tick \<Rightarrow> nat \<Rightarrow> nat \<Rightarrow> 's tags \<Rightarrow> 's tags result" where
  "sa_moveBlock pol now src dst t =
     bind_result (base_moveBlock now src dst t) (\<lambda>t1.
     bind_result (with_rdata (rp_invalidate pol src) t1) (with_rdata (rp_reset pol dst)))"

definition setWayAllocationMax :: "int \<Rightarrow> 's tags \<Rightarrow> 's tags result" where
  "setWayAllocationMax ways t = require (1 \<le> ways) Fatal (Inr (t\<lparr>allocAssoc := of_int ways\<rparr>))"

definition sa_regenerateBlkAddr :: "ip \<Rightarrow> cache_blk \<Rightarrow> addr result" where
  "sa_regenerateBlkAddr i b = ip_regenerate i (blk_tag b) b"

definition anyBlk :: "(cache_blk \<Rightarrow> bool) \<Rightarrow> 's tags \<Rightarrow> bool" where
  "anyBlk visitor t = list_ex visitor (blks t)"

definition forEachBlk :: "(cache_blk \<Rightarrow> cache_blk) \<Rightarrow> 's tags \<Rightarrow> 's tags" where
  "forEachBlk visitor t = t\<lparr>blks := map visitor (blks t)\<rparr>"

section \<open>A tag store as a map\<close>

text \<open>
  What a lookup does once pointers are resolved: the first block among the candidates of an
  address that hits. The locale states what an indexing policy and a hit test must satisfy for the
  blocks to behave like a finite map from block addresses (and a qualifier \<open>q\<close>, e.g. the secure bit
  and the domain) to positions: a block in a slot two addresses share hits for both only if they
  are the same block.
\<close>

definition blk_lookup :: "(addr \<Rightarrow> nat list) \<Rightarrow> (addr \<Rightarrow> 'q \<Rightarrow> cache_blk \<Rightarrow> bool) \<Rightarrow> cache_blk list \<Rightarrow>
    addr \<Rightarrow> 'q \<Rightarrow> nat option" where
  "blk_lookup cand hit bs a q = first_match (\<lambda>h. hit a q (bs ! h)) (cand a)"

definition unique_hits :: "(addr \<Rightarrow> nat list) \<Rightarrow> (addr \<Rightarrow> 'q \<Rightarrow> cache_blk \<Rightarrow> bool) \<Rightarrow> cache_blk list \<Rightarrow> bool" where
  "unique_hits cand hit bs \<longleftrightarrow> (\<forall>a q. \<forall>h \<in> set (cand a). \<forall>h' \<in> set (cand a).
     hit a q (bs ! h) \<longrightarrow> hit a q (bs ! h') \<longrightarrow> h = h')"

lemma blk_lookup_None:
  "blk_lookup cand hit bs a q = None \<longleftrightarrow> (\<forall>h \<in> set (cand a). \<not> hit a q (bs ! h))"
  unfolding blk_lookup_def by simp

lemma blk_lookup_Some:
  assumes "unique_hits cand hit bs"
  shows "blk_lookup cand hit bs a q = Some h \<longleftrightarrow> h \<in> set (cand a) \<and> hit a q (bs ! h)"
proof
  assume "blk_lookup cand hit bs a q = Some h"
  then show "h \<in> set (cand a) \<and> hit a q (bs ! h)" unfolding blk_lookup_def by (auto dest: first_match_SomeD)
next
  assume h: "h \<in> set (cand a) \<and> hit a q (bs ! h)"
  then obtain h' where h': "blk_lookup cand hit bs a q = Some h'"
    using blk_lookup_None [of cand hit bs a q] by (cases "blk_lookup cand hit bs a q") auto
  then have "h' \<in> set (cand a)" "hit a q (bs ! h')" unfolding blk_lookup_def by (auto dest: first_match_SomeD)
  with h assms h' show "blk_lookup cand hit bs a q = Some h" unfolding unique_hits_def by metis
qed

lemma blk_lookup_cong:
  assumes "\<And>h. h \<in> set (cand a) \<Longrightarrow> hit a q (bs ! h) = hit a q (cs ! h)"
  shows "blk_lookup cand hit bs a q = blk_lookup cand hit cs a q"
  unfolding blk_lookup_def using assms by (auto intro: first_match_cong)

locale block_map =
  fixes ok :: "'p \<Rightarrow> bool"
    and cand :: "'p \<Rightarrow> addr \<Rightarrow> nat list"
    and canon :: "'p \<Rightarrow> addr \<Rightarrow> addr"
    and hit :: "'p \<Rightarrow> addr \<Rightarrow> 'q \<Rightarrow> cache_blk \<Rightarrow> bool"
  assumes hit_valid: "hit p a q b \<Longrightarrow> blk_valid b"
    and same_cand: "ok p \<Longrightarrow> canon p a = canon p a' \<Longrightarrow> cand p a = cand p a'"
    and same_hit: "ok p \<Longrightarrow> canon p a = canon p a' \<Longrightarrow> hit p a = hit p a'"
    and hit_same: "ok p \<Longrightarrow> h \<in> set (cand p a) \<Longrightarrow> h \<in> set (cand p a') \<Longrightarrow>
      hit p a q b \<Longrightarrow> hit p a' q' b \<Longrightarrow> canon p a = canon p a' \<and> q = q'"
begin

lemma lookup_insert:
  assumes "ok p" "unique_hits (cand p) (hit p) bs" "blk_lookup (cand p) (hit p) bs a q = None"
    and "h \<in> set (cand p a)" "h < length bs" "hit p a q b" "\<not> blk_valid (bs ! h)"
  shows "unique_hits (cand p) (hit p) (bs[h := b])"
    and "blk_lookup (cand p) (hit p) (bs[h := b]) a' q' =
      (if canon p a' = canon p a \<and> q' = q then Some h else blk_lookup (cand p) (hit p) bs a' q')"
proof -
  have new: "canon p x = canon p a \<and> y = q" if "h \<in> set (cand p x)" "hit p x y b" for x y
    using hit_same [OF assms(1,4) that(1) assms(6) that(2)] by auto
  have old: "\<not> hit p a q (bs ! g)" if "g \<in> set (cand p a)" for g
    using assms(3) that by (simp add: blk_lookup_None)
  have dead: "\<not> hit p x y (bs ! h)" for x y using assms(7) hit_valid by blast
  show u: "unique_hits (cand p) (hit p) (bs[h := b])"
    unfolding unique_hits_def
  proof (intro allI ballI impI)
    fix x y g g'
    assume g: "g \<in> set (cand p x)" "g' \<in> set (cand p x)" "hit p x y (bs[h := b] ! g)" "hit p x y (bs[h := b] ! g')"
    consider "g = h" "g' = h" | "g \<noteq> h" "g' \<noteq> h" | "g = h" "g' \<noteq> h" | "g \<noteq> h" "g' = h" by blast
    then show "g = g'"
    proof cases
      case 2
      with g assms(2) show ?thesis unfolding unique_hits_def by auto
    next
      case 3
      with g assms(5) new have xa: "canon p x = canon p a" "y = q" by auto
      with 3 g old [of g'] same_cand [OF assms(1) xa(1)] same_hit [OF assms(1) xa(1)] show ?thesis by auto
    next
      case 4
      with g assms(5) new have xa: "canon p x = canon p a" "y = q" by auto
      with 4 g old [of g] same_cand [OF assms(1) xa(1)] same_hit [OF assms(1) xa(1)] show ?thesis by auto
    qed simp
  qed
  show "blk_lookup (cand p) (hit p) (bs[h := b]) a' q' =
      (if canon p a' = canon p a \<and> q' = q then Some h else blk_lookup (cand p) (hit p) bs a' q')"
  proof (cases "canon p a' = canon p a \<and> q' = q")
    case True
    then have "h \<in> set (cand p a')" "hit p a' q' (bs[h := b] ! h)"
      using same_cand [OF assms(1), of a' a] same_hit [OF assms(1), of a' a] assms(4-6) by auto
    with True show ?thesis using blk_lookup_Some [OF u] by simp
  next
    case False
    have "hit p a' q' (bs[h := b] ! g) = hit p a' q' (bs ! g)" if "g \<in> set (cand p a')" for g
      using that False new dead assms(5) by (cases "g = h") auto
    then have "blk_lookup (cand p) (hit p) (bs[h := b]) a' q' = blk_lookup (cand p) (hit p) bs a' q'"
      by (rule blk_lookup_cong)
    then show ?thesis unfolding if_not_P [OF False] .
  qed
qed

lemma lookup_remove:
  assumes "unique_hits (cand p) (hit p) bs" "\<not> blk_valid b" "h < length bs"
  shows "unique_hits (cand p) (hit p) (bs[h := b])"
    and "blk_lookup (cand p) (hit p) (bs[h := b]) a q =
      (if blk_lookup (cand p) (hit p) bs a q = Some h then None else blk_lookup (cand p) (hit p) bs a q)"
proof -
  have dead: "\<not> hit p x y b" for x y using assms(2) hit_valid by blast
  have upd: "hit p x y (bs[h := b] ! g) \<longleftrightarrow> g \<noteq> h \<and> hit p x y (bs ! g)" for x y g
    using dead assms(3) by (cases "g = h") auto
  show u: "unique_hits (cand p) (hit p) (bs[h := b])"
    using assms(1) unfolding unique_hits_def upd by blast
  show "blk_lookup (cand p) (hit p) (bs[h := b]) a q =
      (if blk_lookup (cand p) (hit p) bs a q = Some h then None else blk_lookup (cand p) (hit p) bs a q)"
  proof (cases "blk_lookup (cand p) (hit p) bs a q")
    case None
    then have "blk_lookup (cand p) (hit p) (bs[h := b]) a q = None"
      unfolding blk_lookup_None upd by blast
    with None show ?thesis by simp
  next
    case (Some g)
    then have g: "g \<in> set (cand p a)" "hit p a q (bs ! g)" by (simp_all add: blk_lookup_Some [OF assms(1)])
    show ?thesis
    proof (cases "g = h")
      case True
      then have "blk_lookup (cand p) (hit p) (bs[h := b]) a q = None"
        using Some assms(1) g unfolding blk_lookup_None upd unique_hits_def by blast
      with True Some show ?thesis by simp
    next
      case False
      with g have "blk_lookup (cand p) (hit p) (bs[h := b]) a q = Some g"
        by (simp add: blk_lookup_Some [OF u] upd)
      with False Some show ?thesis by simp
    qed
  qed
qed

lemma lookup_same:
  assumes "\<And>x y. hit p x y b = hit p x y (bs ! h)" "h < length bs"
  shows "unique_hits (cand p) (hit p) (bs[h := b]) = unique_hits (cand p) (hit p) bs"
    and "blk_lookup (cand p) (hit p) (bs[h := b]) a q = blk_lookup (cand p) (hit p) bs a q"
proof -
  have upd: "hit p x y (bs[h := b] ! g) = hit p x y (bs ! g)" for x y g
    using assms by (cases "g = h") auto
  show "unique_hits (cand p) (hit p) (bs[h := b]) = unique_hits (cand p) (hit p) bs"
    unfolding unique_hits_def upd ..
  show "blk_lookup (cand p) (hit p) (bs[h := b]) a q = blk_lookup (cand p) (hit p) bs a q"
    by (intro blk_lookup_cong) (simp add: upd)
qed

lemma lookup_all_invalid:
  assumes "\<And>h. h \<in> set (cand p a) \<Longrightarrow> \<not> blk_valid (bs ! h)"
  shows "blk_lookup (cand p) (hit p) bs a q = None"
  using assms hit_valid unfolding blk_lookup_None by blast

end

section \<open>The set-associative store is a map\<close>

lemma deref_all_Inr: "deref_all es = Inr hs \<longleftrightarrow> es = map Some hs"
  by (induction es arbitrary: hs rule: deref_all.induct) (auto simp: result_simps)

lemma find_blk_first_match:
  "(\<And>h. h \<in> set hs \<Longrightarrow> h < length (blks t)) \<Longrightarrow> find_blk P t hs = Inr (first_match (\<lambda>h. P (blks t ! h)) hs)"
  by (induction hs) (auto simp: get_blk_def)

text \<open>After \<open>tagsInit\<close> the slot of every position holds the block with the number of the position.\<close>

definition filled :: "'a base_indexing_scheme \<Rightarrow> bool" where
  "filled p \<longleftrightarrow> (\<forall>st < length (sets p). \<forall>way < assoc p. sets p ! st ! way = Some (st * assoc p + way))"

definition sa_ok :: "base_indexing \<Rightarrow> bool" where
  "sa_ok p \<longleftrightarrow> sa_wf p \<and> filled p"

definition sa_cand :: "base_indexing \<Rightarrow> addr \<Rightarrow> nat list" where
  "sa_cand p a = map (\<lambda>(st, way). st * assoc p + way) (sa_positions p a)"

definition sa_hit :: "base_indexing \<Rightarrow> addr \<Rightarrow> bool \<times> domain_id \<Rightarrow> cache_blk \<Rightarrow> bool" where
  "sa_hit p a q b \<longleftrightarrow> matchTag b (base_extractTag p a) (fst q) \<and> snd q = blk_domainID b"

lemma position_number_inj:
  fixes s w s' w' n :: nat
  assumes "w < n" "w' < n" "s * n + w = s' * n + w'"
  shows "s = s'" "w = w'"
proof -
  have "(s * n + w) div n = s" "(s' * n + w') div n = s'" using assms(1,2) by simp_all
  with assms(3) show "s = s'" by simp
  with assms(3) show "w = w'" by simp
qed

interpretation sa_map: block_map sa_ok sa_cand "\<lambda>p. block_addr (setShift p)" sa_hit
proof
  fix p a a' h b and q q' :: "bool \<times> domain_id"
  show "sa_hit p a q b \<Longrightarrow> blk_valid b" by (simp add: sa_hit_def matchTag_def)
  assume ok: "sa_ok p"
  then have wf: "sa_wf p" by (simp add: sa_ok_def)
  show "block_addr (setShift p) a = block_addr (setShift p) a' \<Longrightarrow> sa_cand p a = sa_cand p a'"
    by (simp add: sa_cand_def sa.canon_positions [OF wf, of a a'])
  show "block_addr (setShift p) a = block_addr (setShift p) a' \<Longrightarrow> sa_hit p a = sa_hit p a'"
    by (simp add: sa_hit_def fun_eq_iff sa.canon_key [OF wf, of a a'])
  assume h: "h \<in> set (sa_cand p a)" "h \<in> set (sa_cand p a')" "sa_hit p a q b" "sa_hit p a' q' b"
  from h(1,2) obtain st w st' w' where pos: "(st, w) \<in> set (sa_positions p a)" "(st', w') \<in> set (sa_positions p a')"
    and eq: "h = st * assoc p + w" "h = st' * assoc p + w'" by (auto simp: sa_cand_def)
  have w: "w < assoc p" "w' < assoc p" using pos by (auto simp: sa_positions_def)
  have "st * assoc p + w = st' * assoc p + w'" using eq by simp
  from position_number_inj [OF w this] have "(st, w) = (st', w')" by simp
  moreover have "base_extractTag p a = base_extractTag p a'" "q = q'"
    using h(3,4) by (auto simp: sa_hit_def matchTag_def intro: prod_eqI)
  ultimately show "block_addr (setShift p) a = block_addr (setShift p) a' \<and> q = q'"
    using sa.same_slot_same_key_same_block [OF wf pos(1), of a'] pos(2) by simp
qed

definition sa_inv :: "base_indexing \<Rightarrow> 's tags \<Rightarrow> bool" where
  "sa_inv p t \<longleftrightarrow> sa_ok p \<and> length (blks t) = length (sets p) * assoc p \<and>
     unique_hits (sa_cand p) (sa_hit p) (blks t) \<and>
     (\<forall>h < length (blks t). (\<not> blk_valid (blks t ! h) \<longrightarrow> \<not> blk_secure (blks t ! h)) \<and>
        blk_set (blks t ! h) = of_nat (h div assoc p))"

lemma sa_cand_bound:
  assumes "sa_ok p" "h \<in> set (sa_cand p a)"
  shows "h < length (sets p) * assoc p"
proof -
  from assms(1) obtain n where n: "wf_indexing n p" by (auto simp: sa_ok_def sa_wf_def)
  from assms(2) obtain st w where "(st, w) \<in> set (sa_positions p a)" "h = st * assoc p + w"
    by (auto simp: sa_cand_def)
  then have w: "w < assoc p" "h = unat (sa_extractSet p a) * assoc p + w"
    by (auto simp: sa_positions_def)
  have "unat (sa_extractSet p a) < length (sets p)"
    using sa_extractSet_less [OF n] n by (simp add: wf_indexing_def)
  then have "unat (sa_extractSet p a) * assoc p + assoc p \<le> length (sets p) * assoc p"
    by (metis Suc_leI add.commute mult_Suc mult_le_mono1)
  with w show ?thesis by simp
qed

lemma sa_possible:
  assumes "sa_ok p"
  shows "possible_blks (sa_ip p) a = Inr (sa_cand p a)"
proof -
  from assms obtain n where n: "wf_indexing n p" by (auto simp: sa_ok_def sa_wf_def)
  have len: "unat (sa_extractSet p a) < length (sets p)"
    using sa_extractSet_less [OF n] n by (simp add: wf_indexing_def)
  have "sa_getPossibleEntries p a = map Some (sa_cand p a)"
    using assms len by (auto simp: sa_getPossibleEntries_positions [OF n] sa_cand_def sa_positions_def
        sa_ok_def filled_def)
  then show ?thesis by (simp add: possible_blks_def deref_all_Inr)
qed

lemma sa_find:
  assumes "sa_inv p t"
  shows "base_findBlock_domain (sa_ip p) t a s d =
    Inr (blk_lookup (sa_cand p) (sa_hit p) (blks t) a (s, d))"
proof -
  have ok: "sa_ok p" and len: "length (blks t) = length (sets p) * assoc p"
    using assms by (simp_all add: sa_inv_def)
  have "find_blk P t (sa_cand p a) = Inr (first_match (\<lambda>h. P (blks t ! h)) (sa_cand p a))" for P
    by (rule find_blk_first_match) (use sa_cand_bound [OF ok] len in simp)
  then show ?thesis
    by (simp add: base_findBlock_domain_def sa_possible [OF ok] blk_lookup_def sa_hit_def)
qed

lemma with_rdata_blks: "with_rdata f t = Inr t' \<Longrightarrow> blks t' = blks t"
  by (auto simp: with_rdata_def result_simps)

lemma blk_insert_fields:
  assumes "blk_insert now tag idx s rid tid b = Inr b'"
  shows "\<not> blk_valid b" "blk_valid b'" "blk_tag b' = tag" "blk_index_bits b' = idx"
    "blk_secure b' = (s \<or> blk_secure b)"
  using assms by (auto simp: blk_insert_def entry_insert_index_def setValid_def increaseRefCount_def Let_def
      result_simps split: if_splits)

lemma base_insert_blks:
  assumes "base_insertBlock i m now pkt h t = Inr t'"
  shows "h < length (blks t)" "\<not> blk_valid (blks t ! h)" "pkt_isSet pkt VALID_ADDR"
    "blks t' = (blks t)[h := blks t' ! h]" "blk_valid (blks t' ! h)"
    "blk_tag (blks t' ! h) = ip_extractTag i (pkt_addr pkt)"
    "blk_index_bits (blks t' ! h) = ip_extractIndex i (pkt_addr pkt)"
    "blk_secure (blks t' ! h) = (pkt_isSecure pkt \<or> blk_secure (blks t ! h))"
    "blk_domainID (blks t' ! h) = pkt_domainID pkt"
proof -
  from assms obtain b1 where h: "h < length (blks t)" and a: "pkt_isSet pkt VALID_ADDR"
    and b1: "blk_insert now (ip_extractTag i (pkt_addr pkt)) (ip_extractIndex i (pkt_addr pkt))
      (pkt_isSecure pkt) (ucast (req_requestorId (pkt_req pkt))) (req_taskId (pkt_req pkt)) (blks t ! h) = Inr b1"
    and t': "blks t' = (blks t)[h := b1\<lparr>blk_domainID := pkt_domainID pkt\<rparr>]"
    by (auto simp: base_insertBlock_def put_blk_def get_blk_def getAddr_def isSecure_def Let_def result_simps)
  note f = blk_insert_fields [OF b1]
  show "h < length (blks t)" "\<not> blk_valid (blks t ! h)" "pkt_isSet pkt VALID_ADDR"
    using h f a by simp_all
  show "blks t' = (blks t)[h := blks t' ! h]" "blk_valid (blks t' ! h)"
    "blk_tag (blks t' ! h) = ip_extractTag i (pkt_addr pkt)"
    "blk_index_bits (blks t' ! h) = ip_extractIndex i (pkt_addr pkt)"
    "blk_secure (blks t' ! h) = (pkt_isSecure pkt \<or> blk_secure (blks t ! h))"
    "blk_domainID (blks t' ! h) = pkt_domainID pkt"
    using h f t' by simp_all
qed

lemma sa_insert_base:
  assumes "sa_insertBlock i pol m now pkt h t = Inr t'"
  shows "\<exists>t1. base_insertBlock i m now pkt h t = Inr t1 \<and> blks t' = blks t1"
  using assms unfolding sa_insertBlock_def bind_result_eq_Inr with_rdata_def
  by (auto simp: add_tagsInUse_def result_simps)

lemma sa_insert_blks:
  assumes "sa_insertBlock i pol m now pkt h t = Inr t'"
  shows "h < length (blks t)" "\<not> blk_valid (blks t ! h)" "pkt_isSet pkt VALID_ADDR"
    "blks t' = (blks t)[h := blks t' ! h]" "blk_valid (blks t' ! h)"
    "blk_tag (blks t' ! h) = ip_extractTag i (pkt_addr pkt)"
    "blk_index_bits (blks t' ! h) = ip_extractIndex i (pkt_addr pkt)"
    "blk_secure (blks t' ! h) = (pkt_isSecure pkt \<or> blk_secure (blks t ! h))"
    "blk_domainID (blks t' ! h) = pkt_domainID pkt"
proof -
  from sa_insert_base [OF assms] obtain t1 where t1: "base_insertBlock i m now pkt h t = Inr t1" "blks t' = blks t1"
    by blast
  note f = base_insert_blks [OF t1(1), folded t1(2)]
  show "h < length (blks t)" "\<not> blk_valid (blks t ! h)" "pkt_isSet pkt VALID_ADDR"
    "blks t' = (blks t)[h := blks t' ! h]" "blk_valid (blks t' ! h)"
    "blk_tag (blks t' ! h) = ip_extractTag i (pkt_addr pkt)"
    "blk_index_bits (blks t' ! h) = ip_extractIndex i (pkt_addr pkt)"
    "blk_secure (blks t' ! h) = (pkt_isSecure pkt \<or> blk_secure (blks t ! h))"
    "blk_domainID (blks t' ! h) = pkt_domainID pkt"
    by (fact f)+
qed

lemma sa_invalidate_blks:
  assumes "sa_invalidate pol h t = Inr t'"
  shows "h < length (blks t)" "blk_valid (blks t ! h)" "blks t' = (blks t)[h := blk_invalidate (blks t ! h)]"
  using assms by (auto simp: sa_invalidate_def base_invalidate_def with_rdata_def add_tagsInUse_def
      put_blk_def get_blk_def Let_def result_simps)

lemma blk_invalidate_fields [simp]:
  "\<not> blk_valid (blk_invalidate b)" "\<not> blk_secure (blk_invalidate b)" "lockList (blk_invalidate b) = []"
  "blk_domainID (blk_invalidate b) = 0"
  by (simp_all add: blk_invalidate_def clearCoherenceBits_def entry_invalidate_def)

lemma base_insert_set:
  "base_insertBlock i m now pkt h t = Inr t' \<Longrightarrow> blk_set (blks t' ! h) = blk_set (blks t ! h)"
  by (auto simp: base_insertBlock_def put_blk_def get_blk_def blk_insert_def entry_insert_index_def
      setValid_def increaseRefCount_def Let_def result_simps)

text \<open>Claim C17. The set-associative store is a map from (block address, secure bit, domain) to
  blocks: inserting a packet that missed in a free block of its set makes exactly its block
  address, in its domain, hit there; every other lookup keeps its answer and the invariant that
  no key hits twice is kept.\<close>

theorem set_assoc_insert_is_map_update:
  assumes "sa_inv p t" "base_findBlock_domain (sa_ip p) t (pkt_addr pkt) (pkt_isSecure pkt) (pkt_domainID pkt) = Inr None"
    and "possible_blks (sa_ip p) (pkt_addr pkt) = Inr hs" "h \<in> set hs"
    and "sa_insertBlock (sa_ip p) pol m now pkt h t = Inr t'"
  shows "sa_inv p t' \<and> (\<forall>a s d. base_findBlock_domain (sa_ip p) t' a s d =
    (if block_addr (setShift p) a = block_addr (setShift p) (pkt_addr pkt) \<and> s = pkt_isSecure pkt \<and>
        d = pkt_domainID pkt
     then Inr (Some h) else base_findBlock_domain (sa_ip p) t a s d))"
proof -
  let ?q = "(pkt_isSecure pkt, pkt_domainID pkt)"
  have ok: "sa_ok p" and u: "unique_hits (sa_cand p) (sa_hit p) (blks t)"
    and len: "length (blks t) = length (sets p) * assoc p" using assms(1) by (simp_all add: sa_inv_def)
  note f = sa_insert_blks [OF assms(5)]
  have hc: "h \<in> set (sa_cand p (pkt_addr pkt))" using assms(3,4) by (simp add: sa_possible [OF ok])
  have miss: "blk_lookup (sa_cand p) (sa_hit p) (blks t) (pkt_addr pkt) ?q = None"
    using assms(2) by (simp add: sa_find [OF assms(1)])
  have ns: "\<not> blk_secure (blks t ! h)" using assms(1) f(1,2) by (simp add: sa_inv_def)
  have hit: "sa_hit p (pkt_addr pkt) ?q (blks t' ! h)"
    using f(5-9) ns by (simp add: sa_hit_def matchTag_def)
  note map = sa_map.lookup_insert [OF ok u miss hc f(1) hit f(2), folded f(4)]
  from sa_insert_base [OF assms(5)] have "blk_set (blks t' ! h) = blk_set (blks t ! h)"
    using base_insert_set by fastforce
  then have fields: "(\<not> blk_valid (blks t' ! g) \<longrightarrow> \<not> blk_secure (blks t' ! g)) \<and>
      blk_set (blks t' ! g) = of_nat (g div assoc p)" if "g < length (blks t')" for g
    using that assms(1) f(1,4,5) by (cases "g = h") (auto simp: sa_inv_def, (metis length_list_update nth_list_update_neq)+)
  have len': "length (blks t') = length (blks t)" using f(4) by (metis length_list_update)
  have inv: "sa_inv p t'" unfolding sa_inv_def using ok len len' map(1) fields by simp
  then show ?thesis using map(2) by (simp add: sa_find [OF inv] sa_find [OF assms(1)])
qed

text \<open>Claim C32. Invalidating a block removes exactly the key that hit in it, and keeps the
  invariant.\<close>

theorem set_assoc_invalidate_is_map_delete:
  assumes "sa_inv p t" "sa_invalidate pol h t = Inr t'"
  shows "sa_inv p t' \<and> (\<forall>a s d. base_findBlock_domain (sa_ip p) t' a s d =
    (if base_findBlock_domain (sa_ip p) t a s d = Inr (Some h) then Inr None
     else base_findBlock_domain (sa_ip p) t a s d))"
proof -
  have ok: "sa_ok p" and u: "unique_hits (sa_cand p) (sa_hit p) (blks t)"
    and len: "length (blks t) = length (sets p) * assoc p" using assms(1) by (simp_all add: sa_inv_def)
  note f = sa_invalidate_blks [OF assms(2)]
  note map = sa_map.lookup_remove [OF u blk_invalidate_fields(1) [of "blks t ! h"] f(1), folded f(3)]
  have "blk_set (blk_invalidate b) = blk_set b" for b
    by (simp add: blk_invalidate_def clearCoherenceBits_def entry_invalidate_def)
  then have "(\<not> blk_valid (blks t' ! g) \<longrightarrow> \<not> blk_secure (blks t' ! g)) \<and>
      blk_set (blks t' ! g) = of_nat (g div assoc p)" if "g < length (blks t')" for g
    using that assms(1) f(1,3) by (cases "g = h") (auto simp: sa_inv_def)
  then have inv: "sa_inv p t'" unfolding sa_inv_def using ok len map(1) f(3) by simp
  then show ?thesis using map(2) by (simp add: sa_find [OF inv] sa_find [OF assms(1)])
qed

text \<open>Claim C18. A lookup is exact and isolated by domain: what it returns is a valid block of the
  asking domain and secure space whose regenerated address is the block address asked for.\<close>

theorem set_assoc_lookup_sound:
  assumes "sa_inv p t" "base_findBlock_domain (sa_ip p) t a s d = Inr (Some h)"
  shows "blk_valid (blks t ! h) \<and> blk_domainID (blks t ! h) = d \<and> blk_secure (blks t ! h) = s \<and>
    sa_regenerateBlkAddr (sa_ip p) (blks t ! h) = Inr (block_addr (setShift p) a)"
proof -
  have ok: "sa_ok p" and u: "unique_hits (sa_cand p) (sa_hit p) (blks t)"
    and len: "length (blks t) = length (sets p) * assoc p" using assms(1) by (simp_all add: sa_inv_def)
  from assms(2) have h: "h \<in> set (sa_cand p a)" "sa_hit p a (s, d) (blks t ! h)"
    by (simp_all add: sa_find [OF assms(1)] blk_lookup_Some [OF u])
  from ok obtain n where n: "wf_indexing n p" and ts: "tagShift p \<le> 32" by (auto simp: sa_ok_def sa_wf_def)
  from h(1) obtain st w where "(st, w) \<in> set (sa_positions p a)" "h = st * assoc p + w"
    by (auto simp: sa_cand_def)
  then have "h div assoc p = unat (sa_extractSet p a)" by (auto simp: sa_positions_def)
  moreover have "h < length (blks t)" using sa_cand_bound [OF ok h(1)] len by simp
  ultimately have "blk_set (blks t ! h) = sa_extractSet p a" using assms(1) by (simp add: sa_inv_def)
  then show ?thesis using h(2) sa_regenerateAddr_extract [OF n ts, of a]
    by (auto simp: sa_hit_def matchTag_def sa_regenerateBlkAddr_def sa_ip_def)
qed


section \<open>Initialisation\<close>

lemma fold_result_append:
  "fold_result f (xs @ ys) s = bind_result (fold_result f xs s) (fold_result f ys)"
  by (induction xs arbitrary: s) (auto simp: bind_result_def split: sum.splits)

lemma init_blk_Inr:
  assumes "init_blk pol bytes h (p, t) = Inr (p', t')"
  shows "h < length (blks t)" "h div assoc p < unat (numSets p)"
    "p' = p\<lparr>sets := (sets p)[h div assoc p := (sets p ! (h div assoc p))[h mod assoc p := Some h]]\<rparr>"
    "\<exists>d. blks t' = (blks t)[h := (setPosition (of_nat (h div assoc p)) (of_nat (h mod assoc p)) (blks t ! h))\<lparr>blk_data := d\<rparr>]"
    "numBlocks t' = numBlocks t"
  using assms by (auto simp: init_blk_def get_blk_def setEntry_def put_blk_def Let_def result_simps)

definition init_upto :: "'a base_indexing_scheme \<Rightarrow> 's tags \<Rightarrow> nat \<Rightarrow> 'a base_indexing_scheme \<Rightarrow> 's tags \<Rightarrow> bool" where
  "init_upto p t k p' t' \<longleftrightarrow> assoc p' = assoc p \<and> numSets p' = numSets p \<and> setShift p' = setShift p \<and>
     setMask p' = setMask p \<and> tagShift p' = tagShift p \<and> length (sets p') = length (sets p) \<and>
     (\<forall>row \<in> set (sets p'). length row = assoc p) \<and>
     (\<forall>st < length (sets p). \<forall>way < assoc p. st * assoc p + way < k \<longrightarrow>
        sets p' ! st ! way = Some (st * assoc p + way)) \<and>
     length (blks t') = length (blks t) \<and>
     (\<forall>h < length (blks t). blk_valid (blks t' ! h) = blk_valid (blks t ! h) \<and>
        blk_secure (blks t' ! h) = blk_secure (blks t ! h) \<and>
        (h < k \<longrightarrow> blk_set (blks t' ! h) = of_nat (h div assoc p)))"

lemma init_upto_step:
  assumes "init_upto p t k p' t'" "init_blk pol bytes k (p', t') = Inr (p2, t2)"
    and "length (sets p) = unat (numSets p)" "0 < assoc p"
  shows "init_upto p t (Suc k) p2 t2"
proof -
  note s = init_blk_Inr [OF assms(2)]
  have p': "assoc p' = assoc p" "numSets p' = numSets p"
    using assms(1) by (simp_all add: init_upto_def)
  let ?st = "k div assoc p" and ?w = "k mod assoc p"
  have st: "?st < length (sets p')" using s(2) p' assms(1,3) by (simp add: init_upto_def)
  have w: "?w < assoc p" using assms(4) by simp
  have k: "?st * assoc p + ?w = k" by simp
  have row: "length (sets p' ! ?st) = assoc p" using assms(1) st by (auto simp: init_upto_def)
  have p2: "sets p2 = (sets p')[?st := (sets p' ! ?st)[?w := Some k]]" using s(3) p' by simp
  have "assoc p2 = assoc p \<and> numSets p2 = numSets p \<and> setShift p2 = setShift p \<and> setMask p2 = setMask p \<and>
    tagShift p2 = tagShift p" using s(3) assms(1) by (simp add: init_upto_def)
  moreover have "\<forall>row \<in> set (sets p2). length row = assoc p"
    using assms(1) row unfolding p2 init_upto_def by (auto dest!: set_update_subset_insert [THEN subsetD])
  moreover have "sets p2 ! st ! way = Some (st * assoc p + way)"
    if "st < length (sets p)" "way < assoc p" "st * assoc p + way < Suc k" for st way
  proof (cases "st * assoc p + way = k")
    case True
    with k have "st * assoc p + way = ?st * assoc p + ?w" by simp
    note position_number_inj [OF that(2) w this]
    with st row w k show ?thesis unfolding p2 by simp
  next
    case False
    then have "sets p' ! st ! way = Some (st * assoc p + way)" using that assms(1) by (simp add: init_upto_def)
    moreover have "st \<noteq> ?st \<or> way \<noteq> ?w" using False k by auto
    ultimately show ?thesis unfolding p2 using st by (cases "st = ?st") auto
  qed
  moreover have "length (sets p2) = length (sets p)" using p2 assms(1) by (simp add: init_upto_def)
  moreover have "length (blks t2) = length (blks t) \<and>
     (\<forall>h < length (blks t). blk_valid (blks t2 ! h) = blk_valid (blks t ! h) \<and>
        blk_secure (blks t2 ! h) = blk_secure (blks t ! h) \<and>
        (h < Suc k \<longrightarrow> blk_set (blks t2 ! h) = of_nat (h div assoc p)))"
    using s(1,4) assms(1) p' by (auto simp: init_upto_def setPosition_def nth_list_update less_Suc_eq split: if_splits)
  ultimately show ?thesis unfolding init_upto_def by blast
qed

lemma init_upto_fold:
  assumes "fold_result (init_blk pol bytes) [0..<k] (p, t) = Inr (p', t')"
    and "length (sets p) = unat (numSets p)" "0 < assoc p" "\<forall>row \<in> set (sets p). length row = assoc p"
  shows "init_upto p t k p' t'"
  using assms(1)
proof (induction k arbitrary: p' t')
  case 0
  then show ?case using assms(4) by (auto simp: init_upto_def)
next
  case (Suc k)
  then obtain p1 t1 where "fold_result (init_blk pol bytes) [0..<k] (p, t) = Inr (p1, t1)"
    "init_blk pol bytes k (p1, t1) = Inr (p', t')"
    by (auto simp: fold_result_append result_simps)
  with Suc.IH init_upto_step [OF _ _ assms(2,3)] show ?case by blast
qed

text \<open>Claim C33. Initialisation establishes the invariant: when as many invalid blocks as there are
  slots have been placed by \<open>tagsInit\<close>, the store satisfies \<open>sa_inv\<close> and every lookup misses.\<close>

theorem set_assoc_init:
  assumes "new_base_indexing sz entry_size assc = Inr p" "tagShift p \<le> 32"
    and "tagsInit pol bytes (p, t) = Inr (p', t')"
    and "length (blks t) = length (sets p) * assoc p" "unat (numBlocks t) = length (blks t)"
    and "\<forall>b \<in> set (blks t). \<not> blk_valid b \<and> \<not> blk_secure b"
  shows "sa_inv p' t' \<and> base_findBlock_domain (sa_ip p') t' a s d = Inr None"
proof -
  from wf_indexing_new [OF assms(1)] assms(2) obtain n where n: "wf_indexing n p" by auto
  have ns: "length (sets p) = unat (numSets p)" using n by (simp add: wf_indexing_def unat_power2)
  have as: "0 < assoc p" "\<forall>row \<in> set (sets p). length row = assoc p" using n by (simp_all add: wf_indexing_def)
  have up: "init_upto p t (length (blks t)) p' t'"
    by (rule init_upto_fold [OF _ ns as]) (use assms(3,5) in \<open>simp add: tagsInit_def\<close>)
  then have same: "assoc p' = assoc p" "numSets p' = numSets p" "setShift p' = setShift p" "setMask p' = setMask p"
    "tagShift p' = tagShift p" by (simp_all add: init_upto_def)
  have "wf_indexing n p'" using n up same by (simp add: wf_indexing_def init_upto_def)
  moreover have "filled p'"
    unfolding filled_def same
  proof (intro allI impI)
    fix st way assume st: "st < length (sets p')" "way < assoc p"
    then have "Suc st * assoc p \<le> length (sets p) * assoc p"
      using up by (intro mult_le_mono1) (simp add: init_upto_def)
    with st(2) have "st * assoc p + way < length (sets p) * assoc p" by simp
    with up st assms(4) show "sets p' ! st ! way = Some (st * assoc p + way)" by (simp add: init_upto_def)
  qed
  ultimately have ok: "sa_ok p'" using assms(2) same by (auto simp: sa_ok_def sa_wf_def)
  have inval: "\<not> blk_valid (blks t' ! h) \<and> \<not> blk_secure (blks t' ! h) \<and> blk_set (blks t' ! h) = of_nat (h div assoc p')"
    if "h < length (blks t')" for h
    using that up assms(6) same by (auto simp: init_upto_def)
  have len: "length (blks t') = length (sets p') * assoc p'" using up assms(4) same by (simp add: init_upto_def)
  have none: "\<not> sa_hit p' x q (blks t' ! h)" if "h \<in> set (sa_cand p' x)" for x q h
    using sa_cand_bound [OF ok that] inval len by (auto simp: sa_hit_def matchTag_def)
  then have "unique_hits (sa_cand p') (sa_hit p') (blks t')" by (auto simp: unique_hits_def)
  with ok len inval have inv: "sa_inv p' t'" by (simp add: sa_inv_def)
  with none show ?thesis by (simp add: sa_find [OF inv] blk_lookup_None)
qed

section \<open>A two-set example\<close>

definition demo_index :: base_indexing where
  "demo_index = \<lparr>assoc = 1, numSets = 2, setShift = 6, setMask = 1, sets = [[Some 0], [Some 1]], tagShift = 7\<rparr>"

definition demo_stats :: tag_stats where
  "demo_stats = \<lparr>tagsInUse = 0, totalRefs = 0, sampledRefs = 0, occupancies = (\<lambda>_. 0),
     occupanciesTaskId = (\<lambda>_. 0), ageTaskId = (\<lambda>_ _. 0), warmupTick = 0, tagAccesses = 0, dataAccesses = 0\<rparr>"

definition demo_tags :: "(nat \<Rightarrow> lru_data) tags" where
  "demo_tags = \<lparr>tag_blkSize = 64, tag_blkMask = 63, lookupLatency = 2, warmupBound = 0, warmedUp = False,
     numBlocks = 2, allocAssoc = 1, sequentialAccess = False,
     blks = [demo_blk\<lparr>blk_set := 0\<rparr>, demo_blk\<lparr>blk_set := 1\<rparr>], rdata = (\<lambda>_. lru_instantiateEntry),
     stats = demo_stats\<rparr>"

lemma demo_index_ok: "sa_ok demo_index"
proof -
  have "wf_indexing 1 demo_index" by (simp add: wf_indexing_def demo_index_def mask_eq_exp_minus_1)
  then show ?thesis by (auto simp: sa_ok_def sa_wf_def filled_def demo_index_def less_Suc_eq numeral_2_eq_2)
qed

lemma demo_blks:
  assumes "h < 2"
  shows "\<not> blk_valid (blks demo_tags ! h)" "\<not> blk_secure (blks demo_tags ! h)"
    "blk_set (blks demo_tags ! h) = of_nat (h div assoc demo_index)"
  using assms by (auto simp: demo_tags_def demo_blk_def demo_index_def less_2_cases_iff)

lemma demo_no_hit: "h \<in> set (sa_cand demo_index a) \<Longrightarrow> \<not> sa_hit demo_index a q (blks demo_tags ! h)"
  using sa_cand_bound [OF demo_index_ok, of h a] demo_blks(1) [of h]
  by (simp add: sa_hit_def matchTag_def demo_index_def)

lemma demo_tags_inv: "sa_inv demo_index demo_tags"
proof -
  have "length (sets demo_index) * assoc demo_index = 2" "length (blks demo_tags) = 2"
    by (simp_all add: demo_index_def demo_tags_def)
  then show ?thesis using demo_index_ok demo_blks demo_no_hit by (simp add: sa_inv_def unique_hits_def)
qed

lemma demo_tags_miss: "base_findBlock_domain (sa_ip demo_index) demo_tags a s d = Inr None"
  using demo_no_hit by (simp add: sa_find [OF demo_tags_inv] blk_lookup_None)

lemma demo_possible: "possible_blks (sa_ip demo_index) 0x1000 = Inr [0]"
  by (simp add: possible_blks_def sa_getPossibleEntries_def sa_extractSet_def demo_index_def)

definition demo_fill :: packet where
  "demo_fill = demo_read\<lparr>pkt_addr := 0x1000, pkt_req := (default_request 7)\<lparr>req_requestorId := 3\<rparr>\<rparr>"

lemma demo_fill_fields:
  "pkt_addr demo_fill = 0x1000" "pkt_isSecure demo_fill = False" "pkt_domainID demo_fill = 7"
  "req_requestorId (pkt_req demo_fill) = 3" "pkt_isSet demo_fill VALID_ADDR"
  by (simp_all add: demo_fill_def demo_read_def default_request_def pkt_domainID_def getDomainID_def pkt_isSet_def
      flag_isSet_def packet_flag_defs)

lemma demo_insert: "is_ok (sa_insertBlock (sa_ip demo_index) (lru_rp 100) 8 100 demo_fill 0 demo_tags)"
  by (simp add: sa_insertBlock_def base_insertBlock_def get_blk_def demo_tags_def demo_blk_def
      demo_fill_fields getAddr_def isSecure_def blk_insert_def entry_insert_index_def setValid_def Let_def
      with_rdata_def lru_rp_def)

theorem set_assoc_insert_is_map_update_witness:
  "\<exists>t'. sa_insertBlock (sa_ip demo_index) (lru_rp 100) 8 100 demo_fill 0 demo_tags = Inr t' \<and>
     base_findBlock_domain (sa_ip demo_index) t' 0x1010 False 7 = Inr (Some 0) \<and>
     base_findBlock_domain (sa_ip demo_index) t' 0x1010 False 8 = Inr None"
proof -
  from demo_insert obtain t' where t': "sa_insertBlock (sa_ip demo_index) (lru_rp 100) 8 100 demo_fill 0 demo_tags = Inr t'"
    by (auto simp: is_ok_iff)
  have "block_addr (setShift demo_index) 0x1010 = block_addr (setShift demo_index) 0x1000"
    by (simp add: block_addr_def demo_index_def mask_eq_exp_minus_1)
  with set_assoc_insert_is_map_update [of demo_index demo_tags demo_fill "[0]" 0 "lru_rp 100" 8 100 t']
    demo_tags_inv demo_tags_miss demo_possible t' demo_fill_fields show ?thesis by simp
qed

text \<open>The store after the fill, for the witnesses about a hit.\<close>

lemma demo_filled:
  obtains t' :: "(nat \<Rightarrow> lru_data) tags" where "sa_inv demo_index t'" "base_findBlock_domain (sa_ip demo_index) t' 0x1000 False 7 = Inr (Some 0)"
proof -
  let ?b = "(demo_blk\<lparr>blk_set := 0\<rparr>)\<lparr>blk_valid := True, blk_tag := 0x20, blk_domainID := 7\<rparr>"
  let ?t = "demo_tags\<lparr>blks := [?b, demo_blk\<lparr>blk_set := 1\<rparr>]\<rparr>"
  have b: "(blks demo_tags)[0 := ?b] = [?b, demo_blk\<lparr>blk_set := 1\<rparr>]" by (simp add: demo_tags_def)
  have cand: "sa_cand demo_index 0x1000 = [0]" using sa_possible [OF demo_index_ok, of "0x1000"] demo_possible by simp
  have hit: "sa_hit demo_index 0x1000 (False, 7) ?b"
    by (simp add: sa_hit_def matchTag_def base_extractTag_def demo_index_def demo_blk_def)
  have u: "unique_hits (sa_cand demo_index) (sa_hit demo_index) (blks demo_tags)"
    using demo_tags_inv by (simp add: sa_inv_def)
  have miss: "blk_lookup (sa_cand demo_index) (sa_hit demo_index) (blks demo_tags) 0x1000 (False, 7) = None"
    using demo_tags_miss [of "0x1000" False 7] by (simp add: sa_find [OF demo_tags_inv])
  have h: "0 < length (blks demo_tags)" "\<not> blk_valid (blks demo_tags ! 0)"
    by (simp_all add: demo_tags_def demo_blk_def)
  have "0 \<in> set (sa_cand demo_index 0x1000)" by (simp add: cand)
  note m = sa_map.lookup_insert [OF demo_index_ok u miss this h(1) hit h(2), unfolded b]
  have "sa_inv demo_index ?t"
    using m(1) demo_index_ok by (auto simp: sa_inv_def demo_index_def demo_blk_def less_Suc_eq)
  then show thesis by (rule that) (use m(2) [of "0x1000" "(False, 7)"] sa_find [OF \<open>sa_inv demo_index ?t\<close>] in simp)
qed

theorem set_assoc_lookup_sound_witness:
  "\<exists>t :: (nat \<Rightarrow> lru_data) tags. base_findBlock_domain (sa_ip demo_index) t 0x1000 False 7 = Inr (Some 0) \<and>
     blk_domainID (blks t ! 0) = 7 \<and> sa_regenerateBlkAddr (sa_ip demo_index) (blks t ! 0) = Inr 0x1000"
proof -
  obtain t' where t': "sa_inv demo_index (t' :: (nat \<Rightarrow> lru_data) tags)"
    "base_findBlock_domain (sa_ip demo_index) t' 0x1000 False 7 = Inr (Some 0)" by (rule demo_filled)
  have "block_addr (setShift demo_index) 0x1000 = 0x1000"
    by (simp add: block_addr_def demo_index_def mask_eq_exp_minus_1)
  with set_assoc_lookup_sound [OF t'] t'(2) show ?thesis by auto
qed

theorem set_assoc_invalidate_is_map_delete_witness:
  "\<exists>t t' :: (nat \<Rightarrow> lru_data) tags. base_findBlock_domain (sa_ip demo_index) t 0x1000 False 7 = Inr (Some 0) \<and>
     sa_invalidate (lru_rp 5) 0 t = Inr t' \<and> base_findBlock_domain (sa_ip demo_index) t' 0x1000 False 7 = Inr None"
proof -
  obtain t where t: "sa_inv demo_index (t :: (nat \<Rightarrow> lru_data) tags)"
    "base_findBlock_domain (sa_ip demo_index) t 0x1000 False 7 = Inr (Some 0)" by (rule demo_filled)
  have "unique_hits (sa_cand demo_index) (sa_hit demo_index) (blks t)" "0 < length (blks t)"
    using t(1) by (simp_all add: sa_inv_def demo_index_def)
  with t have "is_ok (sa_invalidate (lru_rp 5) 0 t)"
    by (simp add: sa_find [OF t(1)] blk_lookup_Some sa_hit_def matchTag_def sa_invalidate_def base_invalidate_def
        get_blk_def with_rdata_def lru_rp_def Let_def)
  then obtain t' where t': "sa_invalidate (lru_rp 5) 0 t = Inr t'" by (auto simp: is_ok_iff)
  from set_assoc_invalidate_is_map_delete [OF t(1) t'] t(2) t' show ?thesis by auto
qed


lemma demo_new_index: "new_base_indexing 128 64 1 = Inr (demo_index\<lparr>sets := [[None], [None]]\<rparr>)"
  by code_simp

theorem set_assoc_init_witness:
  "\<exists>p' t'. tagsInit (lru_rp 0) (replicate 128 0) (demo_index\<lparr>sets := [[None], [None]]\<rparr>, demo_tags) = Inr (p', t') \<and>
     sa_inv p' t' \<and> base_findBlock_domain (sa_ip p') t' 0x1000 False 7 = Inr None"
proof -
  let ?p = "demo_index\<lparr>sets := [[None], [None]]\<rparr>"
  have "is_ok (tagsInit (lru_rp 0) (replicate 128 0) (?p, demo_tags))"
    by (simp add: tagsInit_def demo_tags_def demo_index_def upt_rec init_blk_def get_blk_def setEntry_def put_blk_def
        Let_def)
  then obtain p' t' where i: "tagsInit (lru_rp 0) (replicate 128 0) (?p, demo_tags) = Inr (p', t')"
    by (auto simp: is_ok_iff)
  have "tagShift ?p \<le> 32" "length (blks demo_tags) = length (sets ?p) * assoc ?p"
    "unat (numBlocks demo_tags) = length (blks demo_tags)"
    "\<forall>b \<in> set (blks demo_tags). \<not> blk_valid b \<and> \<not> blk_secure b"
    by (simp_all add: demo_index_def demo_tags_def demo_blk_def)
  from set_assoc_init [OF demo_new_index this(1) i this(2-4)] i show ?thesis by blast
qed

end
