(* ===== verification/New_Rand_Tags.thy ===== *)
theory New_Rand_Tags
  imports Tags
begin

text \<open>
  The randomised tag store of the RaS cache (\<^verbatim>\<open>mem/cache/tags/new_rand_tag.hh\<close>, \<^verbatim>\<open>new_rand_tag.cc\<close>).
  Every block can hold every address; a block is found by its tag and its index bits (the line
  register). A block whose index bits already map an address of the same domain must be the
  victim, otherwise a uniformly random block is. \<open>r\<close> is the 64-bit draw of \<^verbatim>\<open>random_mt\<close>.
\<close>

section \<open>Operations\<close>

definition new_new_rand_tag :: "64 word \<Rightarrow> u32 \<Rightarrow> 64 word \<Rightarrow> u32 \<Rightarrow> u32 \<Rightarrow> bool \<Rightarrow> nat \<Rightarrow> 's \<Rightarrow> cache_blk list \<Rightarrow>
    ('s tags \<times> u32) result" where
  "new_new_rand_tag sz block_size lat warmup assc seq_access nb rd fresh =
     require (block_size \<noteq> 0) Undefined
     (bind_result (floorLog2 8 (sz div ucast block_size)) (\<lambda>lg.
     require (lg + nb < 31) Undefined
     (require (ucast assc = sz div ucast block_size) Fatal
     (require (4 \<le> block_size \<and> isPowerOf2 block_size) Fatal
     (Inr (new_base_tags sz block_size lat warmup assc seq_access rd fresh, push_bit (lg + nb) 1 - 1))))))"

definition nrt_findBlock :: "ip \<Rightarrow> 's tags \<Rightarrow> addr \<Rightarrow> bool \<Rightarrow> nat option result" where
  "nrt_findBlock i t a is_secure = Inl Panic"

definition nrt_findBlock_domain ::
  "ip \<Rightarrow> 's tags \<Rightarrow> addr \<Rightarrow> bool \<Rightarrow> domain_id \<Rightarrow> nat option result" where
  "nrt_findBlock_domain i t a is_secure d =
     bind_result (possible_blks i a)
       (find_blk (\<lambda>b. blk_valid b \<and> blk_secure b = is_secure \<and> blk_tag b = ip_extractTag i a \<and>
          blk_index_bits b = ip_extractIndex i a) t)"

text \<open>The loop that counts the blocks a test selects and remembers the last one.\<close>

fun scan_matches :: "(cache_blk \<Rightarrow> bool) \<Rightarrow> 's tags \<Rightarrow> nat list \<Rightarrow> nat option \<Rightarrow> nat \<Rightarrow> (nat option \<times> nat) result" where
  "scan_matches P t [] victim matchCnt = Inr (victim, matchCnt)"
| "scan_matches P t (h # hs) victim matchCnt =
     bind_result (get_blk t h) (\<lambda>b.
     if P b then scan_matches P t hs (Some h) (matchCnt + 1) else scan_matches P t hs victim matchCnt)"

text \<open>The check after the loop: one match has another tag, and there is never more than one.\<close>

definition check_match :: "'s tags \<Rightarrow> addr \<Rightarrow> nat option \<times> nat \<Rightarrow> nat option result" where
  "check_match t tag vc =
     (case vc of (victim, matchCnt) \<Rightarrow>
        if matchCnt = 1
        then (case victim of None \<Rightarrow> Inl Undefined
              | Some h \<Rightarrow> bind_result (get_blk t h) (\<lambda>b. require (blk_tag b \<noteq> tag) Assert (Inr (Some h))))
        else require (matchCnt = 0) Assert (Inr None))"

definition nrt_findMappingHitBlock :: "ip \<Rightarrow> 's tags \<Rightarrow> packet \<Rightarrow> nat option result" where
  "nrt_findMappingHitBlock i t pkt =
     bind_result (getAddr pkt) (\<lambda>a. bind_result (isSecure pkt) (\<lambda>s.
     bind_result (possible_blks i a) (\<lambda>hs.
     bind_result (scan_matches (\<lambda>b. matchIndex_domain b (ip_extractIndex i a) s (pkt_domainID pkt)) t hs None 0)
       (check_match t (ip_extractTag i a)))))"

definition rpl_idx :: "64 word \<Rightarrow> 's tags \<Rightarrow> u32" where
  "rpl_idx r t = ucast (r AND ucast (allocAssoc t - 1))"

definition random_entry :: "64 word \<Rightarrow> 's tags \<Rightarrow> nat list \<Rightarrow> nat result" where
  "random_entry r t hs = require (unat (rpl_idx r t) < length hs) Undefined (Inr (hs ! unat (rpl_idx r t)))"

definition pick_victim :: "64 word \<Rightarrow> 's tags \<Rightarrow> nat list \<Rightarrow> nat option \<Rightarrow> (nat \<times> nat list) result" where
  "pick_victim r t hs victim =
     (case victim of Some v \<Rightarrow> Inr (v, [v])
      | None \<Rightarrow> bind_result (random_entry r t hs) (\<lambda>v. Inr (v, [v])))"

definition nrt_findVictim :: "ip \<Rightarrow> 64 word \<Rightarrow> addr \<Rightarrow> bool \<Rightarrow> 's tags \<Rightarrow> (nat \<times> nat list) result" where
  "nrt_findVictim i r a is_secure t =
     bind_result (possible_blks i a) (\<lambda>hs.
     bind_result (scan_matches (\<lambda>b. matchIndex b (ip_extractIndex i a) is_secure) t hs None 0) (\<lambda>vc.
     bind_result (check_match t (ip_extractTag i a) vc) (pick_victim r t hs)))"

definition nrt_findVictim_domain ::
  "ip \<Rightarrow> 64 word \<Rightarrow> addr \<Rightarrow> bool \<Rightarrow> domain_id \<Rightarrow> 's tags \<Rightarrow> (nat \<times> nat list) result" where
  "nrt_findVictim_domain i r a is_secure d t =
     bind_result (possible_blks i a) (\<lambda>hs.
     bind_result (scan_matches (\<lambda>b. matchIndex_domain b (ip_extractIndex i a) is_secure d) t hs None 0) (\<lambda>vc.
     bind_result (check_match t (ip_extractTag i a) vc) (pick_victim r t hs)))"

definition nrt_randomEviction :: "ip \<Rightarrow> 64 word \<Rightarrow> addr \<Rightarrow> 's tags \<Rightarrow> nat list result" where
  "nrt_randomEviction i r a t =
     bind_result (possible_blks i a) (\<lambda>hs. bind_result (random_entry r t hs) (\<lambda>v. Inr [v]))"

definition nrt_ifIndexHit :: "packet \<Rightarrow> bool result" where
  "nrt_ifIndexHit pkt = Inl Fatal"

definition nrt_accessBlock ::
  "ip \<Rightarrow> 's rp \<Rightarrow> addr \<Rightarrow> bool \<Rightarrow> 's tags \<Rightarrow> (nat option \<times> 64 word \<times> 's tags) result" where
  "nrt_accessBlock i pol a is_secure t =
     bind_result (nrt_findBlock i t a is_secure) (finish_access pol True t)"

definition nrt_accessBlock_domain :: "ip \<Rightarrow> 's rp \<Rightarrow> addr \<Rightarrow> bool \<Rightarrow> domain_id \<Rightarrow> bool \<Rightarrow> 's tags \<Rightarrow>
    (nat option \<times> 64 word \<times> 's tags) result" where
  "nrt_accessBlock_domain i pol a is_secure d no_fill t =
     bind_result (nrt_findBlock_domain i t a is_secure d) (finish_access pol (\<not> no_fill) t)"

definition nrt_invalidate :: "'s rp \<Rightarrow> nat \<Rightarrow> 's tags \<Rightarrow> 's tags result" where
  "nrt_invalidate pol h t =
     bind_result (base_invalidate h t) (\<lambda>t1. with_rdata (rp_invalidate pol h) (add_tagsInUse (- 1) t1))"

definition nrt_insertBlock ::
  "ip \<Rightarrow> 's rp \<Rightarrow> nat \<Rightarrow> tick \<Rightarrow> packet \<Rightarrow> nat \<Rightarrow> 's tags \<Rightarrow> 's tags result" where
  "nrt_insertBlock i pol maxRequestors now pkt h t =
     bind_result (base_insertBlock i maxRequestors now pkt h t) (\<lambda>t1.
     with_rdata (rp_reset pol h) (add_tagsInUse 1 t1))"

definition nrt_moveBlock :: "'s rp \<Rightarrow> tick \<Rightarrow> nat \<Rightarrow> nat \<Rightarrow> 's tags \<Rightarrow> 's tags result" where
  "nrt_moveBlock pol now src dst t =
     bind_result (base_moveBlock now src dst t) (\<lambda>t1.
     bind_result (with_rdata (rp_invalidate pol src) t1) (with_rdata (rp_reset pol dst)))"

definition nrt_regenerateBlkAddr :: "new_rand_idx \<Rightarrow> cache_blk \<Rightarrow> addr" where
  "nrt_regenerateBlkAddr p b = nr_regenerateAddr p (blk_tag b) (blk_index_bits b)"

section \<open>The store as a map\<close>

definition nr_ok :: "new_rand_idx \<Rightarrow> bool" where
  "nr_ok p \<longleftrightarrow> nr_wf p \<and> filled p"

definition nr_cand :: "new_rand_idx \<Rightarrow> addr \<Rightarrow> nat list" where
  "nr_cand p a = [0..<assoc p]"

definition nr_hit :: "new_rand_idx \<Rightarrow> addr \<Rightarrow> bool \<Rightarrow> cache_blk \<Rightarrow> bool" where
  "nr_hit p a s b \<longleftrightarrow> blk_valid b \<and> blk_secure b = s \<and> blk_tag b = nr_extractTag p a \<and>
     blk_index_bits b = nr_extractIndex p a"

interpretation nr_map: block_map nr_ok nr_cand "\<lambda>p. block_addr (setShift p)" nr_hit
proof
  fix p a a' h b q q'
  show "nr_hit p a q b \<Longrightarrow> blk_valid b" by (simp add: nr_hit_def)
  assume "nr_ok p"
  then have wf: "nr_wf p" by (simp add: nr_ok_def)
  show "nr_cand p a = nr_cand p a'" by (simp add: nr_cand_def)
  show "nr_hit p a = nr_hit p a'" if "block_addr (setShift p) a = block_addr (setShift p) a'"
    using nr.canon_key [OF wf that] by (simp add: nr_hit_def nr_key_def fun_eq_iff)
  assume "nr_hit p a q b" "nr_hit p a' q' b"
  then have "nr_key p a = nr_key p a'" "q = q'" by (auto simp: nr_hit_def nr_key_def)
  moreover have "0 < assoc p" using wf by (simp add: nr_wf_def wf_indexing_def)
  then have "(0, 0) \<in> set (nr_positions p a)" "(0, 0) \<in> set (nr_positions p a')"
    by (auto simp: nr_positions_def)
  ultimately show "block_addr (setShift p) a = block_addr (setShift p) a' \<and> q = q'"
    using nr.same_slot_same_key_same_block [OF wf, of "(0, 0)" a a'] by simp
qed

text \<open>
  The invariant: the store is a map, and no two valid blocks of one domain and secure space have
  the same index bits (the mapping from logical lines to blocks is a function).
\<close>

definition mapping_unique :: "cache_blk list \<Rightarrow> bool" where
  "mapping_unique bs \<longleftrightarrow> (\<forall>g < length bs. \<forall>h < length bs. \<forall>x s d.
     matchIndex_domain (bs ! g) x s d \<longrightarrow> matchIndex_domain (bs ! h) x s d \<longrightarrow> g = h)"

definition nrt_inv :: "new_rand_idx \<Rightarrow> 's tags \<Rightarrow> bool" where
  "nrt_inv p t \<longleftrightarrow> nr_ok p \<and> length (blks t) = assoc p \<and> unat (allocAssoc t) = assoc p \<and>
     unique_hits (nr_cand p) (nr_hit p) (blks t) \<and> mapping_unique (blks t) \<and>
     (\<forall>h < length (blks t). \<not> blk_valid (blks t ! h) \<longrightarrow> \<not> blk_secure (blks t ! h))"

lemma nr_possible:
  assumes "nr_ok p"
  shows "possible_blks (nr_ip p) a = Inr [0..<assoc p]"
proof -
  have wf: "wf_indexing 0 p" using assms by (simp add: nr_ok_def nr_wf_def)
  then have len: "length (sets p) = 1" "length (sets p ! 0) = assoc p" by (auto simp: wf_indexing_def)
  have "sets p ! 0 ! w = Some w" if "w < assoc p" for w
    using assms that len by (auto simp: nr_ok_def filled_def)
  then have "sets p ! 0 = map Some [0..<assoc p]" using len by (auto intro: nth_equalityI)
  then show ?thesis by (simp add: possible_blks_def nr_getPossibleEntries_def deref_all_Inr)
qed

lemma nrt_find:
  assumes "nrt_inv p t"
  shows "nrt_findBlock_domain (nr_ip p) t a s d = Inr (blk_lookup (nr_cand p) (nr_hit p) (blks t) a s)"
proof -
  have ok: "nr_ok p" and len: "length (blks t) = assoc p" using assms by (simp_all add: nrt_inv_def)
  have "find_blk P t [0..<assoc p] = Inr (first_match (\<lambda>h. P (blks t ! h)) [0..<assoc p])" for P
    by (rule find_blk_first_match) (simp add: len)
  then show ?thesis
    by (simp add: nrt_findBlock_domain_def nr_possible [OF ok] blk_lookup_def nr_cand_def nr_hit_def)
qed

lemma scan_matches_filter:
  "(\<And>h. h \<in> set hs \<Longrightarrow> h < length (blks t)) \<Longrightarrow>
   scan_matches P t hs v c =
     Inr (let ms = filter (\<lambda>h. P (blks t ! h)) hs in (if ms = [] then v else Some (last ms), c + length ms))"
  by (induction hs arbitrary: v c) (auto simp: get_blk_def Let_def)

lemma distinct_filter_unique:
  assumes "distinct xs" "\<And>x y. \<lbrakk>x \<in> set xs; y \<in> set xs; P x; P y\<rbrakk> \<Longrightarrow> x = y" "x \<in> set xs" "P x"
  shows "filter P xs = [x]"
proof -
  have "set (filter P xs) = {x}" using assms(2-4) by auto
  moreover have "distinct (filter P xs)" using assms(1) by simp
  ultimately show ?thesis by (metis distinct_card card.empty card_insert_disjoint finite.emptyI length_0_conv
        length_Suc_conv empty_iff list.set(1) list.simps(15) One_nat_def singleton_insert_inj_eq)
qed

lemma rpl_idx_less: "0 < unat (allocAssoc t) \<Longrightarrow> unat (rpl_idx r t) < unat (allocAssoc t)"
proof -
  assume pos: "0 < unat (allocAssoc t)"
  have "r AND ucast (allocAssoc t - 1) \<le> ucast (allocAssoc t - 1)" by (rule word_and_le1)
  then have "unat (r AND ucast (allocAssoc t - 1)) \<le> unat (ucast (allocAssoc t - 1) :: 64 word)"
    by (simp add: word_le_nat_alt)
  also have "\<dots> = unat (allocAssoc t - 1)"
    by (simp add: unsigned_ucast_eq take_bit_nat_eq_self_iff order_less_trans [OF unsigned_less])
  also have "\<dots> = unat (allocAssoc t) - 1" using pos by (subst unat_sub) (auto simp: word_le_nat_alt)
  finally have "unat (r AND ucast (allocAssoc t - 1)) \<le> unat (allocAssoc t) - 1" .
  moreover have "unat (rpl_idx r t) \<le> unat (r AND ucast (allocAssoc t - 1))"
    by (simp add: rpl_idx_def unsigned_ucast_eq)
  ultimately show ?thesis using pos by simp
qed

section \<open>Choosing a victim\<close>

lemma nrt_scan:
  assumes "nrt_inv p t"
  shows "scan_matches (\<lambda>b. matchIndex_domain b x s d) t [0..<assoc p] None 0 =
    Inr (case first_match (\<lambda>h. matchIndex_domain (blks t ! h) x s d) [0..<assoc p] of
           None \<Rightarrow> (None, 0) | Some h \<Rightarrow> (Some h, 1))"
proof -
  have len: "length (blks t) = assoc p" and mu: "mapping_unique (blks t)"
    using assms by (simp_all add: nrt_inv_def)
  let ?P = "\<lambda>h. matchIndex_domain (blks t ! h) x s d"
  have scan: "scan_matches (\<lambda>b. matchIndex_domain b x s d) t [0..<assoc p] None 0 =
    Inr (let ms = filter ?P [0..<assoc p] in (if ms = [] then None else Some (last ms), 0 + length ms))"
    by (rule scan_matches_filter) (simp add: len)
  show ?thesis
  proof (cases "first_match ?P [0..<assoc p]")
    case None
    then have "filter ?P [0..<assoc p] = []" by (simp add: filter_empty_conv)
    then show ?thesis unfolding None scan by simp
  next
    case (Some h)
    then have h: "h \<in> set [0..<assoc p]" "?P h" by (auto dest: first_match_SomeD)
    have "filter ?P [0..<assoc p] = [h]"
      by (rule distinct_filter_unique [where P = ?P, OF _ _ h]) (use mu len in \<open>auto simp: mapping_unique_def\<close>)
    with scan Some show ?thesis by simp
  qed
qed

definition mapped_blk :: "new_rand_idx \<Rightarrow> 's tags \<Rightarrow> addr \<Rightarrow> bool \<Rightarrow> domain_id \<Rightarrow> nat option" where
  "mapped_blk p t a s d = first_match (\<lambda>h. matchIndex_domain (blks t ! h) (nr_extractIndex p a) s d) [0..<assoc p]"

lemma nrt_check:
  assumes "nrt_inv p t" "nrt_findBlock_domain (nr_ip p) t a s d = Inr None"
  shows "check_match t (nr_extractTag p a)
    (case mapped_blk p t a s d of None \<Rightarrow> (None, 0) | Some h \<Rightarrow> (Some h, 1)) = Inr (mapped_blk p t a s d)"
proof (cases "mapped_blk p t a s d")
  case None
  then show ?thesis by (simp add: check_match_def)
next
  case (Some h)
  then have h: "h < assoc p" "matchIndex_domain (blks t ! h) (nr_extractIndex p a) s d"
    by (auto simp: mapped_blk_def dest: first_match_SomeD)
  have len: "length (blks t) = assoc p" using assms(1) by (simp add: nrt_inv_def)
  have "\<not> nr_hit p a s (blks t ! h)"
    using assms(2) h(1) by (simp add: nrt_find [OF assms(1)] blk_lookup_None nr_cand_def)
  then have "blk_tag (blks t ! h) \<noteq> nr_extractTag p a" using h(2) by (auto simp: nr_hit_def matchIndex_domain_def)
  then show ?thesis using Some h(1) len by (simp add: check_match_def get_blk_def)
qed

lemma nrt_victim:
  assumes "nrt_inv p t" "nrt_findBlock_domain (nr_ip p) t a s d = Inr None"
  shows "\<exists>v. nrt_findVictim_domain (nr_ip p) r a s d t = Inr (v, [v]) \<and> v < length (blks t) \<and>
    (if \<exists>h < length (blks t). matchIndex_domain (blks t ! h) (nr_extractIndex p a) s d
     then matchIndex_domain (blks t ! v) (nr_extractIndex p a) s d
     else v = unat (rpl_idx r t))"
proof -
  have ok: "nr_ok p" and len: "length (blks t) = assoc p" "unat (allocAssoc t) = assoc p"
    using assms(1) by (simp_all add: nrt_inv_def)
  have pos: "0 < assoc p" using ok by (simp add: nr_ok_def nr_wf_def wf_indexing_def)
  have idx: "unat (rpl_idx r t) < assoc p" using rpl_idx_less [of t r] len pos by simp
  have v: "nrt_findVictim_domain (nr_ip p) r a s d t = pick_victim r t [0..<assoc p] (mapped_blk p t a s d)"
    using nrt_check [OF assms]
    by (simp add: nrt_findVictim_domain_def nr_possible [OF ok] nrt_scan [OF assms(1)] mapped_blk_def [symmetric])
  show ?thesis
  proof (cases "mapped_blk p t a s d")
    case None
    then have "\<not> (\<exists>h < length (blks t). matchIndex_domain (blks t ! h) (nr_extractIndex p a) s d)"
      by (auto simp: mapped_blk_def len)
    with v None idx len show ?thesis by (simp add: pick_victim_def random_entry_def)
  next
    case (Some h)
    then have "h < assoc p" "matchIndex_domain (blks t ! h) (nr_extractIndex p a) s d"
      by (auto simp: mapped_blk_def dest: first_match_SomeD)
    with v Some len show ?thesis by (auto simp: pick_victim_def)
  qed
qed

text \<open>Claim C2. After a miss the choice of a victim in the randomised store never fails an assertion:
  it is the block that maps the same index bits for the same domain and secure space if there is
  one, and otherwise the block the random draw selects.\<close>

theorem random_victim_chosen:
  assumes "nrt_inv p t" "nrt_findBlock_domain (nr_ip p) t a s d = Inr None"
  shows "\<exists>v. nrt_findVictim_domain (nr_ip p) r a s d t = Inr (v, [v]) \<and> v < length (blks t) \<and>
    (if \<exists>h < length (blks t). matchIndex_domain (blks t ! h) (nr_extractIndex p a) s d
     then matchIndex_domain (blks t ! v) (nr_extractIndex p a) s d
     else v = unat (rpl_idx r t))"
  by (rule nrt_victim [OF assms])

section \<open>Filling\<close>

lemma nrt_insert_is_sa: "nrt_insertBlock = sa_insertBlock"
  by (simp add: fun_eq_iff nrt_insertBlock_def sa_insertBlock_def)

lemma nrt_invalidate_is_sa: "nrt_invalidate = sa_invalidate"
  by (simp add: fun_eq_iff nrt_invalidate_def sa_invalidate_def)

text \<open>Freeing the victim, as the cache does before it inserts.\<close>

definition free_victim :: "'s rp \<Rightarrow> nat \<Rightarrow> 's tags \<Rightarrow> 's tags result" where
  "free_victim pol v t =
     bind_result (get_blk t v) (\<lambda>b. if blk_valid b then nrt_invalidate pol v t else Inr t)"

lemma sa_invalidate_alloc: "sa_invalidate pol h t = Inr t' \<Longrightarrow> allocAssoc t' = allocAssoc t"
  by (auto simp: sa_invalidate_def base_invalidate_def with_rdata_def add_tagsInUse_def put_blk_def Let_def
      result_simps)

lemma sa_insert_alloc: "sa_insertBlock i pol m now pkt h t = Inr t' \<Longrightarrow> allocAssoc t' = allocAssoc t"
  by (auto simp: sa_insertBlock_def base_insertBlock_def with_rdata_def add_tagsInUse_def put_blk_def Let_def
      result_simps)

lemma mapping_unique_remove:
  "mapping_unique bs \<Longrightarrow> \<not> blk_valid b \<Longrightarrow> mapping_unique (bs[h := b])"
  unfolding mapping_unique_def matchIndex_domain_def
  by (metis length_list_update nth_list_update_eq nth_list_update_neq)

lemma mapping_unique_insert:
  assumes "mapping_unique bs" "h < length bs" "matchIndex_domain b x s d"
    and "\<And>g. g < length bs \<Longrightarrow> g \<noteq> h \<Longrightarrow> \<not> matchIndex_domain (bs ! g) x s d"
  shows "mapping_unique (bs[h := b])"
  unfolding mapping_unique_def
proof (intro allI impI)
  fix g g' y u e
  assume g: "g < length (bs[h := b])" "g' < length (bs[h := b])"
    "matchIndex_domain (bs[h := b] ! g) y u e" "matchIndex_domain (bs[h := b] ! g') y u e"
  have key: "y = x \<and> u = s \<and> e = d" if "matchIndex_domain b y u e"
    using that assms(3) by (auto simp: matchIndex_domain_def)
  consider "g = h" "g' = h" | "g \<noteq> h" "g' \<noteq> h" | "g = h" "g' \<noteq> h" | "g \<noteq> h" "g' = h" by blast
  then show "g = g'"
  proof cases
    case 2
    with g assms(1) show ?thesis unfolding mapping_unique_def by auto
  qed (use g key assms(2,4) in auto)
qed

lemma nrt_inv_free:
  assumes "nrt_inv p t" "free_victim pol v t = Inr t'"
  shows "nrt_inv p t'" "v < length (blks t)"
    "blks t' = (blks t)[v := blks t' ! v]" "\<not> blk_valid (blks t' ! v)"
    "blk_lookup (nr_cand p) (nr_hit p) (blks t') a s =
      (if blk_lookup (nr_cand p) (nr_hit p) (blks t) a s = Some v then None
       else blk_lookup (nr_cand p) (nr_hit p) (blks t) a s)"
proof -
  from assms(2) show v: "v < length (blks t)" by (auto simp: free_victim_def get_blk_def result_simps)
  have u: "unique_hits (nr_cand p) (nr_hit p) (blks t)" and mu: "mapping_unique (blks t)"
    using assms(1) by (simp_all add: nrt_inv_def)
  have both: "nrt_inv p t' \<and> blks t' = (blks t)[v := blks t' ! v] \<and> \<not> blk_valid (blks t' ! v)"
  proof (cases "blk_valid (blks t ! v)")
    case True
    with assms(2) v have i: "sa_invalidate pol v t = Inr t'"
      by (simp add: free_victim_def get_blk_def nrt_invalidate_is_sa)
    note f = sa_invalidate_blks [OF i]
    have dead: "\<not> blk_valid (blk_invalidate (blks t ! v))" by simp
    have "\<not> blk_valid (blks t' ! h) \<longrightarrow> \<not> blk_secure (blks t' ! h)" if "h < length (blks t')" for h
      using that assms(1) f(1,3) by (cases "h = v") (auto simp: nrt_inv_def)
    then have "nrt_inv p t'"
      using assms(1) f(3) sa_invalidate_alloc [OF i] nr_map.lookup_remove(1) [OF u dead v]
        mapping_unique_remove [OF mu dead, of v]
      by (simp add: nrt_inv_def)
    with f v show ?thesis by simp
  next
    case False
    with assms v show ?thesis by (simp add: free_victim_def get_blk_def)
  qed
  then show "nrt_inv p t'" "blks t' = (blks t)[v := blks t' ! v]" "\<not> blk_valid (blks t' ! v)" by blast+
  from nr_map.lookup_remove(2) [OF u this(3) v, of a s, folded this(2)]
  show "blk_lookup (nr_cand p) (nr_hit p) (blks t') a s =
      (if blk_lookup (nr_cand p) (nr_hit p) (blks t) a s = Some v then None
       else blk_lookup (nr_cand p) (nr_hit p) (blks t) a s)" .
qed

text \<open>Claim C1. A fill of the randomised store (choose a victim after a miss, free it, insert) keeps
  the invariant, makes exactly the packet's block address hit in the victim, forgets only what
  the victim held, and the victim's address regenerates to the packet's block address.\<close>

theorem random_fill_is_map_update:
  assumes "nrt_inv p t"
    and "nrt_findBlock_domain (nr_ip p) t (pkt_addr pkt) (pkt_isSecure pkt) (pkt_domainID pkt) = Inr None"
    and "nrt_findVictim_domain (nr_ip p) r (pkt_addr pkt) (pkt_isSecure pkt) (pkt_domainID pkt) t = Inr (v, es)"
    and "free_victim pol v t = Inr t1" "nrt_insertBlock (nr_ip p) pol m now pkt v t1 = Inr t'"
  shows "nrt_inv p t' \<and> (\<forall>a s d. nrt_findBlock_domain (nr_ip p) t' a s d =
      (if block_addr (setShift p) a = block_addr (setShift p) (pkt_addr pkt) \<and> s = pkt_isSecure pkt
       then Inr (Some v)
       else if nrt_findBlock_domain (nr_ip p) t a s d = Inr (Some v) then Inr None
       else nrt_findBlock_domain (nr_ip p) t a s d)) \<and>
    nrt_regenerateBlkAddr p (blks t' ! v) = block_addr (setShift p) (pkt_addr pkt)"
proof -
  let ?a = "pkt_addr pkt" and ?s = "pkt_isSecure pkt" and ?d = "pkt_domainID pkt"
  note fr = nrt_inv_free [OF assms(1,4)]
  have ins: "sa_insertBlock (nr_ip p) pol m now pkt v t1 = Inr t'" using assms(5) by (simp add: nrt_insert_is_sa)
  note f = sa_insert_blks [OF ins]
  have ok: "nr_ok p" and u1: "unique_hits (nr_cand p) (nr_hit p) (blks t1)" and mu1: "mapping_unique (blks t1)"
    and len1: "length (blks t1) = assoc p" and ns: "\<not> blk_secure (blks t1 ! v)"
    using fr(1) f(1,2) by (simp_all add: nrt_inv_def)
  have miss: "blk_lookup (nr_cand p) (nr_hit p) (blks t1) ?a ?s = None"
    using assms(2) by (simp add: fr(5) nrt_find [OF assms(1)])
  have vc: "v \<in> set (nr_cand p ?a)" using f(1) len1 by (simp add: nr_cand_def)
  have hit: "nr_hit p ?a ?s (blks t' ! v)" using f(5-8) ns by (simp add: nr_hit_def)
  note map = nr_map.lookup_insert [OF ok u1 miss vc f(1) hit f(2), folded f(4)]
  have idx: "matchIndex_domain (blks t' ! v) (nr_extractIndex p ?a) ?s ?d"
    using hit f(9) by (simp add: nr_hit_def matchIndex_domain_def)
  have others: "\<not> matchIndex_domain (blks t1 ! g) (nr_extractIndex p ?a) ?s ?d" if "g < length (blks t1)" "g \<noteq> v" for g
  proof
    assume m: "matchIndex_domain (blks t1 ! g) (nr_extractIndex p ?a) ?s ?d"
    have "blks t1 ! g = blks t ! g" using fr(3) that(2) by (metis nth_list_update_neq)
    with m have mg: "matchIndex_domain (blks t ! g) (nr_extractIndex p ?a) ?s ?d" by simp
    have len: "length (blks t) = length (blks t1)" using fr(1) assms(1) by (simp add: nrt_inv_def)
    have "matchIndex_domain (blks t ! v) (nr_extractIndex p ?a) ?s ?d"
      using nrt_victim [OF assms(1,2), of r] assms(3) mg that(1) len by (auto split: if_splits)
    with mg assms(1) that len fr(2) show False unfolding nrt_inv_def mapping_unique_def by metis
  qed
  have mu: "mapping_unique (blks t')"
    using mapping_unique_insert [OF mu1 f(1) idx others] f(4) by simp
  have len': "length (blks t') = length (blks t1)" using f(4) by (metis length_list_update)
  have sec: "\<not> blk_valid (blks t' ! h) \<longrightarrow> \<not> blk_secure (blks t' ! h)" if "h < length (blks t')" for h
  proof (cases "h = v")
    case False
    then have "blks t' ! h = blks t1 ! h" using f(4) by (metis nth_list_update_neq)
    with that fr(1) len' show ?thesis by (simp add: nrt_inv_def)
  qed (use f(5) in simp)
  have inv: "nrt_inv p t'"
    using fr(1) ok mu map(1) sec len' sa_insert_alloc [OF ins] by (simp add: nrt_inv_def)
  have "nrt_regenerateBlkAddr p (blks t' ! v) = block_addr (setShift p) ?a"
    using f(6,7) ok nr_regenerateAddr_extract [of p ?a] by (simp add: nrt_regenerateBlkAddr_def nr_ok_def)
  with inv map(2) show ?thesis by (simp add: nrt_find [OF inv] nrt_find [OF assms(1)] fr(5))
qed


section \<open>The random draw\<close>

lemma alloc_power_small:
  assumes "unat (w :: u32) = 2 ^ k"
  shows "k < 32"
proof (rule power_less_imp_less_exp)
  show "(2 :: nat) ^ k < 2 ^ 32" using assms unsigned_less [of w, where ?'a = nat] by simp
qed simp

lemma unat_rpl_idx_power:
  assumes "unat (allocAssoc t) = 2 ^ k"
  shows "unat (rpl_idx r t) = unat r mod 2 ^ k"
proof -
  have k: "k < 32" using alloc_power_small [OF assms] .
  have "allocAssoc t = 2 ^ k" using assms k by (simp add: word_unat_eq_iff unat_power2)
  then have m: "allocAssoc t - 1 = mask k" by (simp add: mask_eq_exp_minus_1)
  have "(ucast (mask k :: u32) :: 64 word) = mask k"
    using k by (intro word_eq_by_bits) (auto simp: bit_mask_iff bit_unsigned_iff)
  then have e: "r AND ucast (allocAssoc t - 1) = take_bit k r" by (simp add: m take_bit_eq_mask)
  have "unat (take_bit k r) = take_bit k (unat r)" by (rule unsigned_take_bit_eq)
  also have "\<dots> = unat r mod 2 ^ k" by (rule take_bit_eq_mod)
  finally have u: "unat (take_bit k r) = unat r mod 2 ^ k" .
  have "unat r mod 2 ^ k < 2 ^ k" by simp
  also have "(2 :: nat) ^ k < 2 ^ 32" using k by (intro power_strict_increasing) simp_all
  finally have "unat r mod 2 ^ k < 2 ^ 32" .
  then show ?thesis by (simp add: rpl_idx_def e unsigned_ucast_eq take_bit_nat_eq_self_iff u)
qed

lemma card_residues:
  fixes j m c :: nat
  assumes "j < m"
  shows "card {x. x < c * m \<and> x mod m = j} = c"
proof -
  let ?f = "\<lambda>q. q * m + j"
  have "{x. x < c * m \<and> x mod m = j} = ?f ` {..<c}"
  proof (intro equalityI subsetI)
    fix x assume x: "x \<in> {x. x < c * m \<and> x mod m = j}"
    then have "x = ?f (x div m)" using div_mult_mod_eq [of x m] by simp
    moreover have "x div m < c" using x by (simp add: less_mult_imp_div_less)
    ultimately show "x \<in> ?f ` {..<c}" by blast
  next
    fix x assume "x \<in> ?f ` {..<c}"
    then obtain q where q: "q < c" "x = ?f q" by blast
    have "Suc q * m \<le> c * m" using q(1) by (intro mult_le_mono1) simp
    then have "x < c * m" using q(2) assms by simp
    with q(2) assms show "x \<in> {x. x < c * m \<and> x mod m = j}" by simp
  qed
  moreover have "inj_on ?f {..<c}" using assms by (intro inj_onI) simp
  ultimately show ?thesis by (simp add: card_image)
qed

text \<open>Claim C27. With a power-of-two associativity the random replacement is uniform: every block is
  selected by the same number of the 64-bit values the generator can return.\<close>

theorem random_replacement_uniform:
  assumes "unat (allocAssoc t) = 2 ^ k" "j < 2 ^ k"
  shows "card {r :: 64 word. unat (rpl_idx r t) = j} = 2 ^ (64 - k)"
proof -
  have k: "k \<le> 64" using alloc_power_small [OF assms(1)] by simp
  have img: "unat ` {r :: 64 word. unat (rpl_idx r t) = j} = {x. x < 2 ^ 64 \<and> x mod 2 ^ k = j}"
  proof (intro equalityI subsetI)
    fix x assume "x \<in> unat ` {r :: 64 word. unat (rpl_idx r t) = j}"
    then show "x \<in> {x. x < 2 ^ 64 \<and> x mod 2 ^ k = j}"
      using unsigned_less [where ?'b = 64 and ?'a = nat] by (auto simp: unat_rpl_idx_power [OF assms(1)])
  next
    fix x :: nat assume x: "x \<in> {x. x < 2 ^ 64 \<and> x mod 2 ^ k = j}"
    then have "unat (of_nat x :: 64 word) = x" by (simp add: unsigned_of_nat take_bit_nat_eq_self_iff)
    with x show "x \<in> unat ` {r :: 64 word. unat (rpl_idx r t) = j}"
      by (intro image_eqI [of _ _ "of_nat x"]) (auto simp: unat_rpl_idx_power [OF assms(1)])
  qed
  have "inj_on (unat :: 64 word \<Rightarrow> nat) A" for A by (auto intro!: inj_onI simp: word_unat_eq_iff)
  then have "card {r :: 64 word. unat (rpl_idx r t) = j} = card (unat ` {r :: 64 word. unat (rpl_idx r t) = j})"
    by (simp add: card_image)
  moreover have "(2 :: nat) ^ 64 = 2 ^ (64 - k) * 2 ^ k" using k by (simp only: power_add [symmetric]) simp
  ultimately show ?thesis using img card_residues [OF assms(2), of "2 ^ (64 - k)"] by (simp only:)
qed

section \<open>A four-block example\<close>

definition demo_nr_idx :: new_rand_idx where
  "demo_nr_idx = \<lparr>assoc = 4, numSets = 1, setShift = 6, setMask = 0, sets = [[Some 0, Some 1, Some 2, Some 3]],
     tagShift = 6, nbits = 1, indexMask = 7\<rparr>"

definition demo_nr_tags :: "(nat \<Rightarrow> lru_data) tags" where
  "demo_nr_tags = demo_tags\<lparr>numBlocks := 4, allocAssoc := 4, blks := replicate 4 demo_blk\<rparr>"

lemma demo_nr_ok: "nr_ok demo_nr_idx"
proof -
  have "wf_indexing 0 demo_nr_idx" by (simp add: wf_indexing_def demo_nr_idx_def)
  moreover have "\<exists>k < 31. nbits demo_nr_idx \<le> k \<and> indexMask demo_nr_idx = mask k"
    by (intro exI [of _ 3]) (simp add: demo_nr_idx_def mask_eq_exp_minus_1)
  moreover have "filled demo_nr_idx"
    by (auto simp: filled_def demo_nr_idx_def less_Suc_eq numeral_eq_Suc)
  ultimately show ?thesis by (simp add: nr_ok_def nr_wf_def) (simp add: demo_nr_idx_def)
qed

lemma demo_nr_blks: "h < 4 \<Longrightarrow> \<not> blk_valid (blks demo_nr_tags ! h) \<and> \<not> blk_secure (blks demo_nr_tags ! h)"
  by (simp add: demo_nr_tags_def demo_blk_def)

lemma demo_nr_inv: "nrt_inv demo_nr_idx demo_nr_tags"
proof -
  have "length (blks demo_nr_tags) = 4" "assoc demo_nr_idx = 4" "unat (allocAssoc demo_nr_tags) = 4"
    by (simp_all add: demo_nr_tags_def demo_nr_idx_def)
  then show ?thesis using demo_nr_blks demo_nr_ok
    by (simp add: nrt_inv_def unique_hits_def mapping_unique_def matchIndex_domain_def nr_hit_def nr_cand_def)
qed

lemma demo_nr_miss: "nrt_findBlock_domain (nr_ip demo_nr_idx) demo_nr_tags a s d = Inr None"
proof -
  have "assoc demo_nr_idx = 4" by (simp add: demo_nr_idx_def)
  then show ?thesis
    using demo_nr_blks by (simp add: nrt_find [OF demo_nr_inv] blk_lookup_None nr_hit_def nr_cand_def)
qed

theorem random_victim_chosen_witness:
  "\<exists>v. nrt_findVictim_domain (nr_ip demo_nr_idx) 6 0x1000 False 7 demo_nr_tags = Inr (v, [v]) \<and> v = 2"
proof -
  have "\<not> (\<exists>h < length (blks demo_nr_tags). matchIndex_domain (blks demo_nr_tags ! h) x s d)" for x s d
    using demo_nr_blks by (auto simp: matchIndex_domain_def demo_nr_tags_def)
  moreover have "unat (rpl_idx 6 demo_nr_tags) = 2" by (simp add: rpl_idx_def demo_nr_tags_def)
  ultimately show ?thesis using random_victim_chosen [OF demo_nr_inv demo_nr_miss, of 6 "0x1000" False 7] by auto
qed

theorem random_replacement_uniform_witness:
  "card {r :: 64 word. unat (rpl_idx r demo_nr_tags) = 3} = 2 ^ 62"
  using random_replacement_uniform [of demo_nr_tags 2 3] by (simp add: demo_nr_tags_def)

theorem random_fill_is_map_update_witness:
  "\<exists>t1 t'. free_victim (lru_rp 5) 2 demo_nr_tags = Inr t1 \<and>
     nrt_insertBlock (nr_ip demo_nr_idx) (lru_rp 5) 8 5 demo_fill 2 t1 = Inr t' \<and>
     nrt_findBlock_domain (nr_ip demo_nr_idx) t' 0x1000 False 9 = Inr (Some 2) \<and>
     nrt_regenerateBlkAddr demo_nr_idx (blks t' ! 2) = 0x1000"
proof -
  have free: "free_victim (lru_rp 5) 2 demo_nr_tags = Inr demo_nr_tags"
    by (simp add: free_victim_def get_blk_def demo_nr_tags_def demo_blk_def)
  have "is_ok (nrt_insertBlock (nr_ip demo_nr_idx) (lru_rp 5) 8 5 demo_fill 2 demo_nr_tags)"
    by (simp add: nrt_insertBlock_def base_insertBlock_def get_blk_def demo_nr_tags_def demo_tags_def demo_blk_def
        demo_fill_fields getAddr_def isSecure_def blk_insert_def entry_insert_index_def setValid_def Let_def
        with_rdata_def lru_rp_def)
  then obtain t' where t': "nrt_insertBlock (nr_ip demo_nr_idx) (lru_rp 5) 8 5 demo_fill 2 demo_nr_tags = Inr t'"
    by (auto simp: is_ok_iff)
  obtain v where v: "nrt_findVictim_domain (nr_ip demo_nr_idx) 6 0x1000 False 7 demo_nr_tags = Inr (v, [v])"
    "if \<exists>h < length (blks demo_nr_tags). matchIndex_domain (blks demo_nr_tags ! h) (nr_extractIndex demo_nr_idx 0x1000) False 7
     then matchIndex_domain (blks demo_nr_tags ! v) (nr_extractIndex demo_nr_idx 0x1000) False 7
     else v = unat (rpl_idx 6 demo_nr_tags)"
    using nrt_victim [OF demo_nr_inv demo_nr_miss, of 6 "0x1000" False 7] by auto
  have "\<not> (\<exists>h < length (blks demo_nr_tags). matchIndex_domain (blks demo_nr_tags ! h) x s d)" for x s d
    using demo_nr_blks by (auto simp: matchIndex_domain_def demo_nr_tags_def)
  moreover have "unat (rpl_idx 6 demo_nr_tags) = 2" by (simp add: rpl_idx_def demo_nr_tags_def)
  ultimately have v2: "nrt_findVictim_domain (nr_ip demo_nr_idx) 6 0x1000 False 7 demo_nr_tags = Inr (2, [2])"
    using v by simp
  have "block_addr (setShift demo_nr_idx) 0x1000 = 0x1000"
    by (simp add: block_addr_def demo_nr_idx_def mask_eq_exp_minus_1)
  with random_fill_is_map_update [of demo_nr_idx demo_nr_tags demo_fill 6 2 "[2]" "lru_rp 5" demo_nr_tags 8 5 t']
    demo_nr_inv demo_nr_miss demo_fill_fields v2 free t' show ?thesis by auto
qed

end
