(* ===== verification/Cache_Queue.thy ===== *)
theory Cache_Queue
  imports Packet_Data
begin

text \<open>
  The queue that the miss buffers and the write buffer of a cache share (\<^verbatim>\<open>mem/cache/queue.hh\<close>,
  \<^verbatim>\<open>mem/cache/queue_entry.hh\<close>).  Entries live in a vector; the three linked lists of the code hold
  handles (positions of that vector), so that an iterator kept in an entry is the place of its
  handle in a list.  The virtual functions of an entry are arguments; the locale \<open>entry_class\<close>
  states what a queue relies on of them and is interpreted by the write queue and by the miss
  status registers.
\<close>

section \<open>Entries and queues\<close>

record queue_entry =
  qe_domainID :: domain_id
  qe_readyTime :: tick
  qe_isUncacheable :: bool
  inService :: bool
  qe_order :: "64 word"
  qe_blkAddr :: addr
  qe_blkSize :: u32
  qe_isSecure :: bool

definition new_queue_entry :: queue_entry where
  "new_queue_entry = \<lparr>qe_domainID = 0, qe_readyTime = 0, qe_isUncacheable = False, inService = False,
     qe_order = 0, qe_blkAddr = 0, qe_blkSize = 0, qe_isSecure = False\<rparr>"

text \<open>A target is a request that waits on an entry.\<close>

record qtarget =
  qt_recvTime :: tick
  qt_readyTime :: tick
  qt_order :: "64 word"
  qt_pkt :: packet

definition new_qtarget :: "tick \<Rightarrow> packet \<Rightarrow> tick \<Rightarrow> 64 word \<Rightarrow> qtarget" where
  "new_qtarget now pkt ready_time ord =
     \<lparr>qt_recvTime = now, qt_readyTime = ready_time, qt_order = ord, qt_pkt = pkt\<rparr>"

fun targets_trySatisfyFunctional ::
  "packet \<Rightarrow> 'a qtarget_scheme list \<Rightarrow> (bool \<times> packet \<times> 'a qtarget_scheme list) result" where
  "targets_trySatisfyFunctional pkt [] = Inr (False, pkt, [])"
| "targets_trySatisfyFunctional pkt (t # ts) =
     bind_result (trySatisfyFunctional_pkt pkt (qt_pkt t)) (\<lambda>(found, pkt1, o1).
     if found then Inr (True, pkt1, t\<lparr>qt_pkt := o1\<rparr> # ts)
     else bind_result (targets_trySatisfyFunctional pkt1 ts) (\<lambda>(b, pkt2, ts2).
          Inr (b, pkt2, t\<lparr>qt_pkt := o1\<rparr> # ts2)))"

record 'z equeue =
  numEntries :: int
  numReserve :: int
  entries :: "'z queue_entry_scheme list"
  allocatedList :: "nat list"
  readyList :: "nat list"
  freeList :: "nat list"
  numInService :: int
  allocated :: int

definition new_queue :: "'z queue_entry_scheme \<Rightarrow> int \<Rightarrow> int \<Rightarrow> 'z equeue" where
  "new_queue e num_entries reserve =
     \<lparr>numEntries = num_entries + reserve, numReserve = reserve,
      entries = replicate (nat (num_entries + reserve)) e, allocatedList = [], readyList = [],
      freeList = [0..<nat (num_entries + reserve)], numInService = 0, allocated = 0\<rparr>"

abbreviation entry_of :: "('z, 'x) equeue_scheme \<Rightarrow> nat \<Rightarrow> 'z queue_entry_scheme" where
  "entry_of q h \<equiv> entries q ! h"

abbreviation ready_of :: "('z, 'x) equeue_scheme \<Rightarrow> nat \<Rightarrow> tick" where
  "ready_of q h \<equiv> qe_readyTime (entries q ! h)"

text \<open>Assigning to the object behind a handle.\<close>

definition set_entry :: "nat \<Rightarrow> 'z queue_entry_scheme \<Rightarrow> ('z, 'x) equeue_scheme \<Rightarrow> ('z, 'x) equeue_scheme" where
  "set_entry h e q = q\<lparr>entries := (entries q)[h := e]\<rparr>"

section \<open>Operations\<close>

fun insert_ready :: "(nat \<Rightarrow> tick) \<Rightarrow> nat \<Rightarrow> nat list \<Rightarrow> nat list result" where
  "insert_ready rt h [] = Inl Panic"
| "insert_ready rt h (i # is) =
     (if rt i > rt h then Inr (h # i # is)
      else bind_result (insert_ready rt h is) (\<lambda>r. Inr (i # r)))"

definition addToReadyList :: "nat \<Rightarrow> ('z, 'x) equeue_scheme \<Rightarrow> ('z, 'x) equeue_scheme result" where
  "addToReadyList h q =
     (if readyList q = [] \<or> ready_of q (last (readyList q)) \<le> ready_of q h
      then Inr (q\<lparr>readyList := readyList q @ [h]\<rparr>)
      else bind_result (insert_ready (ready_of q) h (readyList q)) (\<lambda>l. Inr (q\<lparr>readyList := l\<rparr>)))"

definition queue_isEmpty :: "('z, 'x) equeue_scheme \<Rightarrow> bool" where
  "queue_isEmpty q \<longleftrightarrow> allocated q = 0"

definition queue_isFull :: "('z, 'x) equeue_scheme \<Rightarrow> bool" where
  "queue_isFull q \<longleftrightarrow> allocated q \<ge> numEntries q - numReserve q"

fun find_entry :: "(nat \<Rightarrow> bool result) \<Rightarrow> nat list \<Rightarrow> nat option result" where
  "find_entry m [] = Inr None"
| "find_entry m (h # hs) = bind_result (m h) (\<lambda>b. if b then Inr (Some h) else find_entry m hs)"

definition findMatch ::
  "('z queue_entry_scheme \<Rightarrow> addr \<Rightarrow> bool \<Rightarrow> bool result) \<Rightarrow> addr \<Rightarrow> bool \<Rightarrow> bool \<Rightarrow>
   ('z, 'x) equeue_scheme \<Rightarrow> nat option result" where
  "findMatch matches blk_addr is_secure ignore_uncacheable q =
     find_entry (\<lambda>h. if ignore_uncacheable \<and> qe_isUncacheable (entry_of q h) then Inr False
                     else matches (entry_of q h) blk_addr is_secure) (allocatedList q)"

definition findMatch_domain ::
  "('z queue_entry_scheme \<Rightarrow> addr \<Rightarrow> bool \<Rightarrow> domain_id \<Rightarrow> bool result) \<Rightarrow> addr \<Rightarrow> bool \<Rightarrow> domain_id \<Rightarrow>
   bool \<Rightarrow> ('z, 'x) equeue_scheme \<Rightarrow> nat option result" where
  "findMatch_domain matches blk_addr is_secure d ignore_uncacheable q =
     find_entry (\<lambda>h. if ignore_uncacheable \<and> qe_isUncacheable (entry_of q h) then Inr False
                     else matches (entry_of q h) blk_addr is_secure d) (allocatedList q)"

text \<open>The loop of a functional access over the allocated entries; an entry answers with the
  changed packet and, where the packet writes, changed targets.\<close>

fun satisfy_loop ::
  "(packet \<Rightarrow> 'z queue_entry_scheme \<Rightarrow> bool result) \<Rightarrow>
   (packet \<Rightarrow> 'z queue_entry_scheme \<Rightarrow> (bool \<times> packet \<times> 'z queue_entry_scheme) result) \<Rightarrow>
   nat list \<Rightarrow> packet \<Rightarrow> ('z, 'x) equeue_scheme \<Rightarrow> (bool \<times> packet \<times> ('z, 'x) equeue_scheme) result" where
  "satisfy_loop matches sat [] pkt q = Inr (False, pkt, q)"
| "satisfy_loop matches sat (h # hs) pkt q =
     bind_result (matches pkt (entry_of q h)) (\<lambda>b.
     if \<not> b then satisfy_loop matches sat hs pkt q
     else bind_result (sat pkt (entry_of q h)) (\<lambda>(found, pkt', e).
          if found then Inr (True, pkt', set_entry h e q)
          else satisfy_loop matches sat hs pkt' (set_entry h e q)))"

definition queue_trySatisfyFunctional ::
  "(packet \<Rightarrow> 'z queue_entry_scheme \<Rightarrow> bool result) \<Rightarrow>
   (packet \<Rightarrow> 'z queue_entry_scheme \<Rightarrow> (bool \<times> packet \<times> 'z queue_entry_scheme) result) \<Rightarrow>
   packet \<Rightarrow> ('z, 'x) equeue_scheme \<Rightarrow> (bool \<times> packet \<times> ('z, 'x) equeue_scheme) result" where
  "queue_trySatisfyFunctional matches sat pkt q = satisfy_loop matches sat (allocatedList q) pkt q"

definition findPending :: "('z queue_entry_scheme \<Rightarrow> bool result) \<Rightarrow> ('z, 'x) equeue_scheme \<Rightarrow> nat option result" where
  "findPending conflicts q = find_entry (\<lambda>h. conflicts (entry_of q h)) (readyList q)"

definition getNext :: "tick \<Rightarrow> ('z, 'x) equeue_scheme \<Rightarrow> nat option" where
  "getNext now q =
     (case readyList q of [] \<Rightarrow> None
      | h # _ \<Rightarrow> if ready_of q h > now then None else Some h)"

definition nextReadyTime :: "('z, 'x) equeue_scheme \<Rightarrow> tick" where
  "nextReadyTime q = (case readyList q of [] \<Rightarrow> MaxTick | h # _ \<Rightarrow> ready_of q h)"

text \<open>The iterators of an entry are valid only while its handle is in the list: erasing otherwise is
  undefined.\<close>

definition erase :: "nat \<Rightarrow> nat list \<Rightarrow> nat list result" where
  "erase h l = require (h \<in> set l) Undefined (Inr (remove1 h l))"

definition queue_deallocate ::
  "('z queue_entry_scheme \<Rightarrow> 'z queue_entry_scheme result) \<Rightarrow> nat \<Rightarrow> ('z, 'x) equeue_scheme \<Rightarrow>
   ('z, 'x) equeue_scheme result" where
  "queue_deallocate retire h q =
     bind_result (erase h (allocatedList q)) (\<lambda>al.
     bind_result (if inService (entry_of q h)
                  then Inr (q\<lparr>allocatedList := al, freeList := h # freeList q, allocated := allocated q - 1,
                              numInService := numInService q - 1\<rparr>)
                  else bind_result (erase h (readyList q)) (\<lambda>rl.
                       Inr (q\<lparr>allocatedList := al, freeList := h # freeList q,
                              allocated := allocated q - 1, readyList := rl\<rparr>))) (\<lambda>q1.
     bind_result (retire (entry_of q h)) (\<lambda>e. Inr (set_entry h e q1))))"

text \<open>\<^verbatim>\<open>allocate\<close> of the two derived queues is the same text but for the arguments of the entry's
  own \<^verbatim>\<open>allocate\<close>, which is the argument \<open>prepare\<close> here.\<close>

definition queue_allocate ::
  "('z queue_entry_scheme \<Rightarrow> nat) \<Rightarrow> ('z queue_entry_scheme \<Rightarrow> ('z queue_entry_scheme \<times> 'o) result) \<Rightarrow>
   ('z, 'x) equeue_scheme \<Rightarrow> (nat \<times> 'o \<times> ('z, 'x) equeue_scheme) result" where
  "queue_allocate num_targets prepare q =
     (case freeList q of [] \<Rightarrow> Inl Assert
      | h # rest \<Rightarrow>
          require (num_targets (entry_of q h) = 0) Assert
          (bind_result (prepare (entry_of q h)) (\<lambda>(e, log).
           bind_result (addToReadyList h
               (set_entry h e (q\<lparr>freeList := rest, allocatedList := allocatedList q @ [h]\<rparr>))) (\<lambda>q1.
           Inr (h, log, q1\<lparr>allocated := allocated q1 + 1\<rparr>)))))"

section \<open>The invariant of a queue\<close>

text \<open>
  The allocated and the free list partition the entries, the ready list holds the allocated entries
  that are not in service, the counters count, and only allocated entries have targets.
\<close>

definition queue_inv :: "('z queue_entry_scheme \<Rightarrow> nat) \<Rightarrow> ('z, 'x) equeue_scheme \<Rightarrow> bool" where
  "queue_inv num_targets q \<longleftrightarrow>
     int (length (entries q)) = numEntries q \<and>
     distinct (allocatedList q @ freeList q) \<and>
     set (allocatedList q @ freeList q) = {..<length (entries q)} \<and>
     distinct (readyList q) \<and>
     set (readyList q) = {h \<in> set (allocatedList q). \<not> inService (entry_of q h)} \<and>
     allocated q = int (length (allocatedList q)) \<and>
     numInService q = int (length (filter (\<lambda>h. inService (entry_of q h)) (allocatedList q))) \<and>
     (\<forall>h \<in> set (freeList q). num_targets (entry_of q h) = 0) \<and>
     (\<forall>h \<in> set (allocatedList q). num_targets (entry_of q h) > 0)"

definition ready_sorted :: "('z, 'x) equeue_scheme \<Rightarrow> bool" where
  "ready_sorted q \<longleftrightarrow> sorted (map (ready_of q) (readyList q))"

section \<open>Lemmas on the lists\<close>

lemma set_entry_simps [simp]:
  "entries (set_entry h e q) = (entries q)[h := e]"
  "numEntries (set_entry h e q) = numEntries q" "numReserve (set_entry h e q) = numReserve q"
  "allocatedList (set_entry h e q) = allocatedList q" "readyList (set_entry h e q) = readyList q"
  "freeList (set_entry h e q) = freeList q" "numInService (set_entry h e q) = numInService q"
  "allocated (set_entry h e q) = allocated q"
  "equeue.more (set_entry h e q) = equeue.more q"
  by (simp_all add: set_entry_def)

lemma insert_ready_total:
  "\<exists>i \<in> set l. rt i > rt h \<Longrightarrow> \<exists>l'. insert_ready rt h l = Inr l'"
  by (induction l) (auto simp: result_simps)

lemma insert_ready_mset: "insert_ready rt h l = Inr l' \<Longrightarrow> set l' = insert h (set l) \<and>
    (distinct l \<and> h \<notin> set l \<longrightarrow> distinct l')"
  by (induction l arbitrary: l') (fastforce simp: result_simps split: if_splits)+

lemma insert_ready_sorted:
  "insert_ready rt h l = Inr l' \<Longrightarrow> sorted (map rt l) \<Longrightarrow> sorted (map rt l')"
proof (induction l arbitrary: l')
  case Nil
  then show ?case by simp
next
  case (Cons i l)
  show ?case
  proof (cases "rt i > rt h")
    case True
    with Cons.prems show ?thesis by fastforce
  next
    case False
    with Cons.prems(1) obtain r where r: "insert_ready rt h l = Inr r" and l': "l' = i # r"
      by (auto simp: result_simps)
    have "sorted (map rt r)" using Cons.IH [OF r] Cons.prems(2) by simp
    moreover have "\<forall>x \<in> set r. rt i \<le> rt x"
      using insert_ready_mset [OF r] False Cons.prems(2) by auto
    ultimately show ?thesis by (simp add: l')
  qed
qed

lemma addToReadyList_total: "\<exists>l. addToReadyList h q = Inr (q\<lparr>readyList := l\<rparr>)"
proof (cases "readyList q = [] \<or> ready_of q (last (readyList q)) \<le> ready_of q h")
  case True
  then show ?thesis by (auto simp: addToReadyList_def)
next
  case False
  then have "\<exists>i \<in> set (readyList q). ready_of q i > ready_of q h"
    by (metis last_in_set linorder_not_le)
  then show ?thesis using False insert_ready_total [of "readyList q" "ready_of q" h]
    by (auto simp: addToReadyList_def)
qed

lemma addToReadyList_Inr:
  assumes "addToReadyList h q = Inr q'"
  obtains l where "q' = q\<lparr>readyList := l\<rparr>" and "set l = insert h (set (readyList q))"
    and "distinct (readyList q) \<Longrightarrow> h \<notin> set (readyList q) \<Longrightarrow> distinct l"
    and "ready_sorted q \<Longrightarrow> ready_sorted q'"
proof (cases "readyList q = [] \<or> ready_of q (last (readyList q)) \<le> ready_of q h")
  case True
  have "ready_sorted q \<Longrightarrow> ready_sorted (q\<lparr>readyList := readyList q @ [h]\<rparr>)"
    using True by (cases "readyList q" rule: rev_cases) (auto simp: ready_sorted_def sorted_append)
  with True assms show ?thesis
    by (intro that [of "readyList q @ [h]"]) (auto simp: addToReadyList_def)
next
  case False
  with assms obtain l where l: "insert_ready (ready_of q) h (readyList q) = Inr l"
    and q': "q' = q\<lparr>readyList := l\<rparr>"
    by (auto simp: addToReadyList_def result_simps)
  show ?thesis
    using insert_ready_mset [OF l] insert_ready_sorted [OF l] q'
    by (intro that [of l]) (auto simp: ready_sorted_def)
qed

lemma find_entry_Some: "find_entry m l = Inr (Some h) \<Longrightarrow> h \<in> set l \<and> m h = Inr True"
  by (induction l) (auto simp: result_simps split: if_splits)

lemma find_entry_None: "find_entry m l = Inr None \<Longrightarrow> h \<in> set l \<Longrightarrow> m h = Inr False"
  by (induction l) (auto simp: result_simps split: if_splits)

lemma find_entry_total: "(\<And>h. h \<in> set l \<Longrightarrow> is_ok (m h)) \<Longrightarrow> is_ok (find_entry m l)"
proof (induction l)
  case (Cons x l)
  then obtain b where "m x = Inr b" by (metis is_ok_iff list.set_intros(1))
  with Cons show ?case by simp
qed simp

lemma getNext_Some: "getNext now q = Some h \<Longrightarrow> h \<in> set (readyList q) \<and> ready_of q h \<le> now"
  by (auto simp: getNext_def split: list.splits if_splits)

text \<open>In a sorted ready list the first entry is the earliest, so nothing ready is overlooked.\<close>

lemma getNext_earliest:
  "ready_sorted q \<Longrightarrow> getNext now q = Some h \<Longrightarrow> i \<in> set (readyList q) \<Longrightarrow> ready_of q h \<le> ready_of q i"
  by (auto simp: getNext_def ready_sorted_def split: list.splits if_splits)

lemma getNext_None:
  "ready_sorted q \<Longrightarrow> getNext now q = None \<Longrightarrow> i \<in> set (readyList q) \<Longrightarrow> ready_of q i > now"
  by (auto simp: getNext_def ready_sorted_def split: list.splits if_splits)

lemma nextReadyTime_le:
  "ready_sorted q \<Longrightarrow> i \<in> set (readyList q) \<Longrightarrow> nextReadyTime q \<le> ready_of q i"
  by (auto simp: nextReadyTime_def ready_sorted_def split: list.splits)

section \<open>What a queue relies on of its entries\<close>

definition queue_ok ::
  "('z queue_entry_scheme \<Rightarrow> nat) \<Rightarrow> ('z queue_entry_scheme \<Rightarrow> bool) \<Rightarrow> ('z, 'x) equeue_scheme \<Rightarrow> bool" where
  "queue_ok num_targets entry_ok q \<longleftrightarrow>
     queue_inv num_targets q \<and> (\<forall>e \<in> set (entries q). entry_ok e)"

lemma queue_ok_entry:
  "queue_ok nt ok q \<Longrightarrow> h \<in> set (allocatedList q @ freeList q) \<Longrightarrow> h < length (entries q) \<and> ok (entry_of q h)"
  by (auto simp: queue_ok_def queue_inv_def)

lemma queue_ok_ready:
  "queue_ok nt ok q \<Longrightarrow> h \<in> set (readyList q) \<Longrightarrow>
     h \<in> set (allocatedList q) \<and> \<not> inService (entry_of q h) \<and> nt (entry_of q h) > 0"
  by (auto simp: queue_ok_def queue_inv_def)

lemma queue_ok_count:
  assumes "queue_ok nt ok q"
  shows "allocated q + int (length (freeList q)) = numEntries q"
proof -
  from assms have d: "distinct (allocatedList q @ freeList q)"
    and s: "set (allocatedList q @ freeList q) = {..<length (entries q)}"
    and n: "int (length (entries q)) = numEntries q" and a: "allocated q = int (length (allocatedList q))"
    by (simp_all only: queue_ok_def queue_inv_def)
  have "length (allocatedList q @ freeList q) = length (entries q)"
    using distinct_card [OF d] by (simp only: s card_lessThan)
  with n a show ?thesis by simp
qed

lemma filter_upd_other:
  "h \<notin> set l \<Longrightarrow> filter (\<lambda>i. P ((es[h := e]) ! i)) l = filter (\<lambda>i. P (es ! i)) l"
  by (rule filter_cong [OF refl]) (metis nth_list_update_neq)

lemma map_upd_other:
  "h \<notin> set l \<Longrightarrow> map (\<lambda>i. f ((es[h := e]) ! i)) l = map (\<lambda>i. f (es ! i)) l"
  by (rule map_cong [OF refl]) (metis nth_list_update_neq)

lemma length_filter_upd:
  assumes "distinct l" "h \<in> set l" "h < length es"
  shows "length (filter (\<lambda>i. P ((es[h := e]) ! i)) l) + (if P (es ! h) then 1 else 0) =
         length (filter (\<lambda>i. P (es ! i)) l) + (if P e then 1 else 0)"
proof -
  from assms(2) obtain a b where l: "l = a @ h # b" by (meson split_list)
  with assms(1) have "h \<notin> set a" "h \<notin> set b" by auto
  then show ?thesis using assms(3) by (simp add: l filter_upd_other)
qed

lemma length_filter_remove1:
  "distinct l \<Longrightarrow> h \<in> set l \<Longrightarrow>
     length (filter P (remove1 h l)) + (if P h then 1 else 0) = length (filter P l)"
  by (induction l) auto

lemma update_sorted:
  "h \<notin> set (readyList q) \<Longrightarrow> ready_sorted q \<Longrightarrow> ready_sorted (set_entry h e q)"
  by (simp add: ready_sorted_def map_upd_other)

locale entry_class =
  fixes num_targets :: "'z queue_entry_scheme \<Rightarrow> nat"
    and entry_ok :: "'z queue_entry_scheme \<Rightarrow> bool"
    and retire :: "'z queue_entry_scheme \<Rightarrow> 'z queue_entry_scheme result"
  assumes retire_empty: "entry_ok e \<Longrightarrow> retire e = Inr e' \<Longrightarrow> num_targets e' = 0 \<and> entry_ok e'"
begin

lemma allocate_keeps:
  assumes ok: "queue_ok num_targets entry_ok q"
    and al: "queue_allocate num_targets prepare q = Inr (h, log, q')"
    and prepare: "\<And>e e'. entry_ok e \<Longrightarrow> num_targets e = 0 \<Longrightarrow> prepare e = Inr (e', log) \<Longrightarrow>
      entry_ok e' \<and> num_targets e' > 0 \<and> \<not> inService e'"
  shows "queue_ok num_targets entry_ok q' \<and> (ready_sorted q \<longrightarrow> ready_sorted q') \<and>
    allocatedList q' = allocatedList q @ [h] \<and> h \<in> set (readyList q') \<and>
    (\<exists>e. num_targets (entry_of q h) = 0 \<and> entry_ok (entry_of q h) \<and>
         prepare (entry_of q h) = Inr (e, log) \<and> entries q' = (entries q)[h := e]) \<and>
    numEntries q' = numEntries q \<and> equeue.more q' = equeue.more q"
proof -
  from al obtain rest where free: "freeList q = h # rest" and nt: "num_targets (entry_of q h) = 0"
    by (auto simp: queue_allocate_def result_simps split: list.splits)
  define q0 where "q0 e = set_entry h e (q\<lparr>freeList := rest, allocatedList := allocatedList q @ [h]\<rparr>)" for e
  from al free nt obtain e q1 where e: "prepare (entry_of q h) = Inr (e, log)"
    and q1: "addToReadyList h (q0 e) = Inr q1" and q': "q' = q1\<lparr>allocated := allocated q1 + 1\<rparr>"
    by (auto simp: queue_allocate_def result_simps q0_def)
  from ok free have h: "h < length (entries q)" and okh: "entry_ok (entry_of q h)"
    using queue_ok_entry [of num_targets entry_ok q h] by simp_all
  from ok free have hn: "h \<notin> set (allocatedList q)" "h \<notin> set rest"
    by (auto simp: queue_ok_def queue_inv_def)
  note new = prepare [OF okh nt e]
  from q1 obtain l where l: "q1 = (q0 e)\<lparr>readyList := l\<rparr>" "set l = insert h (set (readyList q))"
      "distinct (readyList q) \<Longrightarrow> h \<notin> set (readyList q) \<Longrightarrow> distinct l"
      and srt: "ready_sorted (q0 e) \<Longrightarrow> ready_sorted q1"
    by (rule addToReadyList_Inr) (simp add: q0_def)
  have hr: "h \<notin> set (readyList q)" using ok hn by (auto simp: queue_ok_def queue_inv_def)
  have other: "i \<noteq> h \<Longrightarrow> (entries q)[h := e] ! i = entry_of q i" for i by simp
  have fields: "entries q' = (entries q)[h := e]" "allocatedList q' = allocatedList q @ [h]"
      "freeList q' = rest" "readyList q' = l" "numEntries q' = numEntries q"
      "allocated q' = allocated q + 1" "numInService q' = numInService q"
    by (simp_all add: q' l(1) q0_def)
  have inv: "queue_inv num_targets q" using ok by (simp add: queue_ok_def)
  have ready: "set l = {i \<in> set (allocatedList q @ [h]). \<not> inService ((entries q)[h := e] ! i)}"
    using inv h hn(1) new unfolding l(2) queue_inv_def by (auto simp: nth_list_update)
  have flt: "filter (\<lambda>i. inService ((entries q)[h := e] ! i)) (allocatedList q @ [h]) =
      filter (\<lambda>i. inService (entry_of q i)) (allocatedList q)"
    using hn(1) h new by (simp add: filter_upd_other)
  have targets: "\<forall>i \<in> set (allocatedList q @ [h]). num_targets ((entries q)[h := e] ! i) > 0"
      "\<forall>i \<in> set rest. num_targets ((entries q)[h := e] ! i) = 0"
    using inv h hn new free by (auto simp: queue_inv_def nth_list_update)
  have "queue_inv num_targets q'"
    unfolding queue_inv_def fields flt ready
    using inv l(3) hr targets free by (simp add: queue_inv_def)
  moreover have "\<forall>e \<in> set (entries q'). entry_ok e"
    using ok new by (auto simp: queue_ok_def q' l q0_def dest!: set_update_subset_insert [THEN subsetD])
  moreover have "ready_sorted q \<longrightarrow> ready_sorted q'"
  proof
    assume "ready_sorted q"
    moreover have "map (ready_of (q0 e)) (readyList q) = map (ready_of q) (readyList q)"
      using hr by (simp add: q0_def map_upd_other)
    moreover have "readyList (q0 e) = readyList q" by (simp add: q0_def)
    ultimately have "ready_sorted (q0 e)" by (simp only: ready_sorted_def)
    from srt [OF this] show "ready_sorted q'" by (simp add: q' ready_sorted_def)
  qed
  ultimately show ?thesis using e nt okh l by (simp add: queue_ok_def q' q0_def)
qed

lemma deallocate_keeps:
  assumes ok: "queue_ok num_targets entry_ok q" and d: "queue_deallocate retire h (set_entry h e0 q) = Inr q'"
    and e0: "entry_ok e0" "inService e0 = inService (entry_of q h)"
  shows "queue_ok num_targets entry_ok q' \<and> (ready_sorted q \<longrightarrow> ready_sorted q') \<and>
    allocatedList q' = remove1 h (allocatedList q) \<and> freeList q' = h # freeList q \<and>
    (\<exists>e. retire e0 = Inr e \<and> entries q' = (entries q)[h := e]) \<and>
    numEntries q' = numEntries q \<and> equeue.more q' = equeue.more q"
proof -
  have ha: "h \<in> set (allocatedList q)" using d by (auto simp: queue_deallocate_def erase_def result_simps)
  have h: "h < length (entries q)" using queue_ok_entry [OF ok, of h] ha by simp
  from d h e0(2) obtain e where e: "retire e0 = Inr e"
    and fields: "entries q' = (entries q)[h := e]" "allocatedList q' = remove1 h (allocatedList q)"
      "freeList q' = h # freeList q" "allocated q' = allocated q - 1" "numEntries q' = numEntries q"
      "equeue.more q' = equeue.more q"
    and R: "readyList q' = remove1 h (readyList q)"
    and N: "numInService q' = numInService q - (if inService (entry_of q h) then 1 else 0)"
    using ok by (auto simp: queue_deallocate_def erase_def result_simps queue_ok_def queue_inv_def
        remove1_idem split: if_splits)
  have inv: "queue_inv num_targets q" using ok by (simp add: queue_ok_def)
  note new = retire_empty [OF e0(1) e]
  have da: "distinct (allocatedList q)" "h \<notin> set (freeList q)" "distinct (readyList q)"
    using inv ha by (auto simp: queue_inv_def)
  have notin: "h \<notin> set (remove1 h (allocatedList q))" "h \<notin> set (remove1 h (readyList q))"
    using da by simp_all
  have "numInService q' = int (length (filter (\<lambda>i. inService (entry_of q' i)) (allocatedList q')))"
    unfolding N fields filter_upd_other [OF notin(1)]
    using length_filter_remove1 [OF da(1) ha, of "\<lambda>i. inService (entry_of q i)"] inv
    by (auto simp: queue_inv_def split: if_splits)
  moreover have "set (readyList q') = {i \<in> set (allocatedList q'). \<not> inService (entry_of q' i)}"
    using inv da ha by (auto simp: R fields queue_inv_def nth_list_update)
  moreover have "\<forall>i \<in> set (allocatedList q'). num_targets (entry_of q' i) > 0"
      "\<forall>i \<in> set (freeList q'). num_targets (entry_of q' i) = 0"
    using inv da ha h new by (auto simp: fields queue_inv_def nth_list_update)
  moreover have "allocated q' = int (length (allocatedList q'))"
    using inv ha length_pos_if_in_set [OF ha] by (simp add: fields queue_inv_def length_remove1 of_nat_diff Suc_le_eq)
  moreover have "set (allocatedList q' @ freeList q') = {..<length (entries q')}"
    using inv da ha by (auto simp: fields queue_inv_def)
  moreover have "distinct (allocatedList q' @ freeList q') \<and> distinct (readyList q')"
    using inv da by (auto simp: fields R queue_inv_def)
  moreover have "int (length (entries q')) = numEntries q'"
    using inv by (simp add: fields queue_inv_def)
  ultimately have "queue_inv num_targets q'" unfolding queue_inv_def by blast
  moreover have "\<forall>e \<in> set (entries q'). entry_ok e"
    using ok new by (auto simp: queue_ok_def fields dest!: set_update_subset_insert [THEN subsetD])
  moreover have "ready_sorted q \<longrightarrow> ready_sorted q'"
    using da(3) by (simp add: ready_sorted_def fields R map_upd_other [OF notin(2)] sorted_map_remove1)
  ultimately show ?thesis using e fields by (simp add: queue_ok_def)
qed

lemma update_keeps:
  assumes ok: "queue_ok num_targets entry_ok q" and ha: "h \<in> set (allocatedList q)"
    and e: "entry_ok e" "num_targets e > 0" "inService e = inService (entry_of q h)"
  shows "queue_ok num_targets entry_ok (set_entry h e q)"
    and "qe_readyTime e = ready_of q h \<Longrightarrow> ready_sorted q \<Longrightarrow> ready_sorted (set_entry h e q)"
proof -
  have inv: "queue_inv num_targets q" using ok by (simp add: queue_ok_def)
  have same: "inService ((entries q)[h := e] ! i) = inService (entry_of q i)" for i
    using e(3) by (cases "h < length (entries q)") (auto simp: nth_list_update list_update_beyond)
  have hf: "h \<notin> set (freeList q)" "h < length (entries q)" using inv ha by (auto simp: queue_inv_def)
  have "queue_inv num_targets (set_entry h e q)"
    using inv hf e(2) unfolding queue_inv_def set_entry_simps same by (auto simp: nth_list_update)
  then show "queue_ok num_targets entry_ok (set_entry h e q)"
    using ok e(1) by (auto simp: queue_ok_def dest!: set_update_subset_insert [THEN subsetD])
  assume "qe_readyTime e = ready_of q h" and "ready_sorted q"
  moreover from this(1) have "ready_of (set_entry h e q) = ready_of q"
    using hf(2) by (auto simp: nth_list_update)
  ultimately show "ready_sorted (set_entry h e q)" by (simp only: ready_sorted_def set_entry_simps)
qed

text \<open>An entry leaves the ready list when it goes into service, and comes back when it is
  made pending again.\<close>

lemma in_service_keeps:
  assumes ok: "queue_ok num_targets entry_ok q" and hr: "h \<in> set (readyList q)"
    and e: "entry_ok e" "num_targets e > 0" "inService e"
    and q': "q' = set_entry h e (q\<lparr>readyList := remove1 h (readyList q), numInService := numInService q + 1\<rparr>)"
  shows "queue_ok num_targets entry_ok q' \<and> (ready_sorted q \<longrightarrow> ready_sorted q')"
proof -
  have inv: "queue_inv num_targets q" using ok by (simp add: queue_ok_def)
  have ha: "h \<in> set (allocatedList q)" and ns: "\<not> inService (entry_of q h)"
    using queue_ok_ready [OF ok hr] by simp_all
  have h: "h < length (entries q)" "h \<notin> set (freeList q)" "distinct (allocatedList q)" "distinct (readyList q)"
    using inv ha by (auto simp: queue_inv_def)
  have notin: "h \<notin> set (remove1 h (readyList q))" using h(4) by simp
  have "numInService q + 1 = int (length (filter (\<lambda>i. inService ((entries q)[h := e] ! i)) (allocatedList q)))"
    using length_filter_upd [OF h(3) ha h(1), of inService e] ns e(3) inv by (simp add: queue_inv_def)
  moreover have "set (remove1 h (readyList q)) = {i \<in> set (allocatedList q). \<not> inService ((entries q)[h := e] ! i)}"
    using inv h e(3) by (auto simp: queue_inv_def nth_list_update)
  moreover have "\<forall>i \<in> set (allocatedList q). num_targets ((entries q)[h := e] ! i) > 0"
      "\<forall>i \<in> set (freeList q). num_targets ((entries q)[h := e] ! i) = 0"
    using inv h e(2) by (auto simp: queue_inv_def nth_list_update)
  ultimately have "queue_inv num_targets q'"
    using inv by (simp add: queue_inv_def q')
  moreover have "ready_sorted q \<longrightarrow> ready_sorted q'"
    by (simp add: ready_sorted_def q' map_upd_other [OF notin] sorted_map_remove1)
  ultimately show ?thesis
    using ok e(1) by (auto simp: queue_ok_def q' dest!: set_update_subset_insert [THEN subsetD])
qed

lemma pending_keeps:
  assumes ok: "queue_ok num_targets entry_ok q" and ha: "h \<in> set (allocatedList q)"
    and s: "inService (entry_of q h)"
    and e: "entry_ok e" "num_targets e > 0" "\<not> inService e"
    and q': "addToReadyList h (set_entry h e (q\<lparr>numInService := numInService q - 1\<rparr>)) = Inr q'"
  shows "queue_ok num_targets entry_ok q' \<and> (ready_sorted q \<longrightarrow> ready_sorted q')"
proof -
  let ?q = "set_entry h e (q\<lparr>numInService := numInService q - 1\<rparr>)"
  have inv: "queue_inv num_targets q" using ok by (simp add: queue_ok_def)
  have h: "h < length (entries q)" "h \<notin> set (freeList q)" "distinct (allocatedList q)" "distinct (readyList q)"
    and nr: "h \<notin> set (readyList q)"
    using inv ha s by (auto simp: queue_inv_def)
  from q' obtain l where l: "q' = ?q\<lparr>readyList := l\<rparr>" "set l = insert h (set (readyList q))"
      "distinct (readyList q) \<Longrightarrow> h \<notin> set (readyList q) \<Longrightarrow> distinct l"
      and srt: "ready_sorted ?q \<Longrightarrow> ready_sorted q'"
    by (rule addToReadyList_Inr) simp
  have "numInService q - 1 = int (length (filter (\<lambda>i. inService ((entries q)[h := e] ! i)) (allocatedList q)))"
    using length_filter_upd [OF h(3) ha h(1), of inService e] s e(3) inv by (simp add: queue_inv_def)
  moreover have "set l = {i \<in> set (allocatedList q). \<not> inService ((entries q)[h := e] ! i)}"
    using inv h ha e(3) unfolding l(2) by (auto simp: queue_inv_def nth_list_update)
  moreover have "\<forall>i \<in> set (allocatedList q). num_targets ((entries q)[h := e] ! i) > 0"
      "\<forall>i \<in> set (freeList q). num_targets ((entries q)[h := e] ! i) = 0"
    using inv h e(2) by (auto simp: queue_inv_def nth_list_update)
  ultimately have "queue_inv num_targets q'"
    using inv l(3) nr by (simp add: queue_inv_def l(1))
  moreover have "ready_sorted q \<longrightarrow> ready_sorted q'"
    using srt by (simp add: ready_sorted_def map_upd_other [OF nr])
  ultimately show ?thesis
    using ok e(1) by (auto simp: queue_ok_def l(1) dest!: set_update_subset_insert [THEN subsetD])
qed

end

end
