(* ===== verification/MSHR.thy ===== *)
theory MSHR
  imports Cache_Queue
begin

text \<open>
  Miss status holding registers (\<^verbatim>\<open>mem/cache/mshr.hh\<close>, \<^verbatim>\<open>mem/cache/mshr.cc\<close>): the targets that wait
  for a block, the flags that summarise them, deferral and promotion of targets, snoops, and the
  permission to skip the fill that a response finds in \<^verbatim>\<open>mayNotFill\<close>.

  Packets are values, so a change of a target's packet is a change of the target.  A packet that
  comes from a cache above carries that cache's register in its sender state; marking or clearing
  its \<^verbatim>\<open>downstreamPending\<close> is a call on an object of another cache, and the operations return the
  calls they make in order.  \<open>is_mshr\<close> says which sender states are registers; \<open>fresh\<close> is the
  content of memory that is allocated and not yet written.
\<close>

section \<open>Targets\<close>

datatype tgt_source = FromCPU | FromSnoop | FromPrefetcher

record target = qtarget +
  source :: tgt_source
  markedPending :: bool
  tgt_allocOnFill :: bool
  tgt_mayNotFill :: bool
  tgt_demandFetch :: bool

definition new_target ::
  "tick \<Rightarrow> packet \<Rightarrow> tick \<Rightarrow> 64 word \<Rightarrow> tgt_source \<Rightarrow> bool \<Rightarrow> bool \<Rightarrow> target" where
  "new_target now pkt ready_time ord src marked alloc_on_fill =
     qtarget.extend (new_qtarget now pkt ready_time ord)
       \<lparr>source = src, markedPending = marked, tgt_allocOnFill = alloc_on_fill,
        tgt_mayNotFill = isMayNotFill pkt, tgt_demandFetch = isDemandFetch pkt\<rparr>"

datatype up_call = MarkPending nat | ClearPending nat

definition findNextSenderState :: "(nat \<Rightarrow> bool) \<Rightarrow> packet \<Rightarrow> nat option" where
  "findNextSenderState is_mshr pkt = first_match is_mshr (senderState pkt)"

section \<open>Target lists\<close>

record target_list =
  tl_targets :: "target list"
  tl_needsWritable :: bool
  hasUpgrade :: bool
  tl_allocOnFill :: bool
  tl_mayNotFill :: bool
  tl_demandFetch :: bool
  tl_hasFromCache :: bool
  tl_blkAddr :: addr
  tl_blkSize :: addr
  canMergeWrites :: bool
  writesBitmap :: "bool list"

text \<open>The constructor leaves the block address, its size and the merge flag indeterminate; they are
  arguments here and set by \<open>tl_init\<close> before any use.\<close>

definition new_target_list :: "addr \<Rightarrow> addr \<Rightarrow> bool \<Rightarrow> target_list" where
  "new_target_list a sz m =
     \<lparr>tl_targets = [], tl_needsWritable = False, hasUpgrade = False, tl_allocOnFill = False,
      tl_mayNotFill = True, tl_demandFetch = False, tl_hasFromCache = False, tl_blkAddr = a,
      tl_blkSize = sz, canMergeWrites = m, writesBitmap = []\<rparr>"

definition resetFlags :: "target_list \<Rightarrow> target_list" where
  "resetFlags l = l\<lparr>canMergeWrites := True, writesBitmap := replicate (length (writesBitmap l)) False,
     tl_needsWritable := False, hasUpgrade := False, tl_allocOnFill := False, tl_mayNotFill := True,
     tl_demandFetch := False, tl_hasFromCache := False\<rparr>"

definition tl_init :: "addr \<Rightarrow> addr \<Rightarrow> target_list \<Rightarrow> target_list" where
  "tl_init blk_addr blk_size l =
     resetFlags (l\<lparr>tl_blkAddr := blk_addr, tl_blkSize := blk_size,
       writesBitmap := take (unat blk_size) (writesBitmap l) @
         replicate (unat blk_size - length (writesBitmap l)) False\<rparr>)"

definition isReset :: "target_list \<Rightarrow> bool" where
  "isReset l \<longleftrightarrow> \<not> tl_needsWritable l \<and> \<not> hasUpgrade l \<and> \<not> tl_allocOnFill l \<and> tl_mayNotFill l \<and>
     \<not> tl_demandFetch l \<and> \<not> tl_hasFromCache l \<and> canMergeWrites l"

definition tl_isWholeLineWrite :: "target_list \<Rightarrow> bool" where
  "tl_isWholeLineWrite l \<longleftrightarrow> list_all id (writesBitmap l)"

definition PRIVILEGED :: "64 word" where "PRIVILEGED = 0x8000"

definition no_merge_flags :: "64 word" where
  "no_merge_flags = UNCACHEABLE OR STRICT_ORDER OR PRIVILEGED OR LLSC OR MEM_SWAP OR MEM_SWAP_COND OR SECURE"

definition updateWriteFlags :: "packet \<Rightarrow> target_list \<Rightarrow> target_list result" where
  "updateWriteFlags pkt l =
     (if tl_isWholeLineWrite l then Inr l
      else if canMergeWrites l then
        if \<not> cmd_isWrite (cmd pkt) then Inr (l\<lparr>canMergeWrites := False\<rparr>)
        else require (hasPaddr (pkt_req pkt) \<or> hasVaddr (pkt_req pkt)) Assert
          (let compat_write = \<not> flag_isSet (req_flags (pkt_req pkt)) no_merge_flags;
               first_write = (tl_targets l = [])
           in bind_result
                (if first_write \<or> compat_write
                 then bind_result (getOffset pkt (ucast (tl_blkSize l))) (\<lambda>off.
                      bind_result (getSize pkt) (\<lambda>sz.
                      require (unat off + unat sz \<le> length (writesBitmap l)) Undefined
                      (Inr (l\<lparr>writesBitmap := mark_valid (unat off) (unat sz) (writesBitmap l)\<rparr>))))
                 else Inr l) (\<lambda>l1.
              Inr (l1\<lparr>canMergeWrites := canMergeWrites l1 \<and> compat_write\<rparr>)))
      else Inr l)"

definition updateFlags :: "packet \<Rightarrow> tgt_source \<Rightarrow> bool \<Rightarrow> target_list \<Rightarrow> target_list result" where
  "updateFlags pkt src alloc_on_fill l =
     (if src \<noteq> FromSnoop then
        bind_result (needsWritable pkt) (\<lambda>nw.
        let l1 = l\<lparr>tl_needsWritable := tl_needsWritable l \<or> nw,
              hasUpgrade := hasUpgrade l \<or> cmd_isUpgrade (cmd pkt) \<or> cmd pkt = StoreCondReq,
              tl_allocOnFill := tl_allocOnFill l \<or> alloc_on_fill,
              tl_mayNotFill := tl_mayNotFill l \<and> isMayNotFill pkt,
              tl_demandFetch := tl_demandFetch l \<or> isDemandFetch pkt\<rparr>
        in if src \<noteq> FromPrefetcher
           then updateWriteFlags pkt (l1\<lparr>tl_hasFromCache := tl_hasFromCache l1 \<or> cmd_fromCache (cmd pkt)\<rparr>)
           else Inr l1)
      else Inr l)"

definition tl_updateMayNotFill :: "bool \<Rightarrow> target_list \<Rightarrow> bool \<times> target_list" where
  "tl_updateMayNotFill may_not_fill l =
     (if tl_allocOnFill l
      then (tl_mayNotFill l \<and> \<not> may_not_fill, l\<lparr>tl_mayNotFill := may_not_fill\<rparr>)
      else (False, l))"

definition populateFlags :: "target_list \<Rightarrow> target_list result" where
  "populateFlags l =
     fold_result (\<lambda>t. updateFlags (qt_pkt t) (source t) (tgt_allocOnFill t)) (tl_targets l) (resetFlags l)"

definition tl_add ::
  "(nat \<Rightarrow> bool) \<Rightarrow> tick \<Rightarrow> packet \<Rightarrow> tick \<Rightarrow> 64 word \<Rightarrow> tgt_source \<Rightarrow> bool \<Rightarrow> bool \<Rightarrow> target_list \<Rightarrow>
   (target_list \<times> up_call list) result" where
  "tl_add is_mshr now pkt ready_time ord src mark_pending alloc_on_fill l =
     bind_result (updateFlags pkt src alloc_on_fill l) (\<lambda>l1.
     let upstream = (if mark_pending then findNextSenderState is_mshr pkt else None)
     in Inr (l1\<lparr>tl_targets := tl_targets l1 @
               [new_target now pkt ready_time ord src (upstream \<noteq> None) alloc_on_fill]\<rparr>,
             case upstream of None \<Rightarrow> [] | Some m \<Rightarrow> [MarkPending m]))"

definition replaceUpgrade :: "u8 list \<Rightarrow> packet \<Rightarrow> packet result" where
  "replaceUpgrade fresh pkt =
     (let has_data = (cmd_hasData (cmd pkt) \<or> hasRespData pkt);
          pkt1 = (if cmd pkt = UpgradeReq then pkt\<lparr>cmd := ReadExReq\<rparr>
                  else if cmd pkt = SCUpgradeReq then pkt\<lparr>cmd := SCUpgradeFailReq\<rparr>
                  else if cmd pkt = StoreCondReq then pkt\<lparr>cmd := StoreCondFailReq\<rparr>
                  else pkt)
      in if \<not> has_data
         then require (\<not> cmd_hasData (cmd pkt1)) Assert
              (if hasRespData pkt1 then allocate pkt1 fresh else Inr pkt1)
         else Inr pkt1)"

fun replace_targets :: "(nat \<Rightarrow> u8 list) \<Rightarrow> target list \<Rightarrow> target list result" where
  "replace_targets fresh [] = Inr []"
| "replace_targets fresh (t # ts) =
     bind_result (replaceUpgrade (fresh (length ts)) (qt_pkt t)) (\<lambda>p.
     bind_result (replace_targets fresh ts) (\<lambda>ts'. Inr (t\<lparr>qt_pkt := p\<rparr> # ts')))"

definition replaceUpgrades :: "(nat \<Rightarrow> u8 list) \<Rightarrow> target_list \<Rightarrow> target_list result" where
  "replaceUpgrades fresh l =
     (if \<not> hasUpgrade l then Inr l
      else bind_result (replace_targets fresh (tl_targets l)) (\<lambda>ts.
           Inr (l\<lparr>tl_targets := ts, hasUpgrade := False\<rparr>)))"

fun clear_pending :: "(nat \<Rightarrow> bool) \<Rightarrow> target list \<Rightarrow> target list \<times> up_call list" where
  "clear_pending is_mshr [] = ([], [])"
| "clear_pending is_mshr (t # ts) =
     (let (ts', calls) = clear_pending is_mshr ts
      in if markedPending t
         then (t\<lparr>markedPending := False\<rparr> # ts',
               (case findNextSenderState is_mshr (qt_pkt t) of None \<Rightarrow> [] | Some m \<Rightarrow> [ClearPending m]) @ calls)
         else (t # ts', calls))"

definition tl_clearDownstreamPending :: "(nat \<Rightarrow> bool) \<Rightarrow> target_list \<Rightarrow> target_list \<times> up_call list" where
  "tl_clearDownstreamPending is_mshr l =
     (let (ts, calls) = clear_pending is_mshr (tl_targets l) in (l\<lparr>tl_targets := ts\<rparr>, calls))"

section \<open>Registers\<close>

record mshr = queue_entry +
  downstreamPending :: bool
  pendingModified :: bool
  postInvalidate :: bool
  postDowngrade :: bool
  wasWholeLineWrite :: bool
  isForward :: bool
  targets :: target_list
  deferredTargets :: target_list

definition new_mshr :: "target_list \<Rightarrow> target_list \<Rightarrow> mshr" where
  "new_mshr t d = queue_entry.extend new_queue_entry
     \<lparr>downstreamPending = False, pendingModified = False, postInvalidate = False, postDowngrade = False,
      wasWholeLineWrite = False, isForward = False, targets = t, deferredTargets = d\<rparr>"

abbreviation target_seq :: "mshr \<Rightarrow> target list" where
  "target_seq m \<equiv> tl_targets (targets m)"

abbreviation deferred_seq :: "mshr \<Rightarrow> target list" where
  "deferred_seq m \<equiv> tl_targets (deferredTargets m)"

definition front :: "target_list \<Rightarrow> target result" where
  "front l = (case tl_targets l of [] \<Rightarrow> Inl Undefined | t # _ \<Rightarrow> Inr t)"

definition isPendingModified :: "mshr \<Rightarrow> bool result" where
  "isPendingModified m = require (inService m) Assert (Inr (pendingModified m))"

definition hasPostInvalidate :: "mshr \<Rightarrow> bool result" where
  "hasPostInvalidate m = require (inService m) Assert (Inr (postInvalidate m))"

definition hasPostDowngrade :: "mshr \<Rightarrow> bool result" where
  "hasPostDowngrade m = require (inService m) Assert (Inr (postDowngrade m))"

definition getNumTargets :: "mshr \<Rightarrow> nat" where
  "getNumTargets m = length (target_seq m) + length (deferred_seq m)"

definition getTarget :: "mshr \<Rightarrow> target result" where
  "getTarget m = require (target_seq m \<noteq> []) Assert (Inr (hd (target_seq m)))"

definition popTarget :: "mshr \<Rightarrow> mshr result" where
  "popTarget m = require (target_seq m \<noteq> []) Undefined
     (Inr (m\<lparr>targets := (targets m)\<lparr>tl_targets := tl (target_seq m)\<rparr>\<rparr>))"

definition mshr_allocate ::
  "(nat \<Rightarrow> bool) \<Rightarrow> tick \<Rightarrow> addr \<Rightarrow> u32 \<Rightarrow> packet \<Rightarrow> tick \<Rightarrow> 64 word \<Rightarrow> bool \<Rightarrow> mshr \<Rightarrow>
   (mshr \<times> up_call list) result" where
  "mshr_allocate is_mshr now blk_addr blk_size tgt when_ready ord alloc_on_fill m =
     bind_result (isSecure tgt) (\<lambda>sec.
     let m1 = m\<lparr>qe_blkAddr := blk_addr, qe_blkSize := blk_size, qe_isSecure := sec,
               qe_readyTime := when_ready, qe_order := ord, isForward := False, wasWholeLineWrite := False,
               qe_isUncacheable := req_isUncacheable (pkt_req tgt), inService := False,
               downstreamPending := False, qe_domainID := pkt_domainID tgt,
               targets := tl_init blk_addr (ucast blk_size) (targets m),
               deferredTargets := tl_init blk_addr (ucast blk_size) (deferredTargets m)\<rparr>;
         src = (if cmd tgt = HardPFReq then FromPrefetcher else FromCPU)
     in bind_result (tl_add is_mshr now tgt when_ready ord src True alloc_on_fill (targets m1)) (\<lambda>(l, calls).
        bind_result (front l) (\<lambda>f.
        bind_result (matchBlockAddr_pkt tgt (qt_pkt f) blk_size) (\<lambda>b.
        require b Assert (Inr (m1\<lparr>targets := l\<rparr>, calls))))))"

definition mshr_clearDownstreamPending :: "(nat \<Rightarrow> bool) \<Rightarrow> mshr \<Rightarrow> (mshr \<times> up_call list) result" where
  "mshr_clearDownstreamPending is_mshr m =
     require (downstreamPending m) Assert
     (let (l, calls) = tl_clearDownstreamPending is_mshr (targets m)
      in Inr (m\<lparr>downstreamPending := False, targets := l\<rparr>, calls))"

definition mshr_markInService :: "(nat \<Rightarrow> bool) \<Rightarrow> bool \<Rightarrow> mshr \<Rightarrow> (mshr \<times> up_call list) result" where
  "mshr_markInService is_mshr pending_modified_resp m =
     require (\<not> inService m) Assert
     (let m1 = m\<lparr>inService := True,
                pendingModified := tl_needsWritable (targets m) \<or> pending_modified_resp,
                postInvalidate := False, postDowngrade := False\<rparr>;
          (l, calls) = (if \<not> downstreamPending m1 then tl_clearDownstreamPending is_mshr (targets m1)
                        else (targets m1, []))
      in Inr (m1\<lparr>targets := l, wasWholeLineWrite := tl_isWholeLineWrite l\<rparr>, calls))"

definition mshr_deallocate :: "mshr \<Rightarrow> mshr result" where
  "mshr_deallocate m =
     require (target_seq m = []) Assert
     (require (isReset (deferredTargets m)) Assert
     (Inr (m\<lparr>targets := resetFlags (targets m), inService := False\<rparr>)))"

text \<open>The condition of \<^verbatim>\<open>allocateTarget\<close> for deferring a request, evaluated left to right.\<close>

definition must_defer :: "packet \<Rightarrow> packet \<Rightarrow> mshr \<Rightarrow> bool result" where
  "must_defer pkt tgt_pkt m =
     (if req_isCacheMaintenance (pkt_req pkt) \<or> req_isCacheMaintenance (pkt_req tgt_pkt) \<or> deferred_seq m \<noteq> []
      then Inr True
      else if inService m
      then bind_result (hasPostInvalidate m) (\<lambda>pi.
           if pi then Inr True
           else bind_result (needsWritable pkt) (\<lambda>nw.
                if \<not> nw then Inr False
                else bind_result (isPendingModified m) (\<lambda>pm.
                     bind_result (hasPostDowngrade m) (\<lambda>pd. Inr (\<not> pm \<or> pd \<or> isForward m)))))
      else Inr False)"

definition allocateTarget ::
  "(nat \<Rightarrow> bool) \<Rightarrow> u8 list \<Rightarrow> tick \<Rightarrow> packet \<Rightarrow> tick \<Rightarrow> 64 word \<Rightarrow> bool \<Rightarrow> mshr \<Rightarrow>
   (mshr \<times> up_call list) result" where
  "allocateTarget is_mshr fresh now pkt when_ready ord alloc_on_fill m =
     require (pkt_domainID pkt = qe_domainID m) Assert
     (bind_result (front (targets m)) (\<lambda>f.
      bind_result (must_defer pkt (qt_pkt f) m) (\<lambda>dfr.
      if dfr
      then bind_result (if inService m \<and> postInvalidate m then replaceUpgrade fresh pkt else Inr pkt) (\<lambda>pkt1.
           bind_result (tl_add is_mshr now pkt1 when_ready ord FromCPU True alloc_on_fill (deferredTargets m))
             (\<lambda>(l, calls). Inr (m\<lparr>deferredTargets := l\<rparr>, calls)))
      else bind_result (tl_add is_mshr now pkt when_ready ord FromCPU (\<not> inService m) alloc_on_fill (targets m))
             (\<lambda>(l, calls). Inr (m\<lparr>targets := l\<rparr>, calls)))))"

text \<open>
  \<open>handleSnoop\<close> returns whether the snoop will be answered by this register, the snooping packet with
  the flags it has gained, the register and the calls to registers above.  \<open>ind\<close> is the indeterminate
  domain of a request made by the copy constructor.
\<close>

definition snoop_copy :: "domain_id \<Rightarrow> u8 list \<Rightarrow> bool \<Rightarrow> u32 \<Rightarrow> packet \<Rightarrow> packet result" where
  "snoop_copy ind fresh will_respond blk_size pkt =
     (if will_respond then copy_packet pkt True True fresh
      else Inr (new_packet_blk (copy_request ind (pkt_req pkt)) (cmd pkt) blk_size))"

definition mark_snooper :: "bool \<Rightarrow> bool \<Rightarrow> packet \<Rightarrow> packet result" where
  "mark_snooper will_respond pending_modified pkt =
     (if will_respond then bind_result (setCacheResponding pkt) setResponderHadWritable
      else if pending_modified \<and> cmd_isClean (cmd pkt) then setSatisfied pkt
      else Inr pkt)"

definition record_snoop ::
  "(nat \<Rightarrow> bool) \<Rightarrow> domain_id \<Rightarrow> u8 list \<Rightarrow> tick \<Rightarrow> packet \<Rightarrow> 64 word \<Rightarrow> bool \<Rightarrow> bool \<Rightarrow> bool \<Rightarrow> mshr \<Rightarrow>
   (packet \<times> mshr \<times> up_call list) result" where
  "record_snoop is_mshr ind fresh now pkt ord nw pm will_respond m =
     (if pm \<or> cmd_isInvalidate (cmd pkt)
      then bind_result (snoop_copy ind fresh will_respond (qe_blkSize m) pkt) (\<lambda>cp_pkt.
           bind_result (mark_snooper will_respond pm pkt) (\<lambda>pkt1.
           bind_result (tl_add is_mshr now cp_pkt now ord FromSnoop
                (downstreamPending m \<and> tl_needsWritable (targets m)) False (targets m)) (\<lambda>(l, calls).
           Inr (pkt1, m\<lparr>targets := l, postInvalidate := postInvalidate m \<or> nw \<or> cmd_isInvalidate (cmd pkt1)\<rparr>,
                calls))))
      else Inr (pkt, m, []))"

definition answer_snoop ::
  "(nat \<Rightarrow> bool) \<Rightarrow> domain_id \<Rightarrow> u8 list \<Rightarrow> tick \<Rightarrow> packet \<Rightarrow> 64 word \<Rightarrow> bool \<Rightarrow> mshr \<Rightarrow>
   (bool \<times> packet \<times> mshr \<times> up_call list) result" where
  "answer_snoop is_mshr ind fresh now pkt ord nw m =
     bind_result (isPendingModified m) (\<lambda>pm.
     let will_respond = (pm \<and> cmd_needsResponse (cmd pkt) \<and> \<not> cmd_isClean (cmd pkt)) in
     bind_result (record_snoop is_mshr ind fresh now pkt ord nw pm will_respond m) (\<lambda>(pkt1, m1, calls).
     if \<not> nw \<and> \<not> req_isUncacheable (pkt_req pkt1)
     then Inr (will_respond, setHasSharers pkt1, m1\<lparr>postDowngrade := True\<rparr>, calls)
     else Inr (will_respond, pkt1, m1, calls)))"

definition mshr_handleSnoop ::
  "(nat \<Rightarrow> bool) \<Rightarrow> domain_id \<Rightarrow> (nat \<Rightarrow> u8 list) \<Rightarrow> u8 list \<Rightarrow> tick \<Rightarrow> packet \<Rightarrow> 64 word \<Rightarrow> mshr \<Rightarrow>
   (bool \<times> packet \<times> mshr \<times> up_call list) result" where
  "mshr_handleSnoop is_mshr ind freshes fresh now pkt ord m =
     bind_result (needsWritable pkt) (\<lambda>nw.
     require (nw = cmd_isInvalidate (cmd pkt) \<or> req_isCacheMaintenance (pkt_req pkt)) Panic
     (let takes = (nw \<or> req_isCacheInvalidate (pkt_req pkt))
      in if \<not> inService m \<or> isExpressSnoop pkt \<and> downstreamPending m
         then if takes
              then bind_result (replaceUpgrades freshes (targets m)) (\<lambda>t.
                   bind_result (replaceUpgrades freshes (deferredTargets m)) (\<lambda>d.
                   Inr (False, pkt, m\<lparr>targets := t, deferredTargets := d\<rparr>, [])))
              else Inr (False, pkt, m, [])
         else bind_result (if takes then replaceUpgrades freshes (deferredTargets m)
                           else Inr (deferredTargets m)) (\<lambda>d.
              let m1 = m\<lparr>deferredTargets := d\<rparr> in
              bind_result (front (targets m1)) (\<lambda>f.
              bind_result (hasPostInvalidate m1) (\<lambda>pi.
              if pi \<or> req_isCacheInvalidate (pkt_req (qt_pkt f)) then Inr (True, pkt, m1, [])
              else answer_snoop is_mshr ind fresh now pkt ord nw m1)))))"

definition extractServiceableTargets :: "packet \<Rightarrow> mshr \<Rightarrow> (target_list \<times> mshr) result" where
  "extractServiceableTargets pkt m =
     (let ready_targets = tl_init (qe_blkAddr m) (ucast (qe_blkSize m)) (new_target_list 0 0 False)
      in if cmd pkt = ReadRespWithInvalidate
         then bind_result (front (targets m)) (\<lambda>f.
              require (source f = FromCPU \<or> source f = FromPrefetcher) Assert
              (let rest = tl (target_seq m)
               in require (\<forall>t \<in> set rest. source t = FromCPU \<or> source t = FromSnoop) Assert
                  (bind_result (populateFlags (ready_targets\<lparr>tl_targets :=
                      f # filter (\<lambda>t. source t \<noteq> FromCPU) rest\<rparr>)) (\<lambda>r.
                   bind_result (populateFlags ((targets m)\<lparr>tl_targets :=
                      filter (\<lambda>t. source t = FromCPU) rest\<rparr>)) (\<lambda>t.
                   Inr (r, m\<lparr>targets := t\<rparr>))))))
         else bind_result (populateFlags ready_targets) (\<lambda>t. Inr (targets m, m\<lparr>targets := t\<rparr>)))"

text \<open>Moving the first \<open>n\<close> deferred targets to the end of the targets.\<close>

definition splice_deferred :: "nat \<Rightarrow> mshr \<Rightarrow> mshr" where
  "splice_deferred n m =
     m\<lparr>targets := (targets m)\<lparr>tl_targets := target_seq m @ take n (deferred_seq m)\<rparr>,
       deferredTargets := (deferredTargets m)\<lparr>tl_targets := drop n (deferred_seq m)\<rparr>\<rparr>"

definition promoteDeferredTargets :: "tick \<Rightarrow> mshr \<Rightarrow> (bool \<times> mshr) result" where
  "promoteDeferredTargets now m =
     (if target_seq m = [] \<and> deferred_seq m = [] then Inr (False, m)
      else let it = length (takeWhile (\<lambda>t. \<not> req_isCacheMaintenance (pkt_req (qt_pkt t))) (deferred_seq m));
               m1 = (if it = 0 then (if target_seq m = [] then splice_deferred 1 m else m)
                     else splice_deferred it m)
           in bind_result (populateFlags (deferredTargets m1)) (\<lambda>d.
              bind_result (populateFlags (targets m1)) (\<lambda>t.
              bind_result (front t) (\<lambda>f.
              Inr (True, m1\<lparr>targets := t, deferredTargets := d, qe_order := qt_order f,
                           qe_readyTime := max now (qt_readyTime f)\<rparr>)))))"

text \<open>\<^verbatim>\<open>std::find_if_not\<close> with a predicate that may fail an assertion: the length of the prefix that
  satisfies it.\<close>

fun prefix_length :: "('a \<Rightarrow> bool result) \<Rightarrow> 'a list \<Rightarrow> nat result" where
  "prefix_length P [] = Inr 0"
| "prefix_length P (x # xs) = bind_result (P x) (\<lambda>b.
     if b then bind_result (prefix_length P xs) (\<lambda>n. Inr (Suc n)) else Inr 0)"

definition promoteIf :: "(nat \<Rightarrow> bool) \<Rightarrow> (target \<Rightarrow> bool result) \<Rightarrow> mshr \<Rightarrow> (mshr \<times> up_call list) result" where
  "promoteIf is_mshr pred m =
     require (\<not> downstreamPending m) Assert
     (bind_result (prefix_length pred (deferred_seq m)) (\<lambda>n.
      let (ts, calls) = clear_pending is_mshr (take n (deferred_seq m));
          m1 = splice_deferred n (m\<lparr>deferredTargets :=
                 (deferredTargets m)\<lparr>tl_targets := ts @ drop n (deferred_seq m)\<rparr>\<rparr>)
      in bind_result (populateFlags (deferredTargets m1)) (\<lambda>d. Inr (m1\<lparr>deferredTargets := d\<rparr>, calls))))"

definition promoteReadable :: "(nat \<Rightarrow> bool) \<Rightarrow> mshr \<Rightarrow> (mshr \<times> up_call list) result" where
  "promoteReadable is_mshr m =
     (if deferred_seq m = [] then Inr (m, [])
      else bind_result (hasPostInvalidate m) (\<lambda>pi.
           if pi then Inr (m, [])
           else promoteIf is_mshr (\<lambda>t. require (source t = FromCPU) Assert
                  (if req_isCacheInvalidate (pkt_req (qt_pkt t)) then Inr False
                   else bind_result (needsWritable (qt_pkt t)) (\<lambda>nw. Inr (\<not> nw)))) m))"

text \<open>The code takes the front of the deferred targets before it looks whether there are any; the
  value is used only when some deferred target needs a writable block.\<close>

definition promoteWritable :: "(nat \<Rightarrow> bool) \<Rightarrow> mshr \<Rightarrow> (mshr \<times> up_call list) result" where
  "promoteWritable is_mshr m =
     (if \<not> tl_needsWritable (deferredTargets m) then Inr (m, [])
      else bind_result (front (deferredTargets m)) (\<lambda>f.
           bind_result (hasPostInvalidate m) (\<lambda>pi.
           bind_result (hasPostDowngrade m) (\<lambda>pd.
           if \<not> (pi \<or> pd) \<and> \<not> req_isCacheInvalidate (pkt_req (qt_pkt f))
           then require (\<not> tl_needsWritable (targets m)) Assert
                (promoteIf is_mshr (\<lambda>t. require (source t = FromCPU) Assert
                   (Inr (\<not> req_isCacheInvalidate (pkt_req (qt_pkt t)))))
                   (m\<lparr>targets := (targets m)\<lparr>tl_needsWritable := True\<rparr>\<rparr>))
           else Inr (m, [])))))"

definition mshr_trySatisfyFunctional :: "packet \<Rightarrow> mshr \<Rightarrow> (bool \<times> packet \<times> mshr) result" where
  "mshr_trySatisfyFunctional pkt m =
     (if cmd_isPrint (cmd pkt)
      then bind_result (trySatisfyFunctional pkt (qe_blkAddr m) (qe_isSecure m) (qe_blkSize m) None)
             (\<lambda>(b, pkt1, d). Inr (False, pkt1, m))
      else bind_result (targets_trySatisfyFunctional pkt (target_seq m)) (\<lambda>(b, pkt1, ts).
           let m1 = m\<lparr>targets := (targets m)\<lparr>tl_targets := ts\<rparr>\<rparr> in
           if b then Inr (True, pkt1, m1)
           else bind_result (targets_trySatisfyFunctional pkt1 (deferred_seq m)) (\<lambda>(b2, pkt2, ds).
                Inr (b2, pkt2, m1\<lparr>deferredTargets := (deferredTargets m1)\<lparr>tl_targets := ds\<rparr>\<rparr>))))"

definition mshr_matchBlockAddr :: "mshr \<Rightarrow> addr \<Rightarrow> bool \<Rightarrow> bool result" where
  "mshr_matchBlockAddr m a is_secure =
     require (target_seq m \<noteq> []) Assert (Inr (qe_blkAddr m = a \<and> qe_isSecure m = is_secure))"

definition mshr_matchBlockAddr_domain :: "mshr \<Rightarrow> addr \<Rightarrow> bool \<Rightarrow> domain_id \<Rightarrow> bool result" where
  "mshr_matchBlockAddr_domain m a is_secure d =
     require (target_seq m \<noteq> []) Assert
     (Inr (qe_blkAddr m = a \<and> qe_isSecure m = is_secure \<and> qe_domainID m = d))"

definition mshr_matchBlockAddr_pkt :: "packet \<Rightarrow> mshr \<Rightarrow> bool result" where
  "mshr_matchBlockAddr_pkt pkt m =
     require (target_seq m \<noteq> []) Assert
     (bind_result (matchBlockAddr pkt (qe_blkAddr m) (qe_isSecure m) (qe_blkSize m)) (\<lambda>b.
      Inr (b \<and> pkt_domainID pkt = qe_domainID m)))"

definition mshr_conflictAddr :: "(addr \<Rightarrow> bool \<Rightarrow> domain_id \<Rightarrow> bool result) \<Rightarrow> mshr \<Rightarrow> bool result" where
  "mshr_conflictAddr other_matches m =
     require (target_seq m \<noteq> []) Assert (other_matches (qe_blkAddr m) (qe_isSecure m) (qe_domainID m))"

definition mshr_updateMayNotFill :: "bool \<Rightarrow> mshr \<Rightarrow> bool \<times> mshr" where
  "mshr_updateMayNotFill may_not_fill m =
     (let (b, l) = tl_updateMayNotFill may_not_fill (targets m) in (b, m\<lparr>targets := l\<rparr>))"

definition mshr_delay :: "tick \<Rightarrow> tick \<Rightarrow> mshr \<Rightarrow> mshr result" where
  "mshr_delay now delay_ticks m =
     require (qe_readyTime m \<le> now) Assert (Inr (m\<lparr>qe_readyTime := now + delay_ticks\<rparr>))"

section \<open>Lemmas on the flags of a target list\<close>

lemma updateWriteFlags_Inr:
  assumes "updateWriteFlags pkt l = Inr l'"
  obtains c b where "l' = l\<lparr>canMergeWrites := c, writesBitmap := b\<rparr>" and "length b = length (writesBitmap l)"
  using assms
proof (cases "tl_isWholeLineWrite l \<or> \<not> canMergeWrites l")
  case True
  with assms show ?thesis
    by (intro that [where c = "canMergeWrites l" and b = "writesBitmap l"]) (auto simp: updateWriteFlags_def split: if_splits)
next
  case False
  show ?thesis
  proof (cases "cmd_isWrite (cmd pkt)")
    case w: True
    let ?compat = "\<not> flag_isSet (req_flags (pkt_req pkt)) no_merge_flags"
    show ?thesis
    proof (cases "tl_targets l = [] \<or> ?compat")
      case True
      with assms False w obtain off sz where "unat off + unat sz \<le> length (writesBitmap l)"
        and "l' = l\<lparr>writesBitmap := mark_valid (unat (off :: addr)) (unat (sz :: u32)) (writesBitmap l),
                    canMergeWrites := canMergeWrites l \<and> ?compat\<rparr>"
        by (auto simp: updateWriteFlags_def result_simps Let_def)
      then show ?thesis by (intro that [where c = "canMergeWrites l \<and> ?compat"
          and b = "mark_valid (unat off) (unat sz) (writesBitmap l)"]) (auto simp: mark_valid_def)
    next
      case f: False
      with assms False w show ?thesis
        by (intro that [where c = False and b = "writesBitmap l"]) (auto simp: updateWriteFlags_def result_simps Let_def)
    qed
  next
    case w: False
    with assms False show ?thesis
      by (intro that [where c = False and b = "writesBitmap l"]) (auto simp: updateWriteFlags_def)
  qed
qed

lemma updateFlags_Inr:
  assumes "updateFlags pkt src alloc l = Inr l'"
  shows "tl_targets l' = tl_targets l"
    and "tl_mayNotFill l' \<longleftrightarrow> tl_mayNotFill l \<and> (src = FromSnoop \<or> isMayNotFill pkt)"
    and "tl_needsWritable l' \<longleftrightarrow> tl_needsWritable l \<or> src \<noteq> FromSnoop \<and> cmd_needsWritable (cmd pkt)"
    and "tl_allocOnFill l' \<longleftrightarrow> tl_allocOnFill l \<or> src \<noteq> FromSnoop \<and> alloc"
    and "hasUpgrade l \<longrightarrow> hasUpgrade l'"
    and "src \<noteq> FromSnoop \<and> (cmd_isUpgrade (cmd pkt) \<or> cmd pkt = StoreCondReq) \<longrightarrow> hasUpgrade l'"
    and "src \<noteq> FromSnoop \<longrightarrow> cmd_isRequest (cmd pkt)"
    and "tl_blkSize l' = tl_blkSize l" "length (writesBitmap l') = length (writesBitmap l)"
  using assms
  by (auto simp: updateFlags_def needsWritable_def Let_def require_eq_Inr bind_result_eq_Inr
      split: if_splits elim!: updateWriteFlags_Inr)

text \<open>
  What the flags of a list say of its targets: a fill may be skipped only if every request in the list
  allows it; a target that needs a writable block or wants the block allocated has its flag.
\<close>

definition summary_ok :: "target_list \<Rightarrow> bool" where
  "summary_ok l \<longleftrightarrow> (\<forall>t \<in> set (tl_targets l). source t \<noteq> FromSnoop \<longrightarrow>
     (tl_mayNotFill l \<longrightarrow> isMayNotFill (qt_pkt t)) \<and>
     (cmd_needsWritable (cmd (qt_pkt t)) \<longrightarrow> tl_needsWritable l) \<and>
     (tgt_allocOnFill t \<longrightarrow> tl_allocOnFill l))"

text \<open>Bits of the write map come from writes, and a list with a processor's request is not in the
  reset state.\<close>

abbreviation writes_or_cache :: "target_list \<Rightarrow> bool" where
  "writes_or_cache l \<equiv> tl_needsWritable l \<or> tl_hasFromCache l"

definition busy_ok :: "target_list \<Rightarrow> bool" where
  "busy_ok l \<longleftrightarrow> (True \<in> set (writesBitmap l) \<longrightarrow> writes_or_cache l) \<and>
     (writesBitmap l \<noteq> [] \<longrightarrow>
       (\<forall>t \<in> set (tl_targets l). source t = FromCPU \<longrightarrow> writes_or_cache l \<or> \<not> canMergeWrites l))"

lemma write_request_flags:
  "cmd_isWrite c \<Longrightarrow> cmd_isRequest c \<Longrightarrow> cmd_needsWritable c \<or> cmd_fromCache c"
  by (cases c) (simp_all add: testCmdAttrib_def)

lemma updateWriteFlags_nonwrite:
  assumes "updateWriteFlags pkt l = Inr l'" and "\<not> cmd_isWrite (cmd pkt)"
  shows "writesBitmap l' = writesBitmap l \<and> (canMergeWrites l' \<longrightarrow> canMergeWrites l) \<and>
    (\<not> tl_isWholeLineWrite l \<longrightarrow> \<not> canMergeWrites l')"
  using assms by (auto simp: updateWriteFlags_def split: if_splits)

lemma updateWriteFlags_merge: "updateWriteFlags pkt l = Inr l' \<Longrightarrow> canMergeWrites l' \<longrightarrow> canMergeWrites l"
  by (auto simp: updateWriteFlags_def result_simps Let_def split: if_splits)

lemma not_whole_line: "True \<notin> set (writesBitmap l) \<Longrightarrow> writesBitmap l \<noteq> [] \<Longrightarrow> \<not> tl_isWholeLineWrite l"
  by (cases "writesBitmap l") (auto simp: tl_isWholeLineWrite_def)

lemma updateFlags_busy:
  assumes u: "updateFlags pkt src alloc l = Inr l'"
    and b: "True \<in> set (writesBitmap l) \<longrightarrow> writes_or_cache l"
  shows "True \<in> set (writesBitmap l') \<longrightarrow> writes_or_cache l'"
    and "writes_or_cache l \<or> \<not> canMergeWrites l \<Longrightarrow> writes_or_cache l' \<or> \<not> canMergeWrites l'"
    and "src = FromCPU \<Longrightarrow> writesBitmap l \<noteq> [] \<Longrightarrow> writes_or_cache l' \<or> \<not> canMergeWrites l'"
proof -
  consider "src = FromSnoop" | "src = FromPrefetcher" | "src = FromCPU" by (cases src)
  then have *: "(True \<in> set (writesBitmap l') \<longrightarrow> writes_or_cache l') \<and>
     (writes_or_cache l \<or> \<not> canMergeWrites l \<longrightarrow> writes_or_cache l' \<or> \<not> canMergeWrites l') \<and>
     (src = FromCPU \<and> writesBitmap l \<noteq> [] \<longrightarrow> writes_or_cache l' \<or> \<not> canMergeWrites l')"
  proof cases
    case 1
    with u b show ?thesis by (auto simp: updateFlags_def)
  next
    case 2
    with u b show ?thesis by (auto simp: updateFlags_def result_simps Let_def needsWritable_def)
  next
    case 3
    define l2 where "l2 = l\<lparr>tl_needsWritable := tl_needsWritable l \<or> cmd_needsWritable (cmd pkt),
        hasUpgrade := hasUpgrade l \<or> cmd_isUpgrade (cmd pkt) \<or> cmd pkt = StoreCondReq,
        tl_allocOnFill := tl_allocOnFill l \<or> alloc, tl_mayNotFill := tl_mayNotFill l \<and> isMayNotFill pkt,
        tl_demandFetch := tl_demandFetch l \<or> isDemandFetch pkt,
        tl_hasFromCache := tl_hasFromCache l \<or> cmd_fromCache (cmd pkt)\<rparr>"
    from u 3 have w: "updateWriteFlags pkt l2 = Inr l'" and r: "cmd_isRequest (cmd pkt)"
      by (auto simp: updateFlags_def result_simps Let_def needsWritable_def l2_def)
    from w obtain c bm where l': "l' = l2\<lparr>canMergeWrites := c, writesBitmap := bm\<rparr>"
      by (rule updateWriteFlags_Inr)
    have m: "canMergeWrites l' \<longrightarrow> canMergeWrites l"
      using updateWriteFlags_merge [OF w] by (simp add: l2_def)
    show ?thesis
    proof (cases "writes_or_cache l'")
      case True
      then show ?thesis by simp
    next
      case False
      then have nw: "\<not> cmd_isWrite (cmd pkt)" "\<not> writes_or_cache l"
        using write_request_flags [OF _ r] by (auto simp: l' l2_def)
      then have "writesBitmap l' = writesBitmap l" "True \<notin> set (writesBitmap l)"
        using updateWriteFlags_nonwrite [OF w nw(1)] b by (auto simp: l2_def)
      moreover have "writesBitmap l \<noteq> [] \<longrightarrow> \<not> canMergeWrites l'"
        using updateWriteFlags_nonwrite [OF w nw(1)] not_whole_line [of l2] calculation(2)
        by (auto simp: l2_def)
      ultimately show ?thesis using False nw m by auto
    qed
  qed
  show "True \<in> set (writesBitmap l') \<longrightarrow> writes_or_cache l'" using * by blast
  show "writes_or_cache l \<or> \<not> canMergeWrites l \<Longrightarrow> writes_or_cache l' \<or> \<not> canMergeWrites l'" using * by blast
  show "src = FromCPU \<Longrightarrow> writesBitmap l \<noteq> [] \<Longrightarrow> writes_or_cache l' \<or> \<not> canMergeWrites l'" using * by blast
qed

text \<open>Both ways in which a list gets its flags, adding a target and recomputing them, give a list that
  is described by them.\<close>

definition list_ok :: "target_list \<Rightarrow> bool" where
  "list_ok l \<longleftrightarrow> summary_ok l \<and> busy_ok l"

lemma new_target_fields [simp]:
  "qt_pkt (new_target now p t ord s m a) = p" "source (new_target now p t ord s m a) = s"
  "tgt_allocOnFill (new_target now p t ord s m a) = a" "qt_order (new_target now p t ord s m a) = ord"
  by (simp_all add: new_target_def new_qtarget_def qtarget.defs)

lemma tl_add_Inr:
  assumes "tl_add ms now pkt t ord src mp a l = Inr (l', calls)"
  obtains l1 m where "updateFlags pkt src a l = Inr l1"
    and "l' = l1\<lparr>tl_targets := tl_targets l @ [new_target now pkt t ord src m a]\<rparr>"
  using assms updateFlags_Inr(1) by (auto simp: tl_add_def result_simps Let_def)

lemma tl_add_ok:
  assumes add: "tl_add ms now pkt t ord src mp a l = Inr (l', calls)" and ok: "list_ok l"
  shows "list_ok l'" and "length (writesBitmap l') = length (writesBitmap l)"
    and "\<exists>m. tl_targets l' = tl_targets l @ [new_target now pkt t ord src m a]"
proof -
  from add obtain l1 m where u: "updateFlags pkt src a l = Inr l1"
    and l': "l' = l1\<lparr>tl_targets := tl_targets l @ [new_target now pkt t ord src m a]\<rparr>"
    by (rule tl_add_Inr)
  note f = updateFlags_Inr [OF u]
  have "summary_ok l'" using ok f by (auto simp: list_ok_def summary_ok_def l')
  moreover have bz: "True \<in> set (writesBitmap l) \<longrightarrow> writes_or_cache l"
    using ok by (simp add: list_ok_def busy_ok_def)
  have "writesBitmap l1 = [] \<longleftrightarrow> writesBitmap l = []" using f(9) by (metis length_0_conv)
  then have "busy_ok l'"
    using ok updateFlags_busy [OF u bz] by (auto simp: list_ok_def busy_ok_def l')
  ultimately show "list_ok l'" by (simp add: list_ok_def)
  show "length (writesBitmap l') = length (writesBitmap l)" using f(9) by (simp add: l')
  show "\<exists>m. tl_targets l' = tl_targets l @ [new_target now pkt t ord src m a]" by (auto simp: l')
qed

abbreviation flag_step :: "target \<Rightarrow> target_list \<Rightarrow> target_list result" where
  "flag_step t \<equiv> updateFlags (qt_pkt t) (source t) (tgt_allocOnFill t)"

lemma populate_fold:
  assumes "fold_result flag_step ts s = Inr s'"
  shows "tl_targets s' = tl_targets s \<and> length (writesBitmap s') = length (writesBitmap s) \<and>
    (tl_mayNotFill s' \<longleftrightarrow> tl_mayNotFill s \<and> (\<forall>t \<in> set ts. source t = FromSnoop \<or> isMayNotFill (qt_pkt t))) \<and>
    (tl_needsWritable s' \<longleftrightarrow> tl_needsWritable s \<or>
       (\<exists>t \<in> set ts. source t \<noteq> FromSnoop \<and> cmd_needsWritable (cmd (qt_pkt t)))) \<and>
    (tl_allocOnFill s' \<longleftrightarrow> tl_allocOnFill s \<or> (\<exists>t \<in> set ts. source t \<noteq> FromSnoop \<and> tgt_allocOnFill t))"
  using assms
proof (induction ts arbitrary: s)
  case Nil
  then show ?case by simp
next
  case (Cons t ts)
  from Cons.prems(1) obtain u where u: "flag_step t s = Inr u" "fold_result flag_step ts u = Inr s'"
    by (auto simp: bind_result_eq_Inr)
  note f = updateFlags_Inr [OF u(1)] and ih = Cons.IH [OF u(2)]
  have "tl_targets s' = tl_targets s" "length (writesBitmap s') = length (writesBitmap s)"
    using ih f(1,9) by simp_all
  moreover have "tl_mayNotFill s' \<longleftrightarrow>
      tl_mayNotFill s \<and> (\<forall>t \<in> set (t # ts). source t = FromSnoop \<or> isMayNotFill (qt_pkt t))"
    using ih f(2) by simp
  moreover have "tl_needsWritable s' \<longleftrightarrow> tl_needsWritable s \<or>
      (\<exists>t \<in> set (t # ts). source t \<noteq> FromSnoop \<and> cmd_needsWritable (cmd (qt_pkt t)))"
    using ih f(3) by simp
  moreover have "tl_allocOnFill s' \<longleftrightarrow>
      tl_allocOnFill s \<or> (\<exists>t \<in> set (t # ts). source t \<noteq> FromSnoop \<and> tgt_allocOnFill t)"
    using ih f(4) by simp
  ultimately show ?case by blast
qed

lemma populate_fold_busy:
  assumes "fold_result flag_step ts s = Inr s'" and "True \<in> set (writesBitmap s) \<longrightarrow> writes_or_cache s"
  shows "(True \<in> set (writesBitmap s') \<longrightarrow> writes_or_cache s') \<and>
    (writes_or_cache s \<or> \<not> canMergeWrites s \<longrightarrow> writes_or_cache s' \<or> \<not> canMergeWrites s') \<and>
    (writesBitmap s \<noteq> [] \<longrightarrow> (\<forall>t \<in> set ts. source t = FromCPU \<longrightarrow> writes_or_cache s' \<or> \<not> canMergeWrites s'))"
  using assms
proof (induction ts arbitrary: s)
  case Nil
  then show ?case by simp
next
  case (Cons t ts)
  from Cons.prems(1) obtain u where u: "flag_step t s = Inr u" "fold_result flag_step ts u = Inr s'"
    by (auto simp: bind_result_eq_Inr)
  note b = updateFlags_busy [OF u(1) Cons.prems(2)]
  have ne: "writesBitmap u = [] \<longleftrightarrow> writesBitmap s = []" using updateFlags_Inr(9) [OF u(1)] by (metis length_0_conv)
  note ih = Cons.IH [OF u(2) b(1)]
  have "(writes_or_cache s \<or> \<not> canMergeWrites s) \<longrightarrow> writes_or_cache s' \<or> \<not> canMergeWrites s'"
    using ih b(2) by blast
  moreover have "writesBitmap s \<noteq> [] \<and> source t = FromCPU \<longrightarrow> writes_or_cache s' \<or> \<not> canMergeWrites s'"
    using ih b(3) by blast
  moreover have "writesBitmap s \<noteq> [] \<longrightarrow>
      (\<forall>t \<in> set ts. source t = FromCPU \<longrightarrow> writes_or_cache s' \<or> \<not> canMergeWrites s')"
    using ih ne by blast
  ultimately show ?case using ih by simp
qed

lemma resetFlags_fields [simp]:
  "tl_targets (resetFlags l) = tl_targets l" "tl_mayNotFill (resetFlags l)" "\<not> tl_needsWritable (resetFlags l)"
  "\<not> tl_allocOnFill (resetFlags l)" "\<not> hasUpgrade (resetFlags l)" "tl_blkSize (resetFlags l) = tl_blkSize l"
  "writesBitmap (resetFlags l) = replicate (length (writesBitmap l)) False"
  by (simp_all add: resetFlags_def)

lemma populateFlags_ok:
  assumes "populateFlags l = Inr l'"
  shows "list_ok l'" "tl_targets l' = tl_targets l" "length (writesBitmap l') = length (writesBitmap l)"
    "tl_mayNotFill l' \<longleftrightarrow> (\<forall>t \<in> set (tl_targets l). source t = FromSnoop \<or> isMayNotFill (qt_pkt t))"
    "tl_needsWritable l' \<longleftrightarrow> (\<exists>t \<in> set (tl_targets l). source t \<noteq> FromSnoop \<and> cmd_needsWritable (cmd (qt_pkt t)))"
proof -
  from assms have f: "fold_result flag_step (tl_targets l) (resetFlags l) = Inr l'"
    by (simp add: populateFlags_def)
  note p = populate_fold [OF f, THEN conjunct1] populate_fold [OF f, THEN conjunct2, THEN conjunct1]
    populate_fold [OF f, THEN conjunct2, THEN conjunct2, THEN conjunct1]
    populate_fold [OF f, THEN conjunct2, THEN conjunct2, THEN conjunct2, THEN conjunct1]
    populate_fold [OF f, THEN conjunct2, THEN conjunct2, THEN conjunct2, THEN conjunct2]
  have "True \<in> set (writesBitmap (resetFlags l)) \<longrightarrow> writes_or_cache (resetFlags l)" by simp
  note b = populate_fold_busy [OF f this]
  show t: "tl_targets l' = tl_targets l" using p(1) by simp
  show len: "length (writesBitmap l') = length (writesBitmap l)" using p(2) by simp
  show "tl_mayNotFill l' \<longleftrightarrow> (\<forall>t \<in> set (tl_targets l). source t = FromSnoop \<or> isMayNotFill (qt_pkt t))"
    using p(3) by simp
  show "tl_needsWritable l' \<longleftrightarrow> (\<exists>t \<in> set (tl_targets l). source t \<noteq> FromSnoop \<and> cmd_needsWritable (cmd (qt_pkt t)))"
    using p(4) by simp
  have "summary_ok l'" using p(3-5) t by (auto simp: summary_ok_def)
  moreover have "busy_ok l'"
    using b t len by (auto simp: busy_ok_def)
  ultimately show "list_ok l'" by (simp add: list_ok_def)
qed

section \<open>The invariant of a register\<close>

definition carried :: "mshr \<Rightarrow> bool" where
  "carried m \<longleftrightarrow> list_ok (deferredTargets m) \<and> (\<forall>t \<in> set (deferred_seq m). source t = FromCPU) \<and>
     (\<forall>t \<in> set (target_seq m @ deferred_seq m). source t \<noteq> FromSnoop \<longrightarrow> pkt_domainID (qt_pkt t) = qe_domainID m) \<and>
     (getNumTargets m > 0 \<longrightarrow> writesBitmap (deferredTargets m) \<noteq> [])"

definition mshr_ok :: "mshr \<Rightarrow> bool" where
  "mshr_ok m \<longleftrightarrow> list_ok (targets m) \<and> carried m"

lemma clear_pending_same:
  "t \<in> set (fst (clear_pending ms ts)) \<Longrightarrow>
     \<exists>u \<in> set ts. qt_pkt t = qt_pkt u \<and> source t = source u \<and> tgt_allocOnFill t = tgt_allocOnFill u"
  by (induction ts) (auto simp: Let_def split: prod.splits if_splits)

lemma clear_pending_map:
  "map qt_pkt (fst (clear_pending ms ts)) = map qt_pkt ts" "length (fst (clear_pending ms ts)) = length ts"
  by (induction ts) (auto simp: Let_def split: prod.splits if_splits)

lemma clear_list_ok:
  assumes "tl_clearDownstreamPending ms l = (l', calls)" and "list_ok l"
  shows "list_ok l'" and "tl_targets l' = fst (clear_pending ms (tl_targets l))"
    and "writesBitmap l' = writesBitmap l"
proof -
  from assms(1) have l': "l' = l\<lparr>tl_targets := fst (clear_pending ms (tl_targets l))\<rparr>"
    by (auto simp: tl_clearDownstreamPending_def split: prod.splits)
  show "list_ok l'"
    using assms(2) clear_pending_same [of _ ms "tl_targets l"]
    by (fastforce simp: list_ok_def summary_ok_def busy_ok_def l')
  show "tl_targets l' = fst (clear_pending ms (tl_targets l))" "writesBitmap l' = writesBitmap l"
    by (simp_all add: l')
qed

lemma replaceUpgrade_Inr:
  assumes "replaceUpgrade fresh p = Inr p'"
  shows "pkt_req p' = pkt_req p" "isMayNotFill p' = isMayNotFill p"
    "cmd_needsWritable (cmd p') = cmd_needsWritable (cmd p)"
proof -
  define p1 where "p1 = (if cmd p = UpgradeReq then p\<lparr>cmd := ReadExReq\<rparr>
      else if cmd p = SCUpgradeReq then p\<lparr>cmd := SCUpgradeFailReq\<rparr>
      else if cmd p = StoreCondReq then p\<lparr>cmd := StoreCondFailReq\<rparr> else p)"
  have p1: "pkt_req p1 = pkt_req p" "isMayNotFill p1 = isMayNotFill p"
      "cmd_needsWritable (cmd p1) = cmd_needsWritable (cmd p)"
    by (auto simp: p1_def isMayNotFill_def pkt_isSet_def testCmdAttrib_def)
  from assms have "p' = p1 \<or> allocate p1 fresh = Inr p'"
    by (auto simp: replaceUpgrade_def Let_def p1_def [symmetric] require_eq_Inr split: if_splits)
  moreover have "isMayNotFill p' = isMayNotFill p1" if "allocate p1 fresh = Inr p'"
    using that by (auto simp: allocate_def result_simps pkt_setFlag_def split: if_splits)
      (auto simp: fill_bits flag_set_def DYNAMIC_DATA_def bit_simps)
  ultimately show "pkt_req p' = pkt_req p" "isMayNotFill p' = isMayNotFill p"
    "cmd_needsWritable (cmd p') = cmd_needsWritable (cmd p)"
    using p1 allocate_fields [of p1 fresh p'] by auto
qed

lemma replace_targets_Inr:
  "replace_targets fresh ts = Inr ts' \<Longrightarrow>
     length ts' = length ts \<and>
     (\<forall>t \<in> set ts'. \<exists>u \<in> set ts. source t = source u \<and> tgt_allocOnFill t = tgt_allocOnFill u \<and>
        pkt_req (qt_pkt t) = pkt_req (qt_pkt u) \<and> isMayNotFill (qt_pkt t) = isMayNotFill (qt_pkt u) \<and>
        cmd_needsWritable (cmd (qt_pkt t)) = cmd_needsWritable (cmd (qt_pkt u)))"
proof (induction ts arbitrary: ts')
  case Nil
  then show ?case by simp
next
  case (Cons t ts)
  from Cons.prems obtain p us where p: "replaceUpgrade (fresh (length ts)) (qt_pkt t) = Inr p"
    and us: "replace_targets fresh ts = Inr us" and ts': "ts' = t\<lparr>qt_pkt := p\<rparr> # us"
    by (auto simp: bind_result_eq_Inr)
  show ?case using Cons.IH [OF us] replaceUpgrade_Inr [OF p] by (fastforce simp: ts')
qed

lemma replaceUpgrades_ok:
  assumes r: "replaceUpgrades fresh l = Inr l'" and ok: "list_ok l"
  shows "list_ok l'" and "length (tl_targets l') = length (tl_targets l)"
    and "writesBitmap l' = writesBitmap l"
    and "t \<in> set (tl_targets l') \<Longrightarrow> \<exists>u \<in> set (tl_targets l). source t = source u \<and>
           pkt_domainID (qt_pkt t) = pkt_domainID (qt_pkt u)"
proof -
  have "(\<exists>ts. replace_targets fresh (tl_targets l) = Inr ts \<and> l' = l\<lparr>tl_targets := ts, hasUpgrade := False\<rparr>) \<or> l' = l"
    using r by (auto simp: replaceUpgrades_def bind_result_eq_Inr split: if_splits)
  then consider "l' = l"
    | ts where "replace_targets fresh (tl_targets l) = Inr ts" "l' = l\<lparr>tl_targets := ts, hasUpgrade := False\<rparr>"
    by blast
  then have "list_ok l' \<and> length (tl_targets l') = length (tl_targets l) \<and> writesBitmap l' = writesBitmap l \<and>
     (\<forall>t \<in> set (tl_targets l'). \<exists>u \<in> set (tl_targets l). source t = source u \<and>
           pkt_domainID (qt_pkt t) = pkt_domainID (qt_pkt u))"
  proof cases
    case 1
    then show ?thesis using ok by auto
  next
    case 2
    note same = replace_targets_Inr [OF 2(1)]
    have "list_ok l'"
      unfolding list_ok_def
    proof
      show "summary_ok l'"
        unfolding summary_ok_def
      proof (intro ballI impI)
        fix t assume "t \<in> set (tl_targets l')" and s: "source t \<noteq> FromSnoop"
        with same 2(2) obtain u where u: "u \<in> set (tl_targets l)" "source t = source u"
          "tgt_allocOnFill t = tgt_allocOnFill u" "isMayNotFill (qt_pkt t) = isMayNotFill (qt_pkt u)"
          "cmd_needsWritable (cmd (qt_pkt t)) = cmd_needsWritable (cmd (qt_pkt u))"
          by auto
        with ok s show "(tl_mayNotFill l' \<longrightarrow> isMayNotFill (qt_pkt t)) \<and>
           (cmd_needsWritable (cmd (qt_pkt t)) \<longrightarrow> tl_needsWritable l') \<and> (tgt_allocOnFill t \<longrightarrow> tl_allocOnFill l')"
          by (simp add: list_ok_def summary_ok_def 2(2))
      qed
      show "busy_ok l'" using ok same by (fastforce simp: list_ok_def busy_ok_def 2(2))
    qed
    then show ?thesis using same by (simp add: 2(2) pkt_domainID_def) metis
  qed
  then show "list_ok l'" "length (tl_targets l') = length (tl_targets l)" "writesBitmap l' = writesBitmap l"
    "t \<in> set (tl_targets l') \<Longrightarrow> \<exists>u \<in> set (tl_targets l). source t = source u \<and>
           pkt_domainID (qt_pkt t) = pkt_domainID (qt_pkt u)"
    by blast+
qed

lemma tl_init_fields [simp]:
  "tl_targets (tl_init a sz l) = tl_targets l" "length (writesBitmap (tl_init a sz l)) = unat sz"
  "True \<notin> set (writesBitmap (tl_init a sz l))"
  by (simp_all add: tl_init_def)

lemma list_ok_empty: "tl_targets l = [] \<Longrightarrow> True \<notin> set (writesBitmap l) \<Longrightarrow> list_ok l"
  by (simp add: list_ok_def summary_ok_def busy_ok_def)

lemma mshr_allocate_ok:
  assumes al: "mshr_allocate ms now a sz pkt t ord alloc m = Inr (m', calls)"
    and nt: "getNumTargets m = 0" and sz: "sz \<noteq> 0"
  shows "mshr_ok m'" and "\<not> inService m'" and "deferred_seq m' = []"
    and "qe_readyTime m' = t" "qe_blkAddr m' = a" "qe_domainID m' = pkt_domainID pkt" "qe_blkSize m' = sz"
    and "\<exists>b. target_seq m' = [new_target now pkt t ord
           (if cmd pkt = HardPFReq then FromPrefetcher else FromCPU) b alloc]"
proof -
  let ?src = "if cmd pkt = HardPFReq then FromPrefetcher else FromCPU"
  let ?l0 = "tl_init a (ucast sz) (targets m)"
  from nt have e: "target_seq m = []" "deferred_seq m = []" by (simp_all add: getNumTargets_def)
  from al obtain l sec where add: "tl_add ms now pkt t ord ?src True alloc ?l0 = Inr (l, calls)"
    and m': "m' = m\<lparr>qe_blkAddr := a, qe_blkSize := sz, qe_isSecure := sec,
               qe_readyTime := t, qe_order := ord, isForward := False, wasWholeLineWrite := False,
               qe_isUncacheable := req_isUncacheable (pkt_req pkt), inService := False,
               downstreamPending := False, qe_domainID := pkt_domainID pkt,
               deferredTargets := tl_init a (ucast sz) (deferredTargets m), targets := l\<rparr>"
    by (auto simp: mshr_allocate_def Let_def bind_result_eq_Inr require_eq_Inr)
  have ok0: "list_ok ?l0" "list_ok (tl_init a (ucast sz) (deferredTargets m))"
    using e by (simp_all add: list_ok_empty)
  note add_ok = tl_add_ok [OF add ok0(1)]
  have "length (writesBitmap (deferredTargets m')) \<noteq> 0"
    using sz by (simp add: m' unat_ucast_u32 unat_eq_0)
  then have len: "writesBitmap (deferredTargets m') \<noteq> []" by (simp only: length_0_conv not_False_eq_True)
  from add_ok(3) e obtain b where b: "tl_targets l = [new_target now pkt t ord ?src b alloc]" by auto
  show "mshr_ok m'"
    unfolding mshr_ok_def carried_def using add_ok(1) ok0(2) len b e by (simp add: m')
  show "\<not> inService m'" "deferred_seq m' = []" "qe_readyTime m' = t" "qe_blkAddr m' = a"
    "qe_domainID m' = pkt_domainID pkt" "qe_blkSize m' = sz"
    using e by (simp_all add: m')
  show "\<exists>b. target_seq m' = [new_target now pkt t ord ?src b alloc]" using b by (auto simp: m')
qed

text \<open>What an operation on a register leaves alone.\<close>

definition same_entry :: "mshr \<Rightarrow> mshr \<Rightarrow> bool" where
  "same_entry m m' \<longleftrightarrow> qe_readyTime m' = qe_readyTime m \<and> qe_blkAddr m' = qe_blkAddr m \<and>
     qe_isSecure m' = qe_isSecure m \<and> qe_domainID m' = qe_domainID m \<and> qe_blkSize m' = qe_blkSize m"

lemma allocateTarget_ok:
  assumes al: "allocateTarget ms fresh now pkt t ord alloc m = Inr (m', calls)" and ok: "mshr_ok m"
  shows "mshr_ok m' \<and> same_entry m m' \<and> inService m' = inService m \<and>
    (\<exists>p b. target_seq m' @ deferred_seq m' = (target_seq m @ deferred_seq m) @ [new_target now p t ord FromCPU b alloc] \<and>
       pkt_req p = pkt_req pkt \<and> isMayNotFill p = isMayNotFill pkt)"
proof -
  from al obtain f dfr where dom: "pkt_domainID pkt = qe_domainID m" and f: "front (targets m) = Inr f"
    and d: "must_defer pkt (qt_pkt f) m = Inr dfr"
    by (auto simp: allocateTarget_def require_eq_Inr bind_result_eq_Inr)
  have ne: "getNumTargets m > 0" using f by (auto simp: front_def getNumTargets_def split: list.splits)
  have lok: "list_ok (targets m)" "list_ok (deferredTargets m)" using ok by (simp_all add: mshr_ok_def carried_def)
  show ?thesis
  proof (cases dfr)
    case True
    with al dom f d obtain p l where p: "p = pkt \<or> replaceUpgrade fresh pkt = Inr p"
      and add: "tl_add ms now p t ord FromCPU True alloc (deferredTargets m) = Inr (l, calls)"
      and m': "m' = m\<lparr>deferredTargets := l\<rparr>"
      by (auto simp: allocateTarget_def bind_result_eq_Inr split: if_splits)
    have pf: "pkt_req p = pkt_req pkt" "isMayNotFill p = isMayNotFill pkt"
      using p replaceUpgrade_Inr [of fresh pkt p] by auto
    note a = tl_add_ok [OF add lok(2)]
    from a(3) obtain b where b: "tl_targets l = deferred_seq m @ [new_target now p t ord FromCPU b alloc]" by blast
    have "writesBitmap l \<noteq> []" using a(2) ok ne by (metis carried_def length_0_conv mshr_ok_def)
    then have "mshr_ok m'"
      using ok a(1) dom pf b by (auto simp: mshr_ok_def carried_def m' pkt_domainID_def)
    then show ?thesis using pf b by (auto simp: m' same_entry_def)
  next
    case False
    have nod: "deferred_seq m = []" using d False by (auto simp: must_defer_def split: if_splits)
    from False al dom f d obtain l
      where add: "tl_add ms now pkt t ord FromCPU (\<not> inService m) alloc (targets m) = Inr (l, calls)"
        and m': "m' = m\<lparr>targets := l\<rparr>"
      by (auto simp: allocateTarget_def bind_result_eq_Inr)
    note a = tl_add_ok [OF add lok(1)]
    from a(3) obtain b where b: "tl_targets l = target_seq m @ [new_target now pkt t ord FromCPU b alloc]" by blast
    have "mshr_ok m'" using ok a(1) dom ne b nod by (auto simp: mshr_ok_def carried_def m')
    then show ?thesis using b nod by (auto simp: m' same_entry_def)
  qed
qed

lemma record_snoop_ok:
  assumes r: "record_snoop ms ind fresh now pkt ord nw pm wr m = Inr (pkt', m', calls)" and ok: "mshr_ok m"
    and ne: "target_seq m \<noteq> []"
  shows "mshr_ok m' \<and> same_entry m m' \<and> inService m' = inService m \<and> deferred_seq m' = deferred_seq m \<and>
    (\<exists>ts. target_seq m' = target_seq m @ ts \<and> (\<forall>t \<in> set ts. source t = FromSnoop))"
proof (cases "pm \<or> cmd_isInvalidate (cmd pkt)")
  case True
  with r obtain cp l mp pi where add: "tl_add ms now cp now ord FromSnoop mp False (targets m) = Inr (l, calls)"
    and m': "m' = m\<lparr>targets := l, postInvalidate := pi\<rparr>"
    by (auto simp: record_snoop_def bind_result_eq_Inr)
  have lok: "list_ok (targets m)" using ok by (simp add: mshr_ok_def)
  note a = tl_add_ok [OF add lok]
  from a(3) obtain b where b: "tl_targets l = target_seq m @ [new_target now cp now ord FromSnoop b False]"
    by blast
  have "getNumTargets m > 0" using ne by (simp add: getNumTargets_def)
  then have "mshr_ok m'" using ok a(1) b by (auto simp: mshr_ok_def carried_def m')
  then show ?thesis using b by (simp add: m' same_entry_def)
next
  case False
  with r ok show ?thesis by (auto simp: record_snoop_def same_entry_def)
qed

lemma carried_deferred:
  assumes "mshr_ok m" and "replaceUpgrades fresh (deferredTargets m) = Inr d"
  shows "mshr_ok (m\<lparr>deferredTargets := d\<rparr>)"
proof -
  have dok: "list_ok (deferredTargets m)" using assms(1) by (simp add: mshr_ok_def carried_def)
  note r = replaceUpgrades_ok [OF assms(2) dok]
  have "getNumTargets (m\<lparr>deferredTargets := d\<rparr>) = getNumTargets m" using r(2) by (simp add: getNumTargets_def)
  moreover have "\<forall>t \<in> set (tl_targets d). source t = FromCPU \<and> pkt_domainID (qt_pkt t) = qe_domainID m"
  proof
    fix t assume "t \<in> set (tl_targets d)"
    from r(4) [OF this] obtain u where "u \<in> set (deferred_seq m)" "source t = source u"
      "pkt_domainID (qt_pkt t) = pkt_domainID (qt_pkt u)" by blast
    then show "source t = FromCPU \<and> pkt_domainID (qt_pkt t) = qe_domainID m"
      using assms(1) by (simp add: mshr_ok_def carried_def)
  qed
  ultimately show ?thesis using assms(1) r(1,3) by (auto simp: mshr_ok_def carried_def)
qed

lemma carried_targets:
  assumes "mshr_ok m" and "replaceUpgrades fresh (targets m) = Inr l"
  shows "mshr_ok (m\<lparr>targets := l\<rparr>)"
proof -
  have tok: "list_ok (targets m)" using assms(1) by (simp add: mshr_ok_def)
  note r = replaceUpgrades_ok [OF assms(2) tok]
  have "getNumTargets (m\<lparr>targets := l\<rparr>) = getNumTargets m" using r(2) by (simp add: getNumTargets_def)
  moreover have "\<forall>t \<in> set (tl_targets l). source t \<noteq> FromSnoop \<longrightarrow> pkt_domainID (qt_pkt t) = qe_domainID m"
  proof (intro ballI impI)
    fix t assume "t \<in> set (tl_targets l)" and s: "source t \<noteq> FromSnoop"
    from r(4) [OF this(1)] obtain u where "u \<in> set (target_seq m)" "source t = source u"
      "pkt_domainID (qt_pkt t) = pkt_domainID (qt_pkt u)" by blast
    then show "pkt_domainID (qt_pkt t) = qe_domainID m"
      using assms(1) s by (simp add: mshr_ok_def carried_def)
  qed
  ultimately show ?thesis using assms(1) r(1) by (auto simp: mshr_ok_def carried_def)
qed

lemma mshr_ok_flags [simp]:
  "mshr_ok (m\<lparr>postDowngrade := x\<rparr>) = mshr_ok m" "same_entry m (m\<lparr>deferredTargets := d\<rparr>)"
  "same_entry m (m'\<lparr>postDowngrade := x\<rparr>) = same_entry m m'" "same_entry m m"
  "same_entry m (m\<lparr>targets := l, deferredTargets := d\<rparr>)"
  "same_entry (m\<lparr>deferredTargets := d\<rparr>) m' = same_entry m m'"
  "getNumTargets (m\<lparr>postDowngrade := x\<rparr>) = getNumTargets m"
  by (simp_all add: mshr_ok_def carried_def getNumTargets_def same_entry_def)

lemma answer_snoop_Inr:
  assumes "answer_snoop ms ind fresh now pkt ord nw m = Inr (b, pkt', m', calls)"
  obtains pm wr pkt1 m2 where "record_snoop ms ind fresh now pkt ord nw pm wr m = Inr (pkt1, m2, calls)"
    "m' = m2 \<or> m' = m2\<lparr>postDowngrade := True\<rparr>"
  using assms by (auto simp: answer_snoop_def bind_result_eq_Inr Let_def split: if_split_asm)

lemma mshr_handleSnoop_cases:
  assumes h: "mshr_handleSnoop ms ind freshes fresh now pkt ord m = Inr (b, pkt', m', calls)"
  obtains (same) "m' = m"
  | (upgrades) t d where "replaceUpgrades freshes (targets m) = Inr t"
      "replaceUpgrades freshes (deferredTargets m) = Inr d" "m' = m\<lparr>targets := t, deferredTargets := d\<rparr>"
  | (inform) d where "d = deferredTargets m \<or> replaceUpgrades freshes (deferredTargets m) = Inr d"
      "m' = m\<lparr>deferredTargets := d\<rparr>"
  | (answered) d nw where
      "d = deferredTargets m \<or> replaceUpgrades freshes (deferredTargets m) = Inr d" "target_seq m \<noteq> []"
      "answer_snoop ms ind fresh now pkt ord nw (m\<lparr>deferredTargets := d\<rparr>) = Inr (b, pkt', m', calls)"
proof -
  from h obtain nw where nw: "needsWritable pkt = Inr nw"
    by (cases "needsWritable pkt") (simp_all add: mshr_handleSnoop_def)
  let ?takes = "nw \<or> req_isCacheInvalidate (pkt_req pkt)"
  let ?d = "if ?takes then replaceUpgrades freshes (deferredTargets m) else Inr (deferredTargets m)"
  show ?thesis
  proof (cases "\<not> inService m \<or> isExpressSnoop pkt \<and> downstreamPending m")
    case True
    show ?thesis
    proof (cases ?takes)
      case t: True
      with h nw True obtain t d where "replaceUpgrades freshes (targets m) = Inr t"
        "replaceUpgrades freshes (deferredTargets m) = Inr d" "m' = m\<lparr>targets := t, deferredTargets := d\<rparr>"
        unfolding mshr_handleSnoop_def Let_def require_eq_Inr by (auto simp: result_simps)
      then show ?thesis by (rule upgrades)
    next
      case False
      with h nw True show ?thesis
        by (intro same) (simp add: mshr_handleSnoop_def Let_def require_eq_Inr)
    qed
  next
    case False
    from h have "bind_result ?d (\<lambda>d. bind_result (front (targets (m\<lparr>deferredTargets := d\<rparr>))) (\<lambda>f.
        bind_result (hasPostInvalidate (m\<lparr>deferredTargets := d\<rparr>)) (\<lambda>pi.
        if pi \<or> req_isCacheInvalidate (pkt_req (qt_pkt f)) then Inr (True, pkt, m\<lparr>deferredTargets := d\<rparr>, [])
        else answer_snoop ms ind fresh now pkt ord nw (m\<lparr>deferredTargets := d\<rparr>)))) = Inr (b, pkt', m', calls)"
      using False by (simp only: mshr_handleSnoop_def nw bind_result_Inr Let_def require_eq_Inr if_False)
    then obtain d f pi where d: "?d = Inr d" and f: "front (targets (m\<lparr>deferredTargets := d\<rparr>)) = Inr f"
      and rest: "(if pi \<or> req_isCacheInvalidate (pkt_req (qt_pkt f)) then Inr (True, pkt, m\<lparr>deferredTargets := d\<rparr>, [])
        else answer_snoop ms ind fresh now pkt ord nw (m\<lparr>deferredTargets := d\<rparr>)) = Inr (b, pkt', m', calls)"
      by (simp only: bind_result_eq_Inr) blast
    have ne: "target_seq m \<noteq> []" using f by (auto simp: front_def)
    have d': "d = deferredTargets m \<or> replaceUpgrades freshes (deferredTargets m) = Inr d"
      using d by (cases ?takes) simp_all
    show ?thesis
    proof (cases "pi \<or> req_isCacheInvalidate (pkt_req (qt_pkt f))")
      case True
      with rest show ?thesis by (intro inform [OF d']) simp
    next
      case False
      with rest show ?thesis by (intro answered [OF d' ne]) simp
    qed
  qed
qed

lemma mshr_handleSnoop_ok:
  assumes h: "mshr_handleSnoop ms ind freshes fresh now pkt ord m = Inr (b, pkt', m', calls)" and ok: "mshr_ok m"
  shows "mshr_ok m' \<and> same_entry m m' \<and> inService m' = inService m \<and> getNumTargets m \<le> getNumTargets m'"
proof -
  have dfr: "mshr_ok (m\<lparr>deferredTargets := d\<rparr>) \<and> getNumTargets (m\<lparr>deferredTargets := d\<rparr>) = getNumTargets m"
    if "d = deferredTargets m \<or> replaceUpgrades freshes (deferredTargets m) = Inr d" for d
    using that ok carried_deferred [OF ok, of freshes d] replaceUpgrades_ok(2) [of freshes "deferredTargets m" d]
    by (auto simp: getNumTargets_def mshr_ok_def carried_def)
  from h show ?thesis
  proof (cases rule: mshr_handleSnoop_cases)
    case same
    then show ?thesis using ok by simp
  next
    case (upgrades t d)
    have "mshr_ok (m\<lparr>targets := t, deferredTargets := d\<rparr>)"
      using carried_deferred [OF carried_targets [OF ok upgrades(1)], of freshes d] upgrades(2) by simp
    moreover have "getNumTargets m' = getNumTargets m"
      using replaceUpgrades_ok(2) [OF upgrades(1)] replaceUpgrades_ok(2) [OF upgrades(2)] ok
      by (simp add: upgrades(3) getNumTargets_def mshr_ok_def carried_def)
    ultimately show ?thesis by (simp add: upgrades(3))
  next
    case (inform d)
    then show ?thesis using dfr [OF inform(1)] by simp
  next
    case (answered d nw)
    from answered(3) obtain pm wr pkt1 m2 where
      r: "record_snoop ms ind fresh now pkt ord nw pm wr (m\<lparr>deferredTargets := d\<rparr>) = Inr (pkt1, m2, calls)"
      and m': "m' = m2 \<or> m' = m2\<lparr>postDowngrade := True\<rparr>" by (rule answer_snoop_Inr)
    have "mshr_ok m2 \<and> same_entry m m2 \<and> inService m2 = inService m \<and> getNumTargets m \<le> getNumTargets m2"
      using record_snoop_ok [OF r] dfr [OF answered(1)] answered(2) by (auto simp: getNumTargets_def)
    then show ?thesis using m' by auto
  qed
qed

lemma mshr_ok_cleared:
  assumes "mshr_ok m" and "tl_clearDownstreamPending ms (targets m) = (l, calls)"
    and "targets m' = l" "deferredTargets m' = deferredTargets m" "qe_domainID m' = qe_domainID m"
  shows "mshr_ok m'"
proof -
  have tok: "list_ok (targets m)" using assms(1) by (simp add: mshr_ok_def)
  note c = clear_list_ok [OF assms(2) tok]
  have "\<forall>t \<in> set (target_seq m'). source t \<noteq> FromSnoop \<longrightarrow> pkt_domainID (qt_pkt t) = qe_domainID m"
  proof (intro ballI impI)
    fix t assume "t \<in> set (target_seq m')" "source t \<noteq> FromSnoop"
    then show "pkt_domainID (qt_pkt t) = qe_domainID m"
      using clear_pending_same [of t ms "target_seq m"] c(2) assms(1,3) by (auto simp: mshr_ok_def carried_def)
  qed
  moreover have "getNumTargets m' = getNumTargets m"
    using c(2) assms(3,4) by (simp add: getNumTargets_def clear_pending_map)
  ultimately show ?thesis using assms c(1) by (auto simp: mshr_ok_def carried_def)
qed

lemma mshr_markInService_ok:
  assumes "mshr_markInService ms b m = Inr (m', calls)" and "mshr_ok m"
  shows "mshr_ok m' \<and> same_entry m m' \<and> inService m' \<and> \<not> inService m \<and> getNumTargets m' = getNumTargets m \<and>
    map qt_pkt (target_seq m') = map qt_pkt (target_seq m) \<and> deferredTargets m' = deferredTargets m"
proof (cases "downstreamPending m")
  case True
  with assms show ?thesis
    by (auto simp: mshr_markInService_def require_eq_Inr Let_def same_entry_def mshr_ok_def carried_def getNumTargets_def)
next
  case False
  with assms(1) obtain l where l: "tl_clearDownstreamPending ms (targets m) = (l, calls)"
    and m': "m' = m\<lparr>inService := True, pendingModified := tl_needsWritable (targets m) \<or> b,
       postInvalidate := False, postDowngrade := False, targets := l, wasWholeLineWrite := tl_isWholeLineWrite l\<rparr>"
    and ns: "\<not> inService m"
    by (auto simp: mshr_markInService_def require_eq_Inr Let_def split: prod.splits)
  have "mshr_ok m'" by (rule mshr_ok_cleared [OF assms(2) l]) (simp_all add: m')
  moreover have "tl_targets l = fst (clear_pending ms (target_seq m))"
    using clear_list_ok(2) [OF l] assms(2) by (simp add: mshr_ok_def)
  ultimately show ?thesis using ns by (simp add: m' same_entry_def getNumTargets_def clear_pending_map)
qed

lemma mshr_clearDownstreamPending_ok:
  assumes "mshr_clearDownstreamPending ms m = Inr (m', calls)" and "mshr_ok m"
  shows "mshr_ok m' \<and> same_entry m m' \<and> inService m' = inService m \<and> getNumTargets m' = getNumTargets m"
proof -
  from assms(1) obtain l where l: "tl_clearDownstreamPending ms (targets m) = (l, calls)"
    and m': "m' = m\<lparr>downstreamPending := False, targets := l\<rparr>"
    by (auto simp: mshr_clearDownstreamPending_def require_eq_Inr split: prod.splits)
  have "mshr_ok m'" by (rule mshr_ok_cleared [OF assms(2) l]) (simp_all add: m')
  moreover have "tl_targets l = fst (clear_pending ms (target_seq m))"
    using clear_list_ok(2) [OF l] assms(2) by (simp add: mshr_ok_def)
  ultimately show ?thesis by (simp add: m' same_entry_def getNumTargets_def clear_pending_map)
qed

lemma mshr_updateMayNotFill_ok:
  assumes "mshr_updateMayNotFill False m = (b, m')" and "mshr_ok m"
  shows "mshr_ok m' \<and> same_entry m m' \<and> inService m' = inService m \<and> getNumTargets m' = getNumTargets m \<and>
    (tl_mayNotFill (targets m') \<longrightarrow> tl_mayNotFill (targets m))"
proof -
  from assms(1) have m': "m' = m\<lparr>targets := snd (tl_updateMayNotFill False (targets m))\<rparr>"
    by (simp add: mshr_updateMayNotFill_def case_prod_beta)
  show ?thesis
  proof (cases "tl_allocOnFill (targets m)")
    case False
    then have "snd (tl_updateMayNotFill False (targets m)) = targets m" by (simp add: tl_updateMayNotFill_def)
    then have "m' = m" unfolding m' by simp
    then show ?thesis using assms(2) by simp
  next
    case True
    let ?l = "(targets m)\<lparr>tl_mayNotFill := False\<rparr>"
    have eq: "snd (tl_updateMayNotFill False (targets m)) = ?l" using True by (simp add: tl_updateMayNotFill_def)
    have "list_ok (targets m)" and c: "carried m" using assms(2) by (simp_all add: mshr_ok_def)
    then have "list_ok ?l" by (simp add: list_ok_def summary_ok_def busy_ok_def)
    moreover have "carried (m\<lparr>targets := ?l\<rparr>)" using c by (simp add: carried_def getNumTargets_def)
    ultimately show ?thesis unfolding m' eq by (simp add: mshr_ok_def same_entry_def getNumTargets_def)
  qed
qed

lemma mshr_deallocate_ok:
  assumes "mshr_deallocate m = Inr m'" and "mshr_ok m"
  shows "getNumTargets m' = 0 \<and> mshr_ok m' \<and> \<not> inService m'"
proof -
  from assms(1) have e: "target_seq m = []" and r: "isReset (deferredTargets m)"
    and m': "m' = m\<lparr>targets := resetFlags (targets m), inService := False\<rparr>"
    by (auto simp: mshr_deallocate_def require_eq_Inr)
  have d: "deferred_seq m = []"
  proof (rule ccontr)
    assume ne: "deferred_seq m \<noteq> []"
    then have "writesBitmap (deferredTargets m) \<noteq> []" "source (hd (deferred_seq m)) = FromCPU"
      using assms(2) by (auto simp: mshr_ok_def carried_def getNumTargets_def)
    then have "writes_or_cache (deferredTargets m) \<or> \<not> canMergeWrites (deferredTargets m)"
      using assms(2) ne hd_in_set [OF ne] by (auto simp: mshr_ok_def carried_def list_ok_def busy_ok_def)
    with r show False by (auto simp: isReset_def)
  qed
  have "list_ok (resetFlags (targets m))" using e by (simp add: list_ok_empty)
  with assms(2) e d show ?thesis by (auto simp: m' getNumTargets_def mshr_ok_def carried_def)
qed

interpretation mq: entry_class getNumTargets mshr_ok mshr_deallocate
  by unfold_locales (use mshr_deallocate_ok in blast)

section \<open>Deferral and promotion keep the order of requests\<close>

abbreviation waiting :: "mshr \<Rightarrow> packet list" where
  "waiting m \<equiv> map qt_pkt (target_seq m @ deferred_seq m)"

lemma splice_deferred_fields [simp]:
  "target_seq (splice_deferred n m) = target_seq m @ take n (deferred_seq m)"
  "deferred_seq (splice_deferred n m) = drop n (deferred_seq m)"
  "writesBitmap (deferredTargets (splice_deferred n m)) = writesBitmap (deferredTargets m)"
  "qe_domainID (splice_deferred n m) = qe_domainID m" "inService (splice_deferred n m) = inService m"
  "getNumTargets (splice_deferred n m) = getNumTargets m"
  by (simp_all add: splice_deferred_def getNumTargets_def)

lemma carried_transfer:
  assumes c: "carried m" and d: "list_ok (deferredTargets m')"
    and len: "length (writesBitmap (deferredTargets m')) = length (writesBitmap (deferredTargets m))"
    and num: "getNumTargets m' \<le> getNumTargets m"
    and all: "\<And>t. t \<in> set (target_seq m' @ deferred_seq m') \<Longrightarrow>
      \<exists>u \<in> set (target_seq m @ deferred_seq m). qt_pkt t = qt_pkt u \<and> source t = source u"
    and dfr: "\<And>t. t \<in> set (deferred_seq m') \<Longrightarrow> t \<in> set (deferred_seq m)"
    and dom: "qe_domainID m' = qe_domainID m"
  shows "carried m'"
proof -
  have "\<forall>t \<in> set (deferred_seq m'). source t = FromCPU" using c dfr by (auto simp: carried_def)
  moreover have "\<forall>t \<in> set (target_seq m' @ deferred_seq m'). source t \<noteq> FromSnoop \<longrightarrow>
      pkt_domainID (qt_pkt t) = qe_domainID m'"
  proof (intro ballI impI)
    fix t assume "t \<in> set (target_seq m' @ deferred_seq m')" and s: "source t \<noteq> FromSnoop"
    from all [OF this(1)] obtain u where "u \<in> set (target_seq m @ deferred_seq m)"
      "qt_pkt t = qt_pkt u" "source t = source u" by blast
    with c s dom show "pkt_domainID (qt_pkt t) = qe_domainID m'" by (auto simp: carried_def)
  qed
  moreover have "getNumTargets m' > 0 \<longrightarrow> writesBitmap (deferredTargets m') \<noteq> []"
    using c num len by (auto simp: carried_def)
  ultimately show ?thesis using d by (simp add: carried_def)
qed

lemma promoteDeferredTargets_ok:
  assumes p: "promoteDeferredTargets now m = Inr (b, m')" and c: "carried m"
    and t: "target_seq m = [] \<and> deferred_seq m = [] \<longrightarrow> list_ok (targets m)"
  shows "mshr_ok m' \<and> waiting m' = waiting m \<and> (b \<longleftrightarrow> waiting m \<noteq> []) \<and> (b \<longrightarrow> target_seq m' \<noteq> []) \<and>
    inService m' = inService m \<and> getNumTargets m' = getNumTargets m \<and> (\<not> b \<longrightarrow> m' = m)"
proof (cases "target_seq m = [] \<and> deferred_seq m = []")
  case True
  with p c t show ?thesis by (simp add: promoteDeferredTargets_def mshr_ok_def)
next
  case ne: False
  define it where "it = length (takeWhile (\<lambda>t. \<not> req_isCacheMaintenance (pkt_req (qt_pkt t))) (deferred_seq m))"
  define n where "n = (if it = 0 then (if target_seq m = [] then 1 else 0) else it)"
  have m1: "(if it = 0 then (if target_seq m = [] then splice_deferred 1 m else m) else splice_deferred it m) =
      splice_deferred n m"
    by (simp add: n_def splice_deferred_def)
  from p ne have p': "bind_result (populateFlags (deferredTargets (splice_deferred n m))) (\<lambda>d.
      bind_result (populateFlags (targets (splice_deferred n m))) (\<lambda>t. bind_result (front t) (\<lambda>f.
      Inr (True, (splice_deferred n m)\<lparr>targets := t, deferredTargets := d, qe_order := qt_order f,
                           qe_readyTime := max now (qt_readyTime f)\<rparr>)))) = Inr (b, m')"
    unfolding promoteDeferredTargets_def Let_def it_def [symmetric] m1 by (simp only: if_False)
  from p' obtain d l f where d: "populateFlags (deferredTargets (splice_deferred n m)) = Inr d"
    and l: "populateFlags (targets (splice_deferred n m)) = Inr l" and f: "front l = Inr f" and b: "b"
    and m': "m' = (splice_deferred n m)\<lparr>targets := l, deferredTargets := d, qe_order := qt_order f,
                           qe_readyTime := max now (qt_readyTime f)\<rparr>"
    by (auto simp: bind_result_eq_Inr)
  note dp = populateFlags_ok [OF d] and lp = populateFlags_ok [OF l]
  have seqs: "target_seq m' = target_seq m @ take n (deferred_seq m)" "deferred_seq m' = drop n (deferred_seq m)"
    unfolding m' using dp(2) lp(2) by simp_all
  have flds: "targets m' = l" "deferredTargets m' = d" "qe_domainID m' = qe_domainID m" "inService m' = inService m"
    unfolding m' by simp_all
  have num: "getNumTargets m' = getNumTargets m" using seqs by (simp add: getNumTargets_def)
  have "carried m'"
  proof (rule carried_transfer [OF c])
    show "length (writesBitmap (deferredTargets m')) = length (writesBitmap (deferredTargets m))"
      using dp(3) by (simp add: flds)
    show "\<exists>u \<in> set (target_seq m @ deferred_seq m). qt_pkt t = qt_pkt u \<and> source t = source u"
      if "t \<in> set (target_seq m' @ deferred_seq m')" for t
      using that unfolding seqs by (metis append_assoc append_take_drop_id)
    show "t \<in> set (deferred_seq m)" if "t \<in> set (deferred_seq m')" for t
      using that unfolding seqs by (rule in_set_dropD)
  qed (simp_all add: num flds dp(1))
  moreover have "waiting m' = waiting m" unfolding seqs by (simp add: map_append [symmetric] del: map_append)
  moreover have "target_seq m' \<noteq> []" using f by (auto simp: flds front_def)
  ultimately show ?thesis using ne b num lp(1) flds by (auto simp: mshr_ok_def)
qed

lemma prefix_length_le: "prefix_length P xs = Inr n \<Longrightarrow> n \<le> length xs"
  by (induction xs arbitrary: n) (auto simp: bind_result_eq_Inr split: if_splits)

lemma promoteIf_ok:
  assumes p: "promoteIf ms P m = Inr (m', calls)" and c: "carried m"
  shows "carried m' \<and> waiting m' = waiting m \<and> inService m' = inService m \<and> same_entry m m' \<and>
    (target_seq m \<noteq> [] \<longrightarrow> target_seq m' \<noteq> [])"
proof -
  from p obtain n where n: "prefix_length P (deferred_seq m) = Inr n"
    by (auto simp: promoteIf_def bind_result_eq_Inr require_eq_Inr)
  define ts where "ts = fst (clear_pending ms (take n (deferred_seq m)))"
  define m1 where "m1 = splice_deferred n (m\<lparr>deferredTargets :=
      (deferredTargets m)\<lparr>tl_targets := ts @ drop n (deferred_seq m)\<rparr>\<rparr>)"
  from p n obtain d where d: "populateFlags (deferredTargets m1) = Inr d"
    and m': "m' = m1\<lparr>deferredTargets := d\<rparr>"
    by (auto simp: promoteIf_def bind_result_eq_Inr require_eq_Inr Let_def m1_def ts_def split: prod.splits)
  note dp = populateFlags_ok [OF d]
  have lts: "length ts = n" using prefix_length_le [OF n] by (simp add: ts_def clear_pending_map)
  have s1: "target_seq m1 = target_seq m @ ts" "deferred_seq m1 = drop n (deferred_seq m)"
    using lts by (auto simp: m1_def)
  have seqs: "target_seq m' = target_seq m @ ts" "deferred_seq m' = drop n (deferred_seq m)"
    and flds: "deferredTargets m' = d" "qe_domainID m' = qe_domainID m" "inService m' = inService m"
    unfolding m' using dp(2) s1 by (simp_all add: m1_def)
  have num: "getNumTargets m' = getNumTargets m"
    using seqs lts prefix_length_le [OF n] by (simp add: getNumTargets_def)
  have "carried m'"
  proof (rule carried_transfer [OF c])
    show "length (writesBitmap (deferredTargets m')) = length (writesBitmap (deferredTargets m))"
      using dp(3) by (simp add: flds m1_def)
    show "\<exists>u \<in> set (target_seq m @ deferred_seq m). qt_pkt t = qt_pkt u \<and> source t = source u"
      if t: "t \<in> set (target_seq m' @ deferred_seq m')" for t
    proof (cases "t \<in> set ts")
      case True
      from clear_pending_same [OF this [unfolded ts_def]] show ?thesis by (auto dest: in_set_takeD)
    next
      case False
      with t show ?thesis unfolding seqs by (auto dest: in_set_dropD)
    qed
    show "t \<in> set (deferred_seq m)" if "t \<in> set (deferred_seq m')" for t
      using that unfolding seqs by (rule in_set_dropD)
  qed (simp_all add: num flds dp(1))
  moreover have "waiting m' = waiting m"
    unfolding seqs by (simp add: ts_def clear_pending_map(1) take_map [symmetric] drop_map [symmetric])
  moreover have "same_entry m m'" unfolding m' by (simp add: m1_def same_entry_def splice_deferred_def)
  ultimately show ?thesis using flds seqs by simp
qed

lemma promoteReadable_ok:
  assumes "promoteReadable ms m = Inr (m', calls)" and "carried m"
  shows "carried m' \<and> waiting m' = waiting m \<and> inService m' = inService m \<and> same_entry m m' \<and>
    (target_seq m \<noteq> [] \<longrightarrow> target_seq m' \<noteq> [])"
proof -
  from assms(1) have "m' = m \<or> (\<exists>P. promoteIf ms P m = Inr (m', calls))"
    by (auto simp: promoteReadable_def bind_result_eq_Inr split: if_splits)
  then show ?thesis using promoteIf_ok [OF _ assms(2)] assms(2) by auto
qed

lemma promoteWritable_ok:
  assumes "promoteWritable ms m = Inr (m', calls)" and "carried m"
  shows "carried m' \<and> waiting m' = waiting m \<and> inService m' = inService m \<and> same_entry m m' \<and>
    (target_seq m \<noteq> [] \<longrightarrow> target_seq m' \<noteq> [])"
proof -
  let ?m = "m\<lparr>targets := (targets m)\<lparr>tl_needsWritable := True\<rparr>\<rparr>"
  from assms(1) have "m' = m \<or> (\<exists>P. promoteIf ms P ?m = Inr (m', calls))"
    by (auto simp: promoteWritable_def bind_result_eq_Inr require_eq_Inr split: if_splits)
  moreover have "carried ?m" using assms(2) by (simp add: carried_def getNumTargets_def)
  ultimately show ?thesis using promoteIf_ok [of ms _ ?m m' calls] assms(2) by (auto simp: same_entry_def)
qed

lemma extractServiceableTargets_ok:
  assumes e: "extractServiceableTargets pkt m = Inr (ready, m')" and c: "carried m"
  shows "carried m' \<and> list_ok (targets m') \<and> inService m' = inService m \<and> same_entry m m' \<and>
    deferredTargets m' = deferredTargets m \<and> getNumTargets m' \<le> getNumTargets m"
proof (cases "cmd pkt = ReadRespWithInvalidate")
  case True
  with e obtain f l where f: "front (targets m) = Inr f"
    and l: "populateFlags ((targets m)\<lparr>tl_targets := filter (\<lambda>t. source t = FromCPU) (tl (target_seq m))\<rparr>) = Inr l"
    and m': "m' = m\<lparr>targets := l\<rparr>"
    by (auto simp: extractServiceableTargets_def bind_result_eq_Inr require_eq_Inr Let_def)
  note lp = populateFlags_ok [OF l]
  have seq: "target_seq m' = filter (\<lambda>t. source t = FromCPU) (tl (target_seq m))" "deferredTargets m' = deferredTargets m"
    using lp(2) by (simp_all add: m')
  have len: "length (filter (\<lambda>t. source t = FromCPU) (tl (target_seq m))) \<le> length (target_seq m)"
    by (rule order_trans [OF length_filter_le]) simp
  have dom: "qe_domainID m' = qe_domainID m" by (simp add: m')
  have "carried m'"
  proof (rule carried_transfer [OF c])
    show "\<exists>u \<in> set (target_seq m @ deferred_seq m). qt_pkt t = qt_pkt u \<and> source t = source u"
      if "t \<in> set (target_seq m' @ deferred_seq m')" for t
      using that unfolding seq by (cases "target_seq m") auto
    show "list_ok (deferredTargets m')" using c by (simp add: seq carried_def)
    show "getNumTargets m' \<le> getNumTargets m" using len by (simp add: getNumTargets_def seq)
  qed (simp_all add: seq dom)
  then show ?thesis using lp len unfolding m' by (simp add: same_entry_def getNumTargets_def)
next
  case False
  with e obtain l where
      l: "populateFlags (tl_init (qe_blkAddr m) (ucast (qe_blkSize m)) (new_target_list 0 0 False)) = Inr l"
    and m': "m' = m\<lparr>targets := l\<rparr>" and ready: "ready = targets m"
    by (auto simp: extractServiceableTargets_def bind_result_eq_Inr Let_def)
  note lp = populateFlags_ok [OF l]
  have seq: "target_seq m' = []" "deferredTargets m' = deferredTargets m"
    using lp(2) by (simp_all add: m' new_target_list_def)
  have dom: "qe_domainID m' = qe_domainID m" by (simp add: m')
  have "carried m'"
    using c by (intro carried_transfer [OF c]) (auto simp: seq dom getNumTargets_def carried_def)
  then show ?thesis using lp seq unfolding m' by (simp add: same_entry_def getNumTargets_def)
qed

lemma extract_all:
  assumes "extractServiceableTargets pkt m = Inr (ready, m')" and "cmd pkt \<noteq> ReadRespWithInvalidate"
  shows "ready = targets m \<and> target_seq m' = [] \<and> deferred_seq m' = deferred_seq m"
proof -
  let ?r = "tl_init (qe_blkAddr m) (ucast (qe_blkSize m)) (new_target_list 0 0 False)"
  from assms have "bind_result (populateFlags ?r) (\<lambda>t. Inr (targets m, m\<lparr>targets := t\<rparr>)) = Inr (ready, m')"
    unfolding extractServiceableTargets_def Let_def by simp
  then obtain l where "populateFlags ?r = Inr l" and "ready = targets m" and "m' = m\<lparr>targets := l\<rparr>"
    by (auto simp: bind_result_eq_Inr)
  then show ?thesis using populateFlags_ok(2) [of ?r l] by (simp add: new_target_list_def)
qed

section \<open>Reachable registers\<close>

text \<open>
  The life of a register: it is allocated for a first request; then requests and snoops for its block
  join, it is sent downstream, the block is found to be needed after all, and the response is
  handled by promoting deferred targets, taking those that can be served and starting over with
  what was deferred.
\<close>

inductive mshr_reach :: "(nat \<Rightarrow> bool) \<Rightarrow> mshr \<Rightarrow> bool" for ms where
  start: "getNumTargets m = 0 \<Longrightarrow> sz \<noteq> 0 \<Longrightarrow>
    mshr_allocate ms now a sz pkt t ord alloc m = Inr (m', calls) \<Longrightarrow> mshr_reach ms m'"
| target: "mshr_reach ms m \<Longrightarrow> allocateTarget ms fresh now pkt t ord alloc m = Inr (m', calls) \<Longrightarrow> mshr_reach ms m'"
| snoop: "mshr_reach ms m \<Longrightarrow>
    mshr_handleSnoop ms ind freshes fresh now pkt ord m = Inr (b, pkt', m', calls) \<Longrightarrow> mshr_reach ms m'"
| forward: "mshr_reach ms m \<Longrightarrow> mshr_reach ms (m\<lparr>isForward := b\<rparr>)"
| send: "mshr_reach ms m \<Longrightarrow> mshr_markInService ms b m = Inr (m', calls) \<Longrightarrow> mshr_reach ms m'"
| cleared: "mshr_reach ms m \<Longrightarrow> mshr_clearDownstreamPending ms m = Inr (m', calls) \<Longrightarrow> mshr_reach ms m'"
| may_fill: "mshr_reach ms m \<Longrightarrow> mshr_updateMayNotFill False m = (b, m') \<Longrightarrow> mshr_reach ms m'"
| respond: "mshr_reach ms m \<Longrightarrow> m1 = m \<or> promoteReadable ms m = Inr (m1, c1) \<Longrightarrow>
    m2 = m1 \<or> promoteWritable ms m1 = Inr (m2, c2) \<Longrightarrow>
    extractServiceableTargets pkt m2 = Inr (ready, m3) \<Longrightarrow>
    promoteDeferredTargets now m3 = Inr (b, m') \<Longrightarrow> mshr_reach ms m'"
| pending: "mshr_reach ms m \<Longrightarrow> inService m \<Longrightarrow> mshr_reach ms (m\<lparr>inService := False\<rparr>)"

lemma mshr_reach_ok: "mshr_reach ms m \<Longrightarrow> mshr_ok m"
proof (induction rule: mshr_reach.induct)
  case (respond m m1 c1 m2 c2 pkt ready m3 now b m')
  have c0: "carried m" using respond.IH by (simp add: mshr_ok_def)
  have c1: "carried m1" using respond.hyps(2) promoteReadable_ok [OF _ c0] c0 by blast
  have c2: "carried m2" using respond.hyps(3) promoteWritable_ok [OF _ c1] c1 by blast
  note e = extractServiceableTargets_ok [OF respond.hyps(4) c2]
  show ?case using promoteDeferredTargets_ok [OF respond.hyps(5)] e by blast
next
  case (forward m b)
  then show ?case by (simp add: mshr_ok_def carried_def getNumTargets_def)
next
  case (pending m)
  then show ?case by (simp add: mshr_ok_def carried_def getNumTargets_def)
qed (blast dest: mshr_allocate_ok allocateTarget_ok mshr_handleSnoop_ok mshr_markInService_ok
       mshr_clearDownstreamPending_ok mshr_updateMayNotFill_ok)+


text \<open>Two reads of one block, the first of them not to be filled.\<close>

definition miss_pkt :: "64 word \<Rightarrow> packet" where
  "miss_pkt flags =
     (case new_packet (new_request 3 0 0x1008 8 flags 1) ReadReq of Inr p \<Rightarrow> p
      | Inl _ \<Rightarrow> new_packet_blk (new_request 3 0 0x1008 8 flags 1) ReadReq 64)"

definition first_miss :: "(mshr \<times> up_call list) result" where
  "first_miss = mshr_allocate (\<lambda>_. False) 5 0x1000 64 (miss_pkt NO_FILL) 6 0 True
     (new_mshr (new_target_list 0 0 True) (new_target_list 0 0 True))"

definition second_miss :: "(mshr \<times> up_call list) result" where
  "second_miss = bind_result first_miss (\<lambda>(m, _).
     allocateTarget (\<lambda>_. False) [] 7 (miss_pkt 0) 8 1 True m)"


text \<open>Claim C9. Requests are served in the order in which they arrived: a new request joins behind all
  that wait, deferred or not; a response that keeps the block serves a prefix of the waiting requests,
  deferred ones that could be promoted included, and the rest waits on in the same order; the register
  starts over exactly when something is left.\<close>

theorem mshr_serves_in_order:
  assumes m: "mshr_reach ms m"
  shows "(allocateTarget ms fresh now pkt t ord alloc m = Inr (ma, calls) \<longrightarrow>
           (\<exists>p. waiting ma = waiting m @ [p] \<and> pkt_req p = pkt_req pkt \<and> isMayNotFill p = isMayNotFill pkt)) \<and>
         ((m1 = m \<or> promoteReadable ms m = Inr (m1, c1)) \<and> (m2 = m1 \<or> promoteWritable ms m1 = Inr (m2, c2)) \<and>
          cmd resp \<noteq> ReadRespWithInvalidate \<and> extractServiceableTargets resp m2 = Inr (ready, m3) \<and>
          promoteDeferredTargets now m3 = Inr (b, m') \<longrightarrow>
            map qt_pkt (tl_targets ready) @ waiting m' = waiting m \<and> (b \<longleftrightarrow> waiting m' \<noteq> []) \<and>
            (b \<longrightarrow> target_seq m' \<noteq> []))"
proof (intro conjI impI)
  note ok = mshr_reach_ok [OF m]
  assume "allocateTarget ms fresh now pkt t ord alloc m = Inr (ma, calls)"
  from allocateTarget_ok [OF this ok] obtain p bb where
    "target_seq ma @ deferred_seq ma = (target_seq m @ deferred_seq m) @ [new_target now p t ord FromCPU bb alloc]"
    "pkt_req p = pkt_req pkt" "isMayNotFill p = isMayNotFill pkt" by blast
  then show "\<exists>p. waiting ma = waiting m @ [p] \<and> pkt_req p = pkt_req pkt \<and> isMayNotFill p = isMayNotFill pkt"
    by (intro exI [of _ p]) simp
next
  assume a: "(m1 = m \<or> promoteReadable ms m = Inr (m1, c1)) \<and> (m2 = m1 \<or> promoteWritable ms m1 = Inr (m2, c2)) \<and>
     cmd resp \<noteq> ReadRespWithInvalidate \<and> extractServiceableTargets resp m2 = Inr (ready, m3) \<and>
     promoteDeferredTargets now m3 = Inr (b, m')"
  have c0: "carried m" using mshr_reach_ok [OF m] by (simp add: mshr_ok_def)
  have r1: "carried m1 \<and> waiting m1 = waiting m" using a promoteReadable_ok [OF _ c0] c0 by blast
  have "m2 = m1 \<or> carried m2 \<and> waiting m2 = waiting m1" using a r1 promoteWritable_ok [of ms m1 m2 c2] by blast
  then have r2: "carried m2 \<and> waiting m2 = waiting m" using r1 by auto
  have e: "extractServiceableTargets resp m2 = Inr (ready, m3)" using a by blast
  note x = extractServiceableTargets_ok [OF e conjunct1 [OF r2]]
  have "ready = targets m2 \<and> target_seq m3 = [] \<and> deferred_seq m3 = deferred_seq m2"
    using extract_all [OF e] a by blast
  moreover have "waiting m' = waiting m3 \<and> (b \<longleftrightarrow> waiting m3 \<noteq> []) \<and> (b \<longrightarrow> target_seq m' \<noteq> [])"
    using promoteDeferredTargets_ok [of now m3 b m'] a x by blast
  ultimately show "map qt_pkt (tl_targets ready) @ waiting m' = waiting m" "b = (waiting m' \<noteq> [])"
    "b \<Longrightarrow> target_seq m' \<noteq> []"
    using r2 by simp_all
qed

theorem mshr_serves_in_order_witness:
  "\<exists>m m2 p. first_miss = Inr (m, []) \<and> second_miss = Inr (m2, []) \<and> waiting m2 = waiting m @ [p] \<and>
     pkt_req p = pkt_req (miss_pkt 0)"
proof -
  have "case first_miss of Inr (m, c) \<Rightarrow> c = [] | Inl _ \<Rightarrow> False" by code_simp
  then obtain m where m: "first_miss = Inr (m, [])" by (auto split: sum.splits prod.splits)
  have "case second_miss of Inr (m, c) \<Rightarrow> c = [] | Inl _ \<Rightarrow> False" by code_simp
  then obtain m2 where m2: "second_miss = Inr (m2, [])" by (auto split: sum.splits prod.splits)
  have r: "mshr_reach (\<lambda>_. False) m"
    by (rule mshr_reach.start [OF _ _ m [unfolded first_miss_def]])
      (simp_all add: getNumTargets_def new_mshr_def new_target_list_def queue_entry.extend_def)
  have "allocateTarget (\<lambda>_. False) [] 7 (miss_pkt 0) 8 1 True m = Inr (m2, [])"
    using m2 unfolding second_miss_def m by simp
  then obtain p where "waiting m2 = waiting m @ [p]" "pkt_req p = pkt_req (miss_pkt 0)"
    using mshr_serves_in_order [OF r] by blast
  then show ?thesis using m m2 by blast
qed

end
