(* ===== verification/Write_Queue.thy ===== *)
theory Write_Queue
  imports Cache_Queue
begin

text \<open>
  The write buffer (\<^verbatim>\<open>mem/cache/write_queue_entry.cc\<close>, \<^verbatim>\<open>mem/cache/write_queue.cc\<close>): entries with
  one write-back or uncacheable write each, allocated when a block leaves the cache and released
  when the packet is sent.
\<close>

section \<open>Entries\<close>

record write_queue_entry = queue_entry +
  wq_targets :: "qtarget list"

definition new_write_queue_entry :: write_queue_entry where
  "new_write_queue_entry = queue_entry.extend new_queue_entry \<lparr>wq_targets = []\<rparr>"

definition wqe_add :: "tick \<Rightarrow> packet \<Rightarrow> tick \<Rightarrow> 64 word \<Rightarrow> write_queue_entry \<Rightarrow> write_queue_entry" where
  "wqe_add now pkt ready_time ord e = e\<lparr>wq_targets := wq_targets e @ [new_qtarget now pkt ready_time ord]\<rparr>"

definition wqe_allocate ::
  "tick \<Rightarrow> addr \<Rightarrow> u32 \<Rightarrow> packet \<Rightarrow> tick \<Rightarrow> 64 word \<Rightarrow> write_queue_entry \<Rightarrow> write_queue_entry result" where
  "wqe_allocate now blk_addr blk_size tgt when_ready ord e =
     bind_result (isSecure tgt) (\<lambda>sec.
     let unc = req_isUncacheable (pkt_req tgt);
         e1 = e\<lparr>qe_blkAddr := blk_addr, qe_blkSize := blk_size, qe_isSecure := sec,
               qe_readyTime := when_ready, qe_order := ord, qe_isUncacheable := unc,
               inService := False, qe_domainID := pkt_domainID tgt\<rparr>
     in require (unc \<or> wq_targets e1 = []) Panic
        (require (cmd_isWrite (cmd tgt) \<and> unc \<or> cmd_isEviction (cmd tgt) \<and> \<not> unc \<or> cmd tgt = WriteClean) Panic
        (let e2 = wqe_add now tgt when_ready ord e1
         in bind_result (matchBlockAddr_pkt tgt (qt_pkt (hd (wq_targets e2))) (qe_blkSize e2)) (\<lambda>b.
            require b Assert (Inr e2)))))"

definition wqe_deallocate :: "write_queue_entry \<Rightarrow> write_queue_entry result" where
  "wqe_deallocate e = require (wq_targets e = []) Assert (Inr (e\<lparr>inService := False\<rparr>))"

definition wqe_getNumTargets :: "write_queue_entry \<Rightarrow> nat" where
  "wqe_getNumTargets e = length (wq_targets e)"

definition wqe_getTarget :: "write_queue_entry \<Rightarrow> qtarget result" where
  "wqe_getTarget e = require (wq_targets e \<noteq> []) Assert (Inr (hd (wq_targets e)))"

definition wqe_popTarget :: "write_queue_entry \<Rightarrow> write_queue_entry result" where
  "wqe_popTarget e = require (wq_targets e \<noteq> []) Undefined (Inr (e\<lparr>wq_targets := tl (wq_targets e)\<rparr>))"

definition wqe_trySatisfyFunctional ::
  "packet \<Rightarrow> write_queue_entry \<Rightarrow> (bool \<times> packet \<times> write_queue_entry) result" where
  "wqe_trySatisfyFunctional pkt e =
     (if cmd_isPrint (cmd pkt)
      then bind_result (trySatisfyFunctional pkt (qe_blkAddr e) (qe_isSecure e) (qe_blkSize e) None)
             (\<lambda>(b, pkt1, d). Inr (False, pkt1, e))
      else bind_result (targets_trySatisfyFunctional pkt (wq_targets e)) (\<lambda>(b, pkt1, ts).
           Inr (b, pkt1, e\<lparr>wq_targets := ts\<rparr>)))"

definition wqe_matchBlockAddr :: "write_queue_entry \<Rightarrow> addr \<Rightarrow> bool \<Rightarrow> bool result" where
  "wqe_matchBlockAddr e a is_secure =
     require (wq_targets e \<noteq> []) Assert (Inr (qe_blkAddr e = a \<and> qe_isSecure e = is_secure))"

definition wqe_matchBlockAddr_domain :: "write_queue_entry \<Rightarrow> addr \<Rightarrow> bool \<Rightarrow> domain_id \<Rightarrow> bool result" where
  "wqe_matchBlockAddr_domain e a is_secure d =
     require (wq_targets e \<noteq> []) Assert
     (Inr (qe_blkAddr e = a \<and> qe_isSecure e = is_secure \<and> qe_domainID e = d))"

definition wqe_matchBlockAddr_pkt :: "packet \<Rightarrow> write_queue_entry \<Rightarrow> bool result" where
  "wqe_matchBlockAddr_pkt pkt e =
     require (wq_targets e \<noteq> []) Assert
     (matchBlockAddr_domain pkt (qe_blkAddr e) (qe_isSecure e) (qe_domainID e) (qe_blkSize e))"

text \<open>The other entry may be of either kind; its \<^verbatim>\<open>matchBlockAddr\<close> is an argument.\<close>

definition wqe_conflictAddr ::
  "(addr \<Rightarrow> bool \<Rightarrow> domain_id \<Rightarrow> bool result) \<Rightarrow> write_queue_entry \<Rightarrow> bool result" where
  "wqe_conflictAddr other_matches e =
     require (wq_targets e \<noteq> []) Assert (other_matches (qe_blkAddr e) (qe_isSecure e) (qe_domainID e))"

section \<open>The queue\<close>

type_synonym write_queue = "\<lparr>wq_targets :: qtarget list\<rparr> equeue"

definition new_write_queue :: "int \<Rightarrow> int \<Rightarrow> write_queue" where
  "new_write_queue num_entries reserve = new_queue new_write_queue_entry num_entries reserve"

definition wq_allocate ::
  "tick \<Rightarrow> addr \<Rightarrow> u32 \<Rightarrow> packet \<Rightarrow> tick \<Rightarrow> 64 word \<Rightarrow> write_queue \<Rightarrow> (nat \<times> write_queue) result" where
  "wq_allocate now blk_addr blk_size pkt when_ready ord q =
     bind_result (queue_allocate wqe_getNumTargets
       (\<lambda>e. bind_result (wqe_allocate now blk_addr blk_size pkt when_ready ord e) (\<lambda>e'. Inr (e', ()))) q)
     (\<lambda>(h, _, q1). Inr (h, q1))"

definition wq_markInService :: "nat \<Rightarrow> write_queue \<Rightarrow> write_queue result" where
  "wq_markInService h q =
     bind_result (wqe_popTarget (entry_of q h)) (\<lambda>e.
     queue_deallocate wqe_deallocate h (set_entry h e q))"

section \<open>The write buffer keeps its invariant\<close>

text \<open>An entry that is allocated holds one packet for the entry's own block and domain, unless it
  is an uncacheable write.\<close>

definition wqe_ok :: "write_queue_entry \<Rightarrow> bool" where
  "wqe_ok e \<longleftrightarrow> length (wq_targets e) \<le> 1 \<and> \<not> inService e \<and>
     (\<forall>t \<in> set (wq_targets e). qe_domainID e = pkt_domainID (qt_pkt t) \<and>
        qe_isSecure e = pkt_isSecure (qt_pkt t) \<and> pkt_isSet (qt_pkt t) VALID_ADDR)"

interpretation wq: entry_class wqe_getNumTargets wqe_ok wqe_deallocate
  by unfold_locales (auto simp: wqe_deallocate_def result_simps wqe_getNumTargets_def wqe_ok_def)

lemma wqe_allocate_ok:
  assumes "wqe_allocate now a sz pkt t ord e = Inr e'" and "wqe_getNumTargets e = 0"
  shows "wqe_ok e' \<and> wq_targets e' = [new_qtarget now pkt t ord] \<and> \<not> inService e' \<and>
    qe_blkAddr e' = a \<and> qe_blkSize e' = sz \<and> qe_domainID e' = pkt_domainID pkt \<and> qe_readyTime e' = t"
  using assms
  by (auto simp: wqe_allocate_def Let_def result_simps wqe_add_def wqe_getNumTargets_def wqe_ok_def
      isSecure_def new_qtarget_def)

abbreviation wq_ok :: "write_queue \<Rightarrow> bool" where
  "wq_ok \<equiv> queue_ok wqe_getNumTargets wqe_ok"

text \<open>What is waiting to be written, oldest first.\<close>

definition wq_contents :: "write_queue \<Rightarrow> (nat \<times> packet) list" where
  "wq_contents q = map (\<lambda>h. (h, qt_pkt (hd (wq_targets (entry_of q h))))) (allocatedList q)"

inductive wq_reach :: "write_queue \<Rightarrow> bool" where
  init: "0 \<le> n + r \<Longrightarrow> wq_reach (new_write_queue n r)"
| alloc: "wq_reach q \<Longrightarrow> wq_allocate now a sz pkt t ord q = Inr (h, q') \<Longrightarrow> wq_reach q'"
| send: "wq_reach q \<Longrightarrow> wq_markInService h q = Inr q' \<Longrightarrow> wq_reach q'"

lemma new_write_queue_ok: "0 \<le> n + r \<Longrightarrow> wq_ok (new_write_queue n r) \<and> ready_sorted (new_write_queue n r)"
  by (auto simp: queue_ok_def queue_inv_def ready_sorted_def new_write_queue_def new_queue_def wqe_ok_def
      new_write_queue_entry_def queue_entry.extend_def wqe_getNumTargets_def new_queue_entry_def)

lemma wq_allocate_ok:
  assumes ok: "wq_ok q" and al: "wq_allocate now a sz pkt t ord q = Inr (h, q')"
  shows "wq_ok q' \<and> (ready_sorted q \<longrightarrow> ready_sorted q') \<and> wq_contents q' = wq_contents q @ [(h, pkt)] \<and>
    qe_readyTime (entry_of q' h) = t"
proof -
  let ?f = "\<lambda>e. bind_result (wqe_allocate now a sz pkt t ord e) (\<lambda>e'. Inr (e', ()))"
  from al have al': "queue_allocate wqe_getNumTargets ?f q = Inr (h, (), q')"
    by (auto simp: wq_allocate_def bind_result_eq_Inr)
  have new: "wqe_ok e' \<and> wqe_getNumTargets e' > 0 \<and> \<not> inService e'"
    if "wqe_ok e" "wqe_getNumTargets e = 0" "?f e = Inr (e', ())" for e e'
    using that wqe_allocate_ok [of now a sz pkt t ord e e'] by (auto simp: bind_result_eq_Inr wqe_getNumTargets_def)
  have "wq_ok q' \<and> (ready_sorted q \<longrightarrow> ready_sorted q') \<and> allocatedList q' = allocatedList q @ [h] \<and>
      h \<in> set (readyList q') \<and> (\<exists>e. wqe_getNumTargets (entry_of q h) = 0 \<and> wqe_ok (entry_of q h) \<and>
         ?f (entry_of q h) = Inr (e, ()) \<and> entries q' = (entries q)[h := e]) \<and>
      numEntries q' = numEntries q \<and> equeue.more q' = equeue.more q"
    by (rule wq.allocate_keeps [OF ok al']) (use new in blast)
  then obtain e where k: "wq_ok q'" "ready_sorted q \<longrightarrow> ready_sorted q'" "allocatedList q' = allocatedList q @ [h]"
    and e: "wqe_getNumTargets (entry_of q h) = 0" "wqe_allocate now a sz pkt t ord (entry_of q h) = Inr e"
    and q': "entries q' = (entries q)[h := e]"
    by (auto simp: bind_result_eq_Inr)
  have h: "h \<notin> set (allocatedList q)" using k(1,3) by (auto simp: queue_ok_def queue_inv_def)
  have hl: "h < length (entries q)" using queue_ok_entry [OF k(1), of h] k(3) q' by simp
  note w = wqe_allocate_ok [OF e(2,1)]
  have "map (\<lambda>i. (i, qt_pkt (hd (wq_targets ((entries q)[h := e] ! i))))) (allocatedList q) =
      map (\<lambda>i. (i, qt_pkt (hd (wq_targets (entry_of q i))))) (allocatedList q)"
    using h by (intro map_cong refl) (metis nth_list_update_neq)
  then show ?thesis using k w hl by (simp add: wq_contents_def q' new_qtarget_def)
qed

lemma wq_markInService_ok:
  assumes ok: "wq_ok q" and mk: "wq_markInService h q = Inr q'"
  shows "wq_ok q' \<and> (ready_sorted q \<longrightarrow> ready_sorted q') \<and>
    wq_contents q' = filter (\<lambda>(i, _). i \<noteq> h) (wq_contents q) \<and> h \<in> set (allocatedList q)"
proof -
  from mk obtain e where e: "wqe_popTarget (entry_of q h) = Inr e"
    and d: "queue_deallocate wqe_deallocate h (set_entry h e q) = Inr q'"
    by (auto simp: wq_markInService_def bind_result_eq_Inr)
  have ha: "h \<in> set (allocatedList q)" using d by (auto simp: queue_deallocate_def bind_result_eq_Inr erase_def require_eq_Inr)
  have "wqe_ok (entry_of q h)" using queue_ok_entry [OF ok, of h] ha by simp
  then have eo: "wqe_ok e" "inService e = inService (entry_of q h)"
    using e by (cases "wq_targets (entry_of q h)", auto simp: wqe_popTarget_def require_eq_Inr wqe_ok_def)
  from wq.deallocate_keeps [OF ok d eo] obtain e' where k: "wq_ok q'" "ready_sorted q \<longrightarrow> ready_sorted q'"
    "allocatedList q' = remove1 h (allocatedList q)" "entries q' = (entries q)[h := e']" by blast
  have dist: "distinct (allocatedList q)" using ok by (simp add: queue_ok_def queue_inv_def)
  then have rm: "remove1 h (allocatedList q) = filter (\<lambda>i. i \<noteq> h) (allocatedList q)"
    by (simp add: distinct_remove1_removeAll removeAll_filter_not_eq eq_commute)
  have "map (\<lambda>i. (i, qt_pkt (hd (wq_targets ((entries q)[h := e'] ! i))))) (filter (\<lambda>i. i \<noteq> h) (allocatedList q)) =
      map (\<lambda>i. (i, qt_pkt (hd (wq_targets (entry_of q i))))) (filter (\<lambda>i. i \<noteq> h) (allocatedList q))"
    by (intro map_cong) auto
  then show ?thesis using k ha by (simp add: wq_contents_def rm filter_map comp_def)
qed

lemma wq_reach_ok: "wq_reach q \<Longrightarrow> wq_ok q \<and> ready_sorted q"
  by (induction rule: wq_reach.induct)
    (use new_write_queue_ok wq_allocate_ok wq_markInService_ok in blast)+

lemma wq_allocate_total:
  assumes ok: "wq_ok q" and free: "freeList q \<noteq> []" and valid: "pkt_isSet pkt VALID_ADDR"
    and kind: "cmd_isWrite (cmd pkt) \<and> req_isUncacheable (pkt_req pkt) \<or>
      cmd_isEviction (cmd pkt) \<and> \<not> req_isUncacheable (pkt_req pkt) \<or> cmd pkt = WriteClean"
  shows "\<exists>q'. wq_allocate now a sz pkt t ord q = Inr (hd (freeList q), q')"
proof -
  let ?h = "hd (freeList q)"
  have nt: "wqe_getNumTargets (entry_of q ?h) = 0"
    using ok hd_in_set [OF free] by (simp add: queue_ok_def queue_inv_def)
  then have e: "wq_targets (entry_of q ?h) = []" by (simp add: wqe_getNumTargets_def)
  have "\<exists>e. wqe_allocate now a sz pkt t ord (entry_of q ?h) = Inr e"
    using e valid kind
    by (auto simp: wqe_allocate_def Let_def isSecure_def wqe_add_def new_qtarget_def matchBlockAddr_pkt_def
        getBlockAddr_def getAddr_def matchBlockAddr_domain_def)
  then obtain e where e: "wqe_allocate now a sz pkt t ord (entry_of q ?h) = Inr e" by blast
  from free obtain r where r: "freeList q = ?h # r" by (metis list.collapse)
  obtain l where "addToReadyList ?h (set_entry ?h e (q\<lparr>freeList := r, allocatedList := allocatedList q @ [?h]\<rparr>)) =
      Inr ((set_entry ?h e (q\<lparr>freeList := r, allocatedList := allocatedList q @ [?h]\<rparr>))\<lparr>readyList := l\<rparr>)"
    using addToReadyList_total by blast
  then show ?thesis using e nt by (subst (asm) r, simp add: wq_allocate_def queue_allocate_def, subst r, simp)
qed


definition writeback_pkt :: packet where
  "writeback_pkt = new_packet_blk (new_request 3 0 0x1000 64 0 1) WritebackDirty 64"


end
