(* ===== verification/MSHR_Queue.thy ===== *)
theory MSHR_Queue
  imports MSHR Write_Queue
begin

text \<open>
  The queue of miss status holding registers (\<^verbatim>\<open>mem/cache/mshr_queue.hh\<close>,
  \<^verbatim>\<open>mem/cache/mshr_queue.cc\<close>) over the registers of \<open>MSHR\<close>, with the invariant that both queues of
  a cache keep, and the order in which entries become ready.
\<close>

section \<open>The queue\<close>

record mshr_queue = "unit mshr_ext equeue" +
  demandReserve :: int

definition new_mshr_queue :: "target_list \<Rightarrow> int \<Rightarrow> int \<Rightarrow> int \<Rightarrow> mshr_queue" where
  "new_mshr_queue l num_entries reserve demand_reserve =
     equeue.extend (new_queue (new_mshr l l) num_entries reserve) \<lparr>demandReserve = demand_reserve\<rparr>"

definition mq_allocate ::
  "(nat \<Rightarrow> bool) \<Rightarrow> tick \<Rightarrow> addr \<Rightarrow> u32 \<Rightarrow> packet \<Rightarrow> tick \<Rightarrow> 64 word \<Rightarrow> bool \<Rightarrow> mshr_queue \<Rightarrow>
   (nat \<times> up_call list \<times> mshr_queue) result" where
  "mq_allocate is_mshr now blk_addr blk_size pkt when_ready ord alloc_on_fill q =
     queue_allocate getNumTargets
       (mshr_allocate is_mshr now blk_addr blk_size pkt when_ready ord alloc_on_fill) q"

definition mq_moveToFront :: "nat \<Rightarrow> mshr_queue \<Rightarrow> mshr_queue result" where
  "mq_moveToFront h q =
     (if \<not> inService (entry_of q h)
      then bind_result (erase h (readyList q)) (\<lambda>l. Inr (q\<lparr>readyList := h # l\<rparr>))
      else Inr q)"

text \<open>
  \<^verbatim>\<open>delay\<close> searches from the entry's own position for the first entry that is not ready later than
  it, and moves the entry before the one found; moving an entry before itself does nothing.
\<close>

definition splice_before :: "(nat \<Rightarrow> bool) \<Rightarrow> nat \<Rightarrow> nat list \<Rightarrow> nat list" where
  "splice_before P h l =
     (let pre = takeWhile (\<lambda>x. x \<noteq> h) l; from_h = dropWhile (\<lambda>x. x \<noteq> h) l;
          skipped = takeWhile (\<lambda>x. \<not> P x) from_h; it = dropWhile (\<lambda>x. \<not> P x) from_h
      in if it \<noteq> [] \<and> hd it = h then l else pre @ tl skipped @ h # it)"

definition mq_delay :: "tick \<Rightarrow> nat \<Rightarrow> tick \<Rightarrow> mshr_queue \<Rightarrow> mshr_queue result" where
  "mq_delay now h delay_ticks q =
     bind_result (mshr_delay now delay_ticks (entry_of q h)) (\<lambda>m.
     require (h \<in> set (readyList q)) Undefined
     (let q1 = set_entry h m q
      in Inr (q1\<lparr>readyList := splice_before (\<lambda>x. ready_of q1 h \<ge> ready_of q1 x) h (readyList q1)\<rparr>)))"

definition mq_markInService :: "(nat \<Rightarrow> bool) \<Rightarrow> nat \<Rightarrow> bool \<Rightarrow> mshr_queue \<Rightarrow> (mshr_queue \<times> up_call list) result" where
  "mq_markInService is_mshr h pending_modified_resp q =
     bind_result (mshr_markInService is_mshr pending_modified_resp (entry_of q h)) (\<lambda>(m, calls).
     bind_result (erase h (readyList q)) (\<lambda>l.
     Inr (set_entry h m (q\<lparr>readyList := l, numInService := numInService q + 1\<rparr>), calls)))"

definition mq_markPending :: "nat \<Rightarrow> mshr_queue \<Rightarrow> mshr_queue result" where
  "mq_markPending h q =
     require (inService (entry_of q h)) Assert
     (addToReadyList h (set_entry h ((entry_of q h)\<lparr>inService := False\<rparr>)
        (q\<lparr>numInService := numInService q - 1\<rparr>)))"

definition mq_forceDeallocateTarget :: "tick \<Rightarrow> nat \<Rightarrow> mshr_queue \<Rightarrow> (bool \<times> mshr_queue) result" where
  "mq_forceDeallocateTarget now h q =
     (let was_full = queue_isFull q
      in require (target_seq (entry_of q h) \<noteq> []) Assert
         (bind_result (popTarget (entry_of q h)) (\<lambda>m.
          bind_result (if target_seq m = [] then promoteDeferredTargets now m else Inr (True, m)) (\<lambda>(b, m1).
          bind_result (if b then Inr (set_entry h m1 q)
                       else queue_deallocate mshr_deallocate h (set_entry h m1 q)) (\<lambda>q1.
          Inr (was_full \<and> \<not> queue_isFull q1, q1))))))"

definition havePending :: "mshr_queue \<Rightarrow> bool" where
  "havePending q \<longleftrightarrow> readyList q \<noteq> []"

definition canPrefetch :: "mshr_queue \<Rightarrow> bool" where
  "canPrefetch q \<longleftrightarrow> allocated q < numEntries q - (numReserve q + 1 + demandReserve q)"

section \<open>Both queues keep their invariant\<close>

abbreviation mq_ok :: "mshr_queue \<Rightarrow> bool" where
  "mq_ok \<equiv> queue_ok getNumTargets mshr_ok"

lemma new_mshr_queue_ok:
  assumes "tl_targets l = []" "True \<notin> set (writesBitmap l)" "0 \<le> n + r"
  shows "mq_ok (new_mshr_queue l n r d) \<and> ready_sorted (new_mshr_queue l n r d)"
proof -
  have "mshr_ok (new_mshr l l)" "getNumTargets (new_mshr l l) = 0"
    using assms(1,2) by (simp_all add: mshr_ok_def carried_def list_ok_empty new_mshr_def queue_entry.extend_def
        getNumTargets_def)
  then show ?thesis
    using assms(3) by (auto simp: queue_ok_def queue_inv_def ready_sorted_def new_mshr_queue_def new_queue_def equeue.extend_def)
qed

lemma mq_allocate_ok:
  assumes ok: "mq_ok q" and al: "mq_allocate ms now a sz pkt t ord alloc q = Inr (h, calls, q')" and sz: "sz \<noteq> 0"
  shows "mq_ok q' \<and> (ready_sorted q \<longrightarrow> ready_sorted q') \<and> h \<in> set (readyList q') \<and>
    allocatedList q' = allocatedList q @ [h]"
proof -
  have "mshr_ok m' \<and> getNumTargets m' > 0 \<and> \<not> inService m'"
    if "mshr_allocate ms now a sz pkt t ord alloc m = Inr (m', calls)" "getNumTargets m = 0" for m m'
    using mshr_allocate_ok(1,2) [OF that sz] mshr_allocate_ok(8) [OF that sz] by (auto simp: getNumTargets_def)
  with mq.allocate_keeps [OF ok al [unfolded mq_allocate_def]] show ?thesis by blast
qed

lemma mq_update_ok:
  assumes ok: "mq_ok q" and h: "h \<in> set (allocatedList q)" and m: "mshr_ok m" "getNumTargets m > 0"
    "inService m = inService (entry_of q h)" "same_entry (entry_of q h) m"
  shows "mq_ok (set_entry h m q) \<and> (ready_sorted q \<longrightarrow> ready_sorted (set_entry h m q))"
  using mq.update_keeps [OF ok h m(1-3)] m(4) by (simp add: same_entry_def)

lemma mq_entry: "mq_ok q \<Longrightarrow> h \<in> set (allocatedList q) \<Longrightarrow> mshr_ok (entry_of q h) \<and> getNumTargets (entry_of q h) > 0"
  using queue_ok_entry [of getNumTargets mshr_ok q h] unfolding queue_ok_def queue_inv_def by (metis Un_iff set_append)

lemma mq_markInService_ok:
  assumes ok: "mq_ok q" and mk: "mq_markInService ms h b q = Inr (q', calls)"
  shows "mq_ok q' \<and> (ready_sorted q \<longrightarrow> ready_sorted q')"
proof -
  from mk obtain m where m: "mshr_markInService ms b (entry_of q h) = Inr (m, calls)"
    and hr: "h \<in> set (readyList q)"
    and q': "q' = set_entry h m (q\<lparr>readyList := remove1 h (readyList q), numInService := numInService q + 1\<rparr>)"
    by (auto simp: mq_markInService_def bind_result_eq_Inr erase_def require_eq_Inr)
  note e = mq_entry [OF ok conjunct1 [OF queue_ok_ready [OF ok hr]]]
  note mm = mshr_markInService_ok [OF m conjunct1 [OF e]]
  show ?thesis by (rule mq.in_service_keeps [OF ok hr _ _ _ q']) (use mm e in auto)
qed

lemma mq_markPending_ok:
  assumes ok: "mq_ok q" and h: "h \<in> set (allocatedList q)" and mk: "mq_markPending h q = Inr q'"
  shows "mq_ok q' \<and> (ready_sorted q \<longrightarrow> ready_sorted q')"
proof -
  let ?m = "(entry_of q h)\<lparr>inService := False\<rparr>"
  from mk have s: "inService (entry_of q h)"
    and add: "addToReadyList h (set_entry h ?m (q\<lparr>numInService := numInService q - 1\<rparr>)) = Inr q'"
    by (auto simp: mq_markPending_def require_eq_Inr)
  note e = mq_entry [OF ok h]
  show ?thesis
    by (rule mq.pending_keeps [OF ok h s _ _ _ add]) (use e in \<open>simp_all add: mshr_ok_def carried_def getNumTargets_def\<close>)
qed

text \<open>The end of a response: what was deferred starts over, or the register is released.\<close>

definition finish_response :: "nat \<Rightarrow> bool \<Rightarrow> mshr \<Rightarrow> mshr_queue \<Rightarrow> mshr_queue result" where
  "finish_response h again m q =
     (if again then mq_markPending h (set_entry h m q)
      else queue_deallocate mshr_deallocate h (set_entry h m q))"

lemma finish_response_ok:
  assumes ok: "mq_ok q" and h: "h \<in> set (allocatedList q)" and fin: "finish_response h b m q = Inr q'"
    and m: "mshr_ok m" "inService m = inService (entry_of q h)" "b \<longrightarrow> getNumTargets m > 0"
  shows "mq_ok q' \<and> (ready_sorted q \<longrightarrow> ready_sorted q')"
proof (cases b)
  case False
  then have "queue_deallocate mshr_deallocate h (set_entry h m q) = Inr q'" using fin by (simp add: finish_response_def)
  from mq.deallocate_keeps [OF ok this m(1,2)] show ?thesis by blast
next
  case True
  then have mk: "mq_markPending h (set_entry h m q) = Inr q'" using fin by (simp add: finish_response_def)
  have ok1: "mq_ok (set_entry h m q)" using mq.update_keeps(1) [OF ok h m(1) _ m(2)] m(3) True by simp
  have hl: "h < length (entries q)" using queue_ok_entry [OF ok, of h] h by simp
  have "inService m" using mk hl by (auto simp: mq_markPending_def require_eq_Inr)
  then have nr: "h \<notin> set (readyList q)" using m(2) queue_ok_ready [OF ok] by blast
  have "mq_ok q' \<and> (ready_sorted (set_entry h m q) \<longrightarrow> ready_sorted q')"
    by (rule mq_markPending_ok [OF ok1 _ mk]) (simp add: h)
  then show ?thesis using update_sorted [OF nr] by blast
qed

lemma queue_ok_ready_perm:
  assumes "queue_ok nt ok q" "distinct l" "set l = set (readyList q)"
  shows "queue_ok nt ok (q\<lparr>readyList := l\<rparr>)"
  using assms by (simp add: queue_ok_def queue_inv_def)

lemma mq_moveToFront_ok: "mq_ok q \<Longrightarrow> mq_moveToFront h q = Inr q' \<Longrightarrow> mq_ok q'"
  by (auto simp: mq_moveToFront_def bind_result_eq_Inr erase_def require_eq_Inr queue_ok_def queue_inv_def
      split: if_splits)

text \<open>The search of \<^verbatim>\<open>delay\<close> stops at the entry itself.\<close>

lemma splice_before_self: "P h \<Longrightarrow> h \<in> set l \<Longrightarrow> splice_before P h l = l"
proof -
  assume "P h" "h \<in> set l"
  then obtain r where "dropWhile (\<lambda>x. x \<noteq> h) l = h # r"
    by (metis (mono_tags, lifting) dropWhile_eq_Nil_conv hd_dropWhile list.collapse)
  with \<open>P h\<close> show ?thesis by (simp add: splice_before_def)
qed

lemma mq_delay_ready:
  assumes "mq_delay now h d q = Inr q'"
  shows "q' = set_entry h ((entry_of q h)\<lparr>qe_readyTime := now + d\<rparr>) q \<and> ready_of q h \<le> now \<and> h \<in> set (readyList q)"
  using assms splice_before_self
  by (auto simp: mq_delay_def mshr_delay_def bind_result_eq_Inr require_eq_Inr Let_def set_entry_def)

lemma mq_delay_ok:
  assumes ok: "mq_ok q" and d: "mq_delay now h d q = Inr q'"
  shows "mq_ok q'"
proof -
  note r = mq_delay_ready [OF d]
  have h: "h \<in> set (allocatedList q)" using r queue_ok_ready [OF ok] by blast
  note e = mq_entry [OF ok h]
  have "mq_ok (set_entry h ((entry_of q h)\<lparr>qe_readyTime := now + d\<rparr>) q)"
    using mq.update_keeps(1) [OF ok h, of "(entry_of q h)\<lparr>qe_readyTime := now + d\<rparr>"] e
    by (simp add: mshr_ok_def carried_def getNumTargets_def)
  then show ?thesis using r by simp
qed

lemma popTarget_ok:
  assumes "popTarget m = Inr m'" and "mshr_ok m"
  shows "mshr_ok m' \<and> inService m' = inService m \<and> deferred_seq m' = deferred_seq m"
proof -
  from assms(1) have ne: "target_seq m \<noteq> []"
    and m': "m' = m\<lparr>targets := (targets m)\<lparr>tl_targets := tl (target_seq m)\<rparr>\<rparr>"
    by (auto simp: popTarget_def require_eq_Inr)
  have sub: "set (tl (target_seq m)) \<subseteq> set (target_seq m)" by (cases "target_seq m") auto
  let ?l = "(targets m)\<lparr>tl_targets := tl (target_seq m)\<rparr>"
  have "list_ok (targets m)" and c: "carried m" using assms(2) by (simp_all add: mshr_ok_def)
  then have l: "list_ok ?l" using sub unfolding list_ok_def summary_ok_def busy_ok_def by auto
  have "getNumTargets m > 0" using ne by (simp add: getNumTargets_def)
  then have "carried (m\<lparr>targets := ?l\<rparr>)" using c sub unfolding carried_def by auto
  with l show ?thesis unfolding m' mshr_ok_def by simp
qed

lemma mq_forceDeallocateTarget_ok:
  assumes ok: "mq_ok q" and h: "h \<in> set (allocatedList q)"
    and f: "mq_forceDeallocateTarget now h q = Inr (b, q')"
  shows "mq_ok q' \<and> b = (queue_isFull q \<and> \<not> queue_isFull q')"
proof -
  from f obtain m c m1 where m: "popTarget (entry_of q h) = Inr m"
    and p: "(if target_seq m = [] then promoteDeferredTargets now m else Inr (True, m)) = Inr (c, m1)"
    and q': "(if c then Inr (set_entry h m1 q) else queue_deallocate mshr_deallocate h (set_entry h m1 q)) = Inr q'"
    and b: "b = (queue_isFull q \<and> \<not> queue_isFull q')"
    by (auto simp: mq_forceDeallocateTarget_def bind_result_eq_Inr require_eq_Inr Let_def)
  note e = mq_entry [OF ok h]
  note pt = popTarget_ok [OF m conjunct1 [OF e]]
  have "carried m" "list_ok (targets m)" using pt by (simp_all add: mshr_ok_def)
  then have m1: "mshr_ok m1 \<and> inService m1 = inService (entry_of q h) \<and> (c \<longrightarrow> getNumTargets m1 > 0)"
    using p pt promoteDeferredTargets_ok [of now m c m1] by (auto simp: getNumTargets_def split: if_splits)
  have "mq_ok q'"
  proof (cases c)
    case True
    with q' m1 mq.update_keeps(1) [OF ok h, of m1] show ?thesis by auto
  next
    case False
    with q' have d: "queue_deallocate mshr_deallocate h (set_entry h m1 q) = Inr q'" by simp
    from mq.deallocate_keeps [OF ok d] m1 show ?thesis by blast
  qed
  with b show ?thesis by simp
qed

section \<open>Reachable queues\<close>

text \<open>
  The runs of a miss queue from its construction: allocation, requests, snoops and changes of a
  register in place, sending, and the end of a response.  The index says whether the ready list
  has been reordered by hand, which \<^verbatim>\<open>delay\<close>, \<^verbatim>\<open>moveToFront\<close> and \<^verbatim>\<open>forceDeallocateTarget\<close> may do.
\<close>

inductive mq_reach :: "(nat \<Rightarrow> bool) \<Rightarrow> bool \<Rightarrow> mshr_queue \<Rightarrow> bool" for ms where
  init: "0 \<le> n + r \<Longrightarrow> mq_reach ms True (new_mshr_queue (new_target_list a sz mw) n r d)"
| alloc: "mq_reach ms s q \<Longrightarrow> sz \<noteq> 0 \<Longrightarrow> mq_allocate ms now a sz pkt t ord af q = Inr (h, c, q') \<Longrightarrow> mq_reach ms s q'"
| target: "mq_reach ms s q \<Longrightarrow> h \<in> set (allocatedList q) \<Longrightarrow>
    allocateTarget ms fresh now pkt t ord af (entry_of q h) = Inr (m, c) \<Longrightarrow> mq_reach ms s (set_entry h m q)"
| snoop: "mq_reach ms s q \<Longrightarrow> h \<in> set (allocatedList q) \<Longrightarrow>
    mshr_handleSnoop ms ind freshes fresh now pkt ord (entry_of q h) = Inr (b, pkt', m, c) \<Longrightarrow>
    mq_reach ms s (set_entry h m q)"
| cleared: "mq_reach ms s q \<Longrightarrow> h \<in> set (allocatedList q) \<Longrightarrow>
    mshr_clearDownstreamPending ms (entry_of q h) = Inr (m, c) \<Longrightarrow> mq_reach ms s (set_entry h m q)"
| may_fill: "mq_reach ms s q \<Longrightarrow> h \<in> set (allocatedList q) \<Longrightarrow>
    mshr_updateMayNotFill False (entry_of q h) = (b, m) \<Longrightarrow> mq_reach ms s (set_entry h m q)"
| send: "mq_reach ms s q \<Longrightarrow> mq_markInService ms h b q = Inr (q', c) \<Longrightarrow> mq_reach ms s q'"
| respond: "mq_reach ms s q \<Longrightarrow> h \<in> set (allocatedList q) \<Longrightarrow>
    m1 = entry_of q h \<or> promoteReadable ms (entry_of q h) = Inr (m1, c1) \<Longrightarrow>
    m2 = m1 \<or> promoteWritable ms m1 = Inr (m2, c2) \<Longrightarrow>
    extractServiceableTargets pkt m2 = Inr (ready, m3) \<Longrightarrow> promoteDeferredTargets now m3 = Inr (b, m) \<Longrightarrow>
    finish_response h b m q = Inr q' \<Longrightarrow> mq_reach ms s q'"
| delay: "mq_reach ms s q \<Longrightarrow> mq_delay now h dt q = Inr q' \<Longrightarrow> mq_reach ms False q'"
| to_front: "mq_reach ms s q \<Longrightarrow> mq_moveToFront h q = Inr q' \<Longrightarrow> mq_reach ms False q'"
| force: "mq_reach ms s q \<Longrightarrow> h \<in> set (allocatedList q) \<Longrightarrow>
    mq_forceDeallocateTarget now h q = Inr (b, q') \<Longrightarrow> mq_reach ms False q'"

abbreviation reach_inv :: "bool \<Rightarrow> mshr_queue \<Rightarrow> bool" where
  "reach_inv s q \<equiv> mq_ok q \<and> (s \<longrightarrow> ready_sorted q)"

lemma update_reach_inv:
  assumes "reach_inv s q" "h \<in> set (allocatedList q)"
    and "mshr_ok m \<and> same_entry (entry_of q h) m \<and> inService m = inService (entry_of q h) \<and>
      getNumTargets (entry_of q h) \<le> getNumTargets m"
  shows "reach_inv s (set_entry h m q)"
  using mq_update_ok [of q h m] mq_entry [of q h] assms by simp

lemma mq_reach_inv: "mq_reach ms s q \<Longrightarrow> reach_inv s q"
proof (induction rule: mq_reach.induct)
  case (init n r a sz mw d)
  then show ?case using new_mshr_queue_ok [of "new_target_list a sz mw" n r d] by (simp add: new_target_list_def)
next
  case (alloc s q sz now a pkt t ord af h c q')
  then show ?case using mq_allocate_ok [of q ms now a sz pkt t ord af h c q'] by blast
next
  case (target s q h fresh now pkt t ord af m c)
  then have "mshr_ok (entry_of q h)" using mq_entry by blast
  note t = allocateTarget_ok [OF target.hyps(3) this]
  then obtain x where "target_seq m @ deferred_seq m = (target_seq (entry_of q h) @ deferred_seq (entry_of q h)) @ [x]"
    by blast
  from arg_cong [OF this, of length] have "getNumTargets (entry_of q h) \<le> getNumTargets m"
    by (simp add: getNumTargets_def)
  then show ?case using t target by (intro update_reach_inv) auto
next
  case (snoop s q h ind freshes fresh now pkt ord b pkt' m c)
  then have "mshr_ok (entry_of q h)" using mq_entry by blast
  then show ?case using mshr_handleSnoop_ok [OF snoop.hyps(3)] snoop by (intro update_reach_inv) auto
next
  case (cleared s q h m c)
  then have "mshr_ok (entry_of q h)" using mq_entry by blast
  then show ?case using mshr_clearDownstreamPending_ok [OF cleared.hyps(3)] cleared by (intro update_reach_inv) auto
next
  case (may_fill s q h b m)
  then have "mshr_ok (entry_of q h)" using mq_entry by blast
  then show ?case using mshr_updateMayNotFill_ok [OF may_fill.hyps(3)] may_fill by (intro update_reach_inv) auto
next
  case (send s q h b q' c)
  then show ?case using mq_markInService_ok [of q ms h b q' c] by blast
next
  case (respond s q h m1 c1 m2 c2 pkt ready m3 now b m q')
  then have "mshr_ok (entry_of q h)" using mq_entry by blast
  then have c0: "carried (entry_of q h)" by (simp add: mshr_ok_def)
  have c1: "carried m1 \<and> inService m1 = inService (entry_of q h)"
    using respond.hyps(3) promoteReadable_ok [OF _ c0] c0 by blast
  have c2: "carried m2 \<and> inService m2 = inService (entry_of q h)"
    using respond.hyps(4) promoteWritable_ok [OF _ conjunct1 [OF c1]] c1 by metis
  note e = extractServiceableTargets_ok [OF respond.hyps(5) conjunct1 [OF c2]]
  have m: "mshr_ok m \<and> inService m = inService (entry_of q h) \<and> (b \<longrightarrow> getNumTargets m > 0)"
    using promoteDeferredTargets_ok [OF respond.hyps(6)] e c2 by (auto simp: getNumTargets_def)
  show ?case using finish_response_ok [OF _ respond.hyps(2,7)] respond.IH m by blast
next
  case (delay s q now h dt q')
  then show ?case using mq_delay_ok by blast
next
  case (to_front s q h q')
  then show ?case using mq_moveToFront_ok by blast
next
  case (force s q h now b q')
  then show ?case using mq_forceDeallocateTarget_ok by blast
qed


definition two_misses :: "mshr_queue result" where
  "two_misses =
     bind_result (mq_allocate (\<lambda>_. False) 5 0x1000 64 (miss_pkt NO_FILL) 6 0 True
        (new_mshr_queue (new_target_list 0 0 True) 2 1 0)) (\<lambda>(h, c, q).
     bind_result (mq_allocate (\<lambda>_. False) 5 0x1000 64 (miss_pkt 0) 6 1 True q) (\<lambda>(h, c, q). Inr q))"

lemma two_misses_reach: "\<exists>q. two_misses = Inr q \<and> mq_reach (\<lambda>_. False) True q \<and> readyList q = [0, 1] \<and>
    ready_of q 0 = 6 \<and> ready_of q 1 = 6"
proof -
  have "case two_misses of Inl _ \<Rightarrow> False | Inr q \<Rightarrow> readyList q = [0, 1] \<and> ready_of q 0 = 6 \<and> ready_of q 1 = 6"
    by code_simp
  then obtain q where q: "two_misses = Inr q" "readyList q = [0, 1]" "ready_of q 0 = 6" "ready_of q 1 = 6"
    by (auto split: sum.splits)
  then obtain h1 c1 q1 h2 c2 where
      a: "mq_allocate (\<lambda>_. False) 5 0x1000 64 (miss_pkt NO_FILL) 6 0 True
        (new_mshr_queue (new_target_list 0 0 True) 2 1 0) = Inr (h1, c1, q1)"
        "mq_allocate (\<lambda>_. False) 5 0x1000 64 (miss_pkt 0) 6 1 True q1 = Inr (h2, c2, q)"
    by (auto simp: two_misses_def bind_result_eq_Inr)
  have "mq_reach (\<lambda>_. False) True (new_mshr_queue (new_target_list 0 0 True) 2 1 0)" by (rule mq_reach.init) simp
  from mq_reach.alloc [OF mq_reach.alloc [OF this _ a(1)] _ a(2)] q show ?thesis by (intro exI [of _ q]) simp
qed


text \<open>Claim C29. Delaying a register never changes its place in the ready list, because the search for the
  new place starts at the register itself and stops there at once.  A register delayed at the head of the
  list therefore hides the registers behind it, even those that are ready.\<close>

theorem mshr_delay_blocks_ready:
  assumes "mq_delay now h d q = Inr q'"
  shows "readyList q' = readyList q \<and>
    (readyList q = h # r \<and> h < length (entries q) \<and> now < now + d \<longrightarrow> getNext now q' = None)"
  using mq_delay_ready [OF assms] by (auto simp: getNext_def)

theorem mshr_delay_blocks_ready_witness:
  "\<exists>q q'. two_misses = Inr q \<and> mq_delay 10 0 5 q = Inr q' \<and> ready_of q' 1 \<le> 10 \<and> 1 \<in> set (readyList q') \<and>
     getNext 10 q' = None"
proof -
  from two_misses_reach obtain q where q: "two_misses = Inr q" "mq_reach (\<lambda>_. False) True q"
    "readyList q = [0, 1]" "ready_of q 0 = 6" "ready_of q 1 = 6" by blast
  have ok: "mq_ok q" using mq_reach_inv [OF q(2)] by simp
  have h: "0 < length (entries q)" using queue_ok_ready [OF ok, of 0] queue_ok_entry [OF ok, of 0] q(3) by simp
  have "is_ok (mq_delay 10 0 5 q)"
    using q(3,4) by (simp add: mq_delay_def mshr_delay_def Let_def)
  then obtain q' where q': "mq_delay 10 0 5 q = Inr q'" by (auto simp: is_ok_iff)
  have "getNext 10 q' = None" "readyList q' = [0, 1]"
    using mshr_delay_blocks_ready [OF q', of "[1]"] q(3) h by auto
  moreover have "ready_of q' 1 = 6" using mq_delay_ready [OF q'] q(5) by simp
  ultimately show ?thesis using q(1) q' by auto
qed

end
