(* ===== verification/Write_Allocator.thy ===== *)
theory Write_Allocator
  imports Prelude
begin

text \<open>
  The write allocator of a cache (class \<^verbatim>\<open>WriteAllocator\<close> of \<^verbatim>\<open>mem/cache/base.hh\<close> and
  \<^verbatim>\<open>mem/cache/base.cc\<close>): it recognises a stream of consecutive writes, delays its registers so that
  whole lines gather, and in the end stops allocating for it.
\<close>

datatype write_mode = ALLOCATE | COALESCE | NO_ALLOCATE

record write_allocator =
  wa_mode :: write_mode
  nextAddr :: addr
  byteCount :: u32
  coalesceLimit :: u32
  noAllocateLimit :: u32
  delayThreshold :: u32
  delayCtr :: "addr \<Rightarrow> int"

definition wa_reset :: "write_allocator \<Rightarrow> write_allocator" where
  "wa_reset w = w\<lparr>wa_mode := ALLOCATE, byteCount := 0, nextAddr := 0\<rparr>"

definition new_write_allocator :: "u32 \<Rightarrow> u32 \<Rightarrow> u32 \<Rightarrow> u32 \<Rightarrow> write_allocator" where
  "new_write_allocator coalesce_limit no_allocate_limit block_size delay_threshold =
     wa_reset \<lparr>wa_mode = ALLOCATE, nextAddr = 0, byteCount = 0, coalesceLimit = coalesce_limit * block_size,
       noAllocateLimit = no_allocate_limit * block_size, delayThreshold = delay_threshold, delayCtr = (\<lambda>_. 0)\<rparr>"

definition wa_coalesce :: "write_allocator \<Rightarrow> bool" where
  "wa_coalesce w \<longleftrightarrow> wa_mode w \<noteq> ALLOCATE"

definition wa_allocate :: "write_allocator \<Rightarrow> bool" where
  "wa_allocate w \<longleftrightarrow> wa_mode w \<noteq> NO_ALLOCATE"

definition wa_delay :: "addr \<Rightarrow> write_allocator \<Rightarrow> bool \<times> write_allocator" where
  "wa_delay blk_addr w =
     (if delayCtr w blk_addr > 0
      then (True, w\<lparr>delayCtr := (delayCtr w)(blk_addr := delayCtr w blk_addr - 1)\<rparr>)
      else (False, w))"

definition resetDelay :: "addr \<Rightarrow> write_allocator \<Rightarrow> write_allocator" where
  "resetDelay blk_addr w = w\<lparr>delayCtr := (delayCtr w)(blk_addr := 0)\<rparr>"

definition count_bytes :: "u32 \<Rightarrow> write_allocator \<Rightarrow> write_allocator" where
  "count_bytes write_size w =
     (if wa_mode w \<noteq> NO_ALLOCATE
      then let w1 = w\<lparr>byteCount := byteCount w + write_size\<rparr>
           in if wa_mode w1 = ALLOCATE \<and> byteCount w1 > coalesceLimit w1 then w1\<lparr>wa_mode := COALESCE\<rparr>
              else if wa_mode w1 = COALESCE \<and> byteCount w1 > noAllocateLimit w1 then w1\<lparr>wa_mode := NO_ALLOCATE\<rparr>
              else w1
      else w)"

definition updateMode :: "addr \<Rightarrow> u32 \<Rightarrow> addr \<Rightarrow> write_allocator \<Rightarrow> write_allocator" where
  "updateMode write_addr write_size blk_addr w =
     (let w1 = (if nextAddr w = write_addr
                then count_bytes write_size (w\<lparr>delayCtr := (delayCtr w)(blk_addr := uint (delayThreshold w))\<rparr>)
                else resetDelay blk_addr (w\<lparr>byteCount := write_size, wa_mode := ALLOCATE\<rparr>))
      in w1\<lparr>nextAddr := write_addr + ucast write_size\<rparr>)"

section \<open>Streams\<close>

text \<open>Each write of the stream \<open>sizes\<close> starts where the one before it ended; the blocks are those of
  \<open>blk\<close>.\<close>

fun stream :: "(addr \<Rightarrow> addr) \<Rightarrow> addr \<Rightarrow> u32 list \<Rightarrow> write_allocator \<Rightarrow> write_allocator" where
  "stream blk a [] w = w"
| "stream blk a (s # ss) w = stream blk (a + ucast s) ss (updateMode a s (blk a) w)"

lemma count_bytes_limits [simp]:
  "coalesceLimit (count_bytes s w) = coalesceLimit w" "noAllocateLimit (count_bytes s w) = noAllocateLimit w"
  "delayThreshold (count_bytes s w) = delayThreshold w" "nextAddr (count_bytes s w) = nextAddr w"
  "delayCtr (count_bytes s w) = delayCtr w"
  by (simp_all add: count_bytes_def Let_def)

text \<open>How far a stream of \<open>n\<close> bytes has come: \<open>n\<close> counts all its bytes, the allocator stops counting once
  it no longer allocates.\<close>

definition at_stream :: "nat \<Rightarrow> write_allocator \<Rightarrow> bool" where
  "at_stream n w \<longleftrightarrow>
     (case wa_mode w of
        ALLOCATE \<Rightarrow> unat (byteCount w) = n \<and> n \<le> unat (coalesceLimit w)
      | COALESCE \<Rightarrow> unat (byteCount w) = n \<and> unat (coalesceLimit w) < n
      | NO_ALLOCATE \<Rightarrow> unat (noAllocateLimit w) < n)"

lemma unat_add_small: "unat (x :: u32) + unat y < 2 ^ 32 \<Longrightarrow> unat (x + y) = unat x + unat y"
  by (simp add: unat_word_ariths)

lemma updateMode_step:
  assumes "at_stream n w" "nextAddr w = a" "n + unat s < 2 ^ 32"
  shows "at_stream (n + unat s) (updateMode a s b w)"
proof -
  let ?w = "w\<lparr>delayCtr := (delayCtr w)(b := uint (delayThreshold w))\<rparr>"
  have u: "updateMode a s b w = (count_bytes s ?w)\<lparr>nextAddr := a + ucast s\<rparr>" using assms by (simp add: updateMode_def)
  have "at_stream (n + unat s) (count_bytes s ?w)"
  proof (cases "wa_mode w")
    case NO_ALLOCATE
    then show ?thesis using assms(1) by (simp add: at_stream_def count_bytes_def)
  next
    case ALLOCATE
    then have "unat (byteCount w + s) = n + unat s" using assms by (simp add: at_stream_def unat_add_small)
    then show ?thesis using ALLOCATE by (simp add: at_stream_def count_bytes_def Let_def word_less_nat_alt not_less)
  next
    case COALESCE
    then have "unat (byteCount w + s) = n + unat s" "unat (coalesceLimit w) < n"
      using assms by (simp_all add: at_stream_def unat_add_small)
    then show ?thesis using COALESCE by (simp add: at_stream_def count_bytes_def Let_def word_less_nat_alt not_less)
  qed
  then show ?thesis unfolding u by (simp add: at_stream_def split: write_mode.splits)
qed

lemma stream_at:
  assumes "at_stream n w" "nextAddr w = a" "n + sum_list (map unat ss) < 2 ^ 32"
  shows "at_stream (n + sum_list (map unat ss)) (stream blk a ss w)"
  using assms
proof (induction ss arbitrary: a n w)
  case (Cons s ss)
  have "at_stream (n + unat s) (updateMode a s (blk a) w)" using updateMode_step Cons.prems by simp
  moreover have "nextAddr (updateMode a s (blk a) w) = a + ucast s" by (simp add: updateMode_def)
  ultimately show ?case using Cons.IH [of "n + unat s"] Cons.prems(3) by (simp add: add.assoc)
qed simp

lemma updateMode_limits [simp]:
  "coalesceLimit (updateMode a s b w) = coalesceLimit w" "noAllocateLimit (updateMode a s b w) = noAllocateLimit w"
  "delayThreshold (updateMode a s b w) = delayThreshold w"
  by (simp_all add: updateMode_def resetDelay_def Let_def)

lemma stream_limits [simp]:
  "coalesceLimit (stream blk a ss w) = coalesceLimit w" "noAllocateLimit (stream blk a ss w) = noAllocateLimit w"
  "delayThreshold (stream blk a ss w) = delayThreshold w"
  by (induction ss arbitrary: a w) simp_all

lemma delayed_times:
  "delayCtr w b = int n \<Longrightarrow> fst (wa_delay b (((snd \<circ> wa_delay b) ^^ k) w)) \<longleftrightarrow> k < n"
proof (induction k arbitrary: n w)
  case (Suc k)
  show ?case
  proof (cases n)
    case 0
    then have "snd (wa_delay b w) = w" using Suc.prems by (simp add: wa_delay_def)
    then show ?thesis using Suc.IH [OF Suc.prems] 0 by (simp add: funpow_Suc_right del: funpow.simps)
  next
    case (Suc m)
    then have "delayCtr (snd (wa_delay b w)) b = int m" using Suc.prems by (simp add: wa_delay_def)
    from Suc.IH [OF this] show ?thesis using Suc by (simp add: funpow_Suc_right del: funpow.simps)
  qed
qed (simp add: wa_delay_def)

lemma stream_last_delay:
  assumes "nextAddr w = a" "ss \<noteq> []" "\<And>x. blk x = b"
  shows "delayCtr (stream blk a ss w) b = uint (delayThreshold w)"
  using assms(1,2)
proof (induction ss arbitrary: a w)
  case (Cons s ss)
  have n: "nextAddr (updateMode a s (blk a) w) = a + ucast s" by (simp add: updateMode_def)
  have d: "delayCtr (updateMode a s (blk a) w) b = uint (delayThreshold w)"
    using Cons.prems assms(3) by (simp add: updateMode_def)
  show ?case using Cons.IH [OF n] d by (cases ss) simp_all
qed simp



end
