(* ===== verification/Base_Cache.thy ===== *)
theory Base_Cache
  imports New_Rand_Tags MSHR_Queue Write_Allocator
begin

text \<open>
  The classic cache (\<^verbatim>\<open>mem/cache/base.cc\<close>, \<^verbatim>\<open>mem/cache/base.hh\<close>, \<^verbatim>\<open>mem/cache/cache.cc\<close>): the state
  of a cache over a tag store, a miss queue and a write buffer, the blocks it evicts and writes back,
  and the handling of a fill, with the random-and-safe extensions: no-fill responses that go through the
  temporary block and the acknowledgements that withdraw a no-fill mark.

  The virtual functions of the tag store are the record \<open>tag_ops\<close>, built from the set-associative and
  from the random store.  There is no compressor, as in the configurations of the repository.
\<close>

section \<open>The state of a cache\<close>

record 's tag_ops =
  to_findBlock :: "addr \<Rightarrow> bool \<Rightarrow> domain_id \<Rightarrow> 's tags \<Rightarrow> nat option result"
  to_accessBlock :: "addr \<Rightarrow> bool \<Rightarrow> domain_id \<Rightarrow> bool \<Rightarrow> 's tags \<Rightarrow> (nat option \<times> 64 word \<times> 's tags) result"
  to_findVictim :: "addr \<Rightarrow> bool \<Rightarrow> 's tags \<Rightarrow> (nat \<times> nat list \<times> 's tags) result"
  to_insertBlock :: "nat \<Rightarrow> tick \<Rightarrow> packet \<Rightarrow> nat \<Rightarrow> 's tags \<Rightarrow> 's tags result"
  to_invalidate :: "nat \<Rightarrow> 's tags \<Rightarrow> 's tags result"
  to_extractTag :: "addr \<Rightarrow> addr"
  to_extractIndex :: "addr \<Rightarrow> addr"
  to_regenerate :: "cache_blk \<Rightarrow> addr result"

definition sa_store :: "base_indexing \<Rightarrow> 's rp \<Rightarrow> 's tag_ops" where
  "sa_store p pol =
     \<lparr>to_findBlock = (\<lambda>a s d t. base_findBlock_domain (sa_ip p) t a s d),
      to_accessBlock = sa_accessBlock_domain (sa_ip p) pol,
      to_findVictim = (\<lambda>a s t. sa_findVictim (sa_ip p) pol a t),
      to_insertBlock = sa_insertBlock (sa_ip p) pol, to_invalidate = sa_invalidate pol,
      to_extractTag = base_extractTag p, to_extractIndex = base_extractIndex p,
      to_regenerate = sa_regenerateBlkAddr (sa_ip p)\<rparr>"

text \<open>The cache asks for a victim without naming a domain; \<open>r\<close> is the draw of the random store.\<close>

definition nr_store :: "new_rand_idx \<Rightarrow> 's rp \<Rightarrow> 64 word \<Rightarrow> 's tag_ops" where
  "nr_store p pol r =
     \<lparr>to_findBlock = (\<lambda>a s d t. nrt_findBlock_domain (nr_ip p) t a s d),
      to_accessBlock = nrt_accessBlock_domain (nr_ip p) pol,
      to_findVictim = (\<lambda>a s t. bind_result (nrt_findVictim (nr_ip p) r a s t) (\<lambda>(v, es). Inr (v, es, t))),
      to_insertBlock = nrt_insertBlock (nr_ip p) pol, to_invalidate = nrt_invalidate pol,
      to_extractTag = nr_extractTag p, to_extractIndex = nr_extractIndex p,
      to_regenerate = (\<lambda>b. Inr (nrt_regenerateBlkAddr p b))\<rparr>"

record cache_conf =
  cc_blkSize :: u32
  cacheLevel :: u8
  nofillEn :: bool
  pfAckEn :: bool
  isReadOnly :: bool
  writebackClean :: bool
  mostly_incl :: bool
  numTarget :: nat
  maxRequestors :: nat
  fillLatency :: "64 word"
  cc_lookupLatency :: "64 word"
  dataLatency :: "64 word"
  forwardLatency :: "64 word"
  responseLatency :: "64 word"
  cc_sequentialAccess :: bool
  forwardSnoops :: bool
  cc_prefetcher :: bool
  shbInsertSt :: bool
  pfInsertStLd :: bool
  pfInsertMiss :: bool
  inRange :: "addr \<Rightarrow> bool"

text \<open>
  What the simulation kernel and the objects around a cache supply: the current tick, the clock edges and
  the clock period, the content of memory that is allocated but not written, which sender states are miss
  registers and which one stands for a register of this cache, the packet as the caches above leave it
  after a snoop, and the operation of an atomic request on the bytes it addresses.
\<close>

record cache_env =
  ce_now :: tick
  clockEdge :: "64 word \<Rightarrow> tick"
  fresh_mem :: "u8 list"
  fresh_domain :: domain_id
  is_mshr :: "nat \<Rightarrow> bool"
  mshr_state :: "nat \<Rightarrow> nat"
  clockPeriod :: tick
  snoop_above :: "packet \<Rightarrow> packet"
  amo :: "request \<Rightarrow> u8 list \<Rightarrow> u8 list"

record cache_stats =
  cacheFills :: nat
  replacements :: nat
  unusedPrefetches :: nat
  num_writebacks :: nat
  nofillMshrServiced :: nat
  noFillLowerMshr :: nat
  pfAckHit :: nat
  demandAckHitNofill :: nat
  shbMshrCanFill :: nat

record 's cache =
  c_tags :: "'s tags"
  tempBlock :: temp_cache_blk
  mshrQueue :: mshr_queue
  writeBuffer :: write_queue
  blocked :: u8
  order :: "64 word"
  noTargetMSHR :: "nat option"
  writeAllocator :: "write_allocator option"
  c_stats :: cache_stats

text \<open>A pointer to a block is a handle of the tag store or the temporary block.\<close>

datatype blk_ref = TagBlk nat | TempBlk

fun ref_blk :: "'s cache \<Rightarrow> blk_ref \<Rightarrow> cache_blk result" where
  "ref_blk c (TagBlk h) = get_blk (c_tags c) h"
| "ref_blk c TempBlk = Inr (temp_blk (tempBlock c))"

fun set_ref :: "blk_ref \<Rightarrow> cache_blk \<Rightarrow> 's cache \<Rightarrow> 's cache" where
  "set_ref (TagBlk h) b c = c\<lparr>c_tags := put_blk h b (c_tags c)\<rparr>"
| "set_ref TempBlk b c = c\<lparr>tempBlock := (tempBlock c)\<lparr>temp_blk := b\<rparr>\<rparr>"

fun bc_regenerateBlkAddr :: "'s tag_ops \<Rightarrow> blk_ref \<Rightarrow> 's cache \<Rightarrow> addr result" where
  "bc_regenerateBlkAddr ops (TagBlk h) c = bind_result (get_blk (c_tags c) h) (to_regenerate ops)"
| "bc_regenerateBlkAddr ops TempBlk c = Inr (temp_addr (tempBlock c))"

section \<open>Blocking and miss buffers\<close>

definition Blocked_NoMSHRs :: nat where "Blocked_NoMSHRs = 0"
definition Blocked_NoWBBuffers :: nat where "Blocked_NoWBBuffers = 1"
definition Blocked_NoTargets :: nat where "Blocked_NoTargets = 2"

definition setBlocked :: "nat \<Rightarrow> 's cache \<Rightarrow> 's cache" where
  "setBlocked cause c = c\<lparr>blocked := blocked c OR push_bit cause 1\<rparr>"

definition clearBlocked :: "nat \<Rightarrow> 's cache \<Rightarrow> 's cache" where
  "clearBlocked cause c = c\<lparr>blocked := blocked c AND NOT (push_bit cause 1)\<rparr>"

definition isBlocked :: "'s cache \<Rightarrow> bool" where
  "isBlocked c \<longleftrightarrow> blocked c \<noteq> 0"

definition allocOnFill :: "cache_conf \<Rightarrow> mem_cmd \<Rightarrow> bool" where
  "allocOnFill cf c \<longleftrightarrow> mostly_incl cf \<or> c = WriteLineReq \<or> c = ReadReq \<or> c = WriteReq \<or>
     cmd_isPrefetch c \<or> cmd_isLLSC c"

definition mq_findMatch :: "addr \<Rightarrow> bool \<Rightarrow> domain_id \<Rightarrow> 's cache \<Rightarrow> nat option result" where
  "mq_findMatch a s d c = findMatch_domain mshr_matchBlockAddr_domain a s d True (mshrQueue c)"

definition wb_findMatch :: "addr \<Rightarrow> bool \<Rightarrow> domain_id \<Rightarrow> 's cache \<Rightarrow> nat option result" where
  "wb_findMatch a s d c = findMatch_domain wqe_matchBlockAddr_domain a s d True (writeBuffer c)"

definition allocateMissBuffer ::
  "cache_conf \<Rightarrow> cache_env \<Rightarrow> packet \<Rightarrow> tick \<Rightarrow> bool \<Rightarrow> 's cache \<Rightarrow> (nat \<times> up_call list \<times> 's cache) result" where
  "allocateMissBuffer cf env pkt time clear_nofill c =
     bind_result (getBlockAddr pkt (cc_blkSize cf)) (\<lambda>a.
     bind_result (mq_allocate (is_mshr env) (ce_now env) a (cc_blkSize cf) pkt time (order c)
        (allocOnFill cf (cmd pkt)) (mshrQueue c)) (\<lambda>(h, calls, q).
     let c1 = c\<lparr>mshrQueue := q, order := order c + 1\<rparr>;
         c2 = (if queue_isFull q then setBlocked Blocked_NoMSHRs c1 else c1);
         c3 = (if clear_nofill
               then c2\<lparr>mshrQueue := set_entry h (snd (mshr_updateMayNotFill False (entry_of q h))) q\<rparr>
               else c2)
     in Inr (h, calls, c3)))"

definition allocateWriteBuffer :: "cache_conf \<Rightarrow> cache_env \<Rightarrow> packet \<Rightarrow> tick \<Rightarrow> 's cache \<Rightarrow> 's cache result" where
  "allocateWriteBuffer cf env pkt time c =
     require (cmd_isWrite (cmd pkt) \<or> cmd pkt = CleanEvict) Assert
     (bind_result (getBlockAddr pkt (cc_blkSize cf)) (\<lambda>a. bind_result (isSecure pkt) (\<lambda>s.
      bind_result (wb_findMatch a s (pkt_domainID pkt) c) (\<lambda>_.
      bind_result (wq_allocate (ce_now env) a (cc_blkSize cf) pkt time (order c) (writeBuffer c)) (\<lambda>(h, q).
      let c1 = c\<lparr>writeBuffer := q, order := order c + 1\<rparr>
      in Inr (if queue_isFull q then setBlocked Blocked_NoWBBuffers c1 else c1))))))"

definition inCache :: "'s tag_ops \<Rightarrow> addr \<Rightarrow> bool \<Rightarrow> domain_id \<Rightarrow> 's cache \<Rightarrow> bool result" where
  "inCache ops a s d c = bind_result (to_findBlock ops a s d (c_tags c)) (\<lambda>h. Inr (h \<noteq> None))"

definition hasBeenPrefetched :: "'s tag_ops \<Rightarrow> addr \<Rightarrow> bool \<Rightarrow> domain_id \<Rightarrow> 's cache \<Rightarrow> bool result" where
  "hasBeenPrefetched ops a s d c =
     bind_result (to_findBlock ops a s d (c_tags c)) (\<lambda>h.
     case h of None \<Rightarrow> Inr False | Some h \<Rightarrow> bind_result (get_blk (c_tags c) h) (\<lambda>b. Inr (blk_prefetched b)))"

definition inMissQueue :: "addr \<Rightarrow> bool \<Rightarrow> domain_id \<Rightarrow> 's cache \<Rightarrow> bool result" where
  "inMissQueue a s d c = bind_result (mq_findMatch a s d c) (\<lambda>h. Inr (h \<noteq> None))"

section \<open>Blocks that leave the cache\<close>

definition upd_stats :: "(cache_stats \<Rightarrow> cache_stats) \<Rightarrow> 's cache \<Rightarrow> 's cache" where
  "upd_stats f c = c\<lparr>c_stats := f (c_stats c)\<rparr>"

definition updateBlockData ::
  "cache_conf \<Rightarrow> 's tag_ops \<Rightarrow> blk_ref \<Rightarrow> packet option \<Rightarrow> 's cache \<Rightarrow> 's cache result" where
  "updateBlockData cf ops r cpkt c =
     bind_result (bc_regenerateBlkAddr ops r c) (\<lambda>_.
     case cpkt of None \<Rightarrow> Inr c
     | Some p \<Rightarrow> bind_result (ref_blk c r) (\<lambda>b.
                 bind_result (writeDataToBlock p (blk_data b) (cc_blkSize cf)) (\<lambda>d.
                 Inr (set_ref r (b\<lparr>blk_data := d\<rparr>) c))))"

definition invalidateBlock :: "cache_conf \<Rightarrow> 's tag_ops \<Rightarrow> blk_ref \<Rightarrow> 's cache \<Rightarrow> 's cache result" where
  "invalidateBlock cf ops r c =
     bind_result (ref_blk c r) (\<lambda>b.
     let c1 = (if blk_prefetched b then upd_stats (\<lambda>s. s\<lparr>unusedPrefetches := unusedPrefetches s + 1\<rparr>) c else c)
     in bind_result (updateBlockData cf ops r None c1) (\<lambda>c2.
        case r of TagBlk h \<Rightarrow> bind_result (to_invalidate ops h (c_tags c2)) (\<lambda>t. Inr (c2\<lparr>c_tags := t\<rparr>))
        | TempBlk \<Rightarrow> Inr (c2\<lparr>tempBlock := temp_invalidate (tempBlock c2)\<rparr>)))"

text \<open>The request of a write-back, a clean write or a clean eviction.\<close>

definition wb_request :: "cache_conf \<Rightarrow> cache_env \<Rightarrow> addr \<Rightarrow> cache_blk \<Rightarrow> request result" where
  "wb_request cf env a b =
     (let r1 = setDomainID (blk_domainID b) (new_request (fresh_domain env) (ce_now env) a (cc_blkSize cf) 0 wbRequestorId)
      in bind_result (if blk_secure b then setFlags SECURE r1 else Inr r1) (\<lambda>r2.
         Inr (r2\<lparr>req_taskId := blk_taskId b\<rparr>)))"

text \<open>The packet takes the block's data; the block is left neither writable nor dirty.\<close>

definition take_data :: "cache_conf \<Rightarrow> cache_env \<Rightarrow> packet \<Rightarrow> blk_ref \<Rightarrow> 's cache \<Rightarrow> (packet \<times> 's cache) result" where
  "take_data cf env pkt r c =
     bind_result (ref_blk c r) (\<lambda>b.
     let pkt1 = (if blk_isSet b WritableBit then pkt else setHasSharers pkt);
         b1 = (if blk_isSet b WritableBit then clearCoherenceBits WritableBit b else b);
         b2 = clearCoherenceBits DirtyBit b1
     in bind_result (allocate pkt1 (fresh_mem env)) (\<lambda>pkt2.
        bind_result (setDataFromBlock (blk_data b2) (cc_blkSize cf) pkt2) (\<lambda>pkt3.
        Inr (pkt3, set_ref r b2 c))))"

definition writebackBlk ::
  "cache_conf \<Rightarrow> 's tag_ops \<Rightarrow> cache_env \<Rightarrow> blk_ref \<Rightarrow> 's cache \<Rightarrow> (packet \<times> 's cache) result" where
  "writebackBlk cf ops env r c =
     require (\<not> isReadOnly cf \<or> writebackClean cf) Assert
     (bind_result (ref_blk c r) (\<lambda>b.
      require (blk_valid b \<and> (blk_isSet b DirtyBit \<or> writebackClean cf)) Assert
      (bind_result (bc_regenerateBlkAddr ops r c) (\<lambda>a.
       bind_result (wb_request cf env a b) (\<lambda>req.
       bind_result (new_packet req (if blk_isSet b DirtyBit then WritebackDirty else WritebackClean)) (\<lambda>pkt.
       take_data cf env pkt r (upd_stats (\<lambda>s. s\<lparr>num_writebacks := num_writebacks s + 1\<rparr>) c)))))))"

definition writecleanBlk ::
  "cache_conf \<Rightarrow> 's tag_ops \<Rightarrow> cache_env \<Rightarrow> 64 word \<Rightarrow> blk_ref \<Rightarrow> 's cache \<Rightarrow> (packet \<times> 's cache) result" where
  "writecleanBlk cf ops env dest r c =
     bind_result (ref_blk c r) (\<lambda>b.
     bind_result (bc_regenerateBlkAddr ops r c) (\<lambda>a.
     bind_result (wb_request cf env a b) (\<lambda>req.
     let pkt = new_packet_blk req WriteClean (cc_blkSize cf)
     in bind_result (if dest \<noteq> 0
                     then bind_result (setFlags dest req) (\<lambda>req1. setWriteThrough (pkt\<lparr>pkt_req := req1\<rparr>))
                     else Inr pkt) (\<lambda>pkt1. take_data cf env pkt1 r c))))"

definition cleanEvictBlk :: "cache_conf \<Rightarrow> 's tag_ops \<Rightarrow> cache_env \<Rightarrow> blk_ref \<Rightarrow> 's cache \<Rightarrow> packet result" where
  "cleanEvictBlk cf ops env r c =
     require (\<not> writebackClean cf) Assert
     (bind_result (ref_blk c r) (\<lambda>b.
      require (blk_valid b \<and> \<not> blk_isSet b DirtyBit) Assert
      (bind_result (bc_regenerateBlkAddr ops r c) (\<lambda>a.
       bind_result (wb_request cf env a b) (\<lambda>req.
       bind_result (new_packet req CleanEvict) (\<lambda>pkt. allocate pkt (fresh_mem env)))))))"

definition evict_packet ::
  "cache_conf \<Rightarrow> 's tag_ops \<Rightarrow> cache_env \<Rightarrow> blk_ref \<Rightarrow> 's cache \<Rightarrow> (packet \<times> 's cache) result" where
  "evict_packet cf ops env r c =
     bind_result (ref_blk c r) (\<lambda>b.
     bind_result (if blk_isSet b DirtyBit \<or> writebackClean cf then writebackBlk cf ops env r c
                  else bind_result (cleanEvictBlk cf ops env r c) (\<lambda>pkt. Inr (pkt, c))) (\<lambda>(pkt, c1).
     bind_result (invalidateBlock cf ops r c1) (\<lambda>c2. Inr (pkt, c2))))"

definition evictBlock ::
  "cache_conf \<Rightarrow> 's tag_ops \<Rightarrow> cache_env \<Rightarrow> bool \<Rightarrow> blk_ref \<Rightarrow> packet list \<times> 's cache \<Rightarrow> (packet list \<times> 's cache) result" where
  "evictBlock cf ops env no_fill r = (\<lambda>(wbs, c).
     bind_result (evict_packet cf ops env r c) (\<lambda>(pkt, c1).
     if no_fill
     then require (r = TempBlk) Panic (Inr (wbs @ [setMayNotFill pkt], c1))
     else require (r \<noteq> TempBlk) Panic (Inr (wbs @ [pkt], c1))))"

section \<open>Replacement\<close>

text \<open>The first loop of \<^verbatim>\<open>handleEvictions\<close>: whether a valid block is replaced, or nothing if one of
  the blocks has an outstanding upgrade or clean request.\<close>

fun check_evictions :: "'s tag_ops \<Rightarrow> nat list \<Rightarrow> bool \<Rightarrow> 's cache \<Rightarrow> bool option result" where
  "check_evictions ops [] replacement c = Inr (Some replacement)"
| "check_evictions ops (h # hs) replacement c =
     bind_result (get_blk (c_tags c) h) (\<lambda>b.
     if \<not> blk_valid b then check_evictions ops hs replacement c
     else bind_result (to_regenerate ops b) (\<lambda>a.
          bind_result (mq_findMatch a (blk_secure b) (blk_domainID b) c) (\<lambda>m.
          case m of None \<Rightarrow> check_evictions ops hs True c
          | Some i \<Rightarrow>
              let e = entry_of (mshrQueue c) i
              in bind_result (if \<not> blk_isSet b WritableBit \<and> tl_needsWritable (targets e) then Inr True
                              else bind_result (front (targets e)) (\<lambda>f. Inr (cmd_isClean (cmd (qt_pkt f))))) (\<lambda>okay.
                 require okay Assert (Inr None)))))"

definition handleEvictions ::
  "cache_conf \<Rightarrow> 's tag_ops \<Rightarrow> cache_env \<Rightarrow> nat list \<Rightarrow> packet list \<Rightarrow> 's cache \<Rightarrow> (bool \<times> packet list \<times> 's cache) result" where
  "handleEvictions cf ops env evict_blks wbs c =
     bind_result (check_evictions ops evict_blks False c) (\<lambda>res.
     case res of None \<Rightarrow> Inr (False, wbs, c)
     | Some replacement \<Rightarrow>
         if replacement
         then bind_result (fold_result (\<lambda>h wc. bind_result (get_blk (c_tags (snd wc)) h) (\<lambda>b.
                if blk_valid b then evictBlock cf ops env False (TagBlk h) wc else Inr wc)) evict_blks
                (wbs, upd_stats (\<lambda>s. s\<lparr>replacements := replacements s + 1\<rparr>) c)) (\<lambda>(w, c1). Inr (True, w, c1))
         else Inr (True, wbs, c))"

definition allocateBlock ::
  "cache_conf \<Rightarrow> 's tag_ops \<Rightarrow> cache_env \<Rightarrow> packet \<Rightarrow> packet list \<Rightarrow> 's cache \<Rightarrow>
   (blk_ref option \<times> packet list \<times> 's cache) result" where
  "allocateBlock cf ops env pkt wbs c =
     bind_result (getAddr pkt) (\<lambda>a. bind_result (isSecure pkt) (\<lambda>s.
     bind_result (to_findVictim ops a s (c_tags c)) (\<lambda>(victim, evict_blks, t).
     bind_result (handleEvictions cf ops env evict_blks wbs (c\<lparr>c_tags := t\<rparr>)) (\<lambda>(okay, wbs1, c1).
     if \<not> okay then Inr (None, wbs1, c1)
     else bind_result (to_insertBlock ops (maxRequestors cf) (ce_now env) pkt victim (c_tags c1)) (\<lambda>t1.
          Inr (Some (TagBlk victim), wbs1, c1\<lparr>c_tags := t1\<rparr>))))))"

section \<open>Fills\<close>

text \<open>The block that a fill without a block in the cache goes to: a replaced block, or the temporary
  block with the response marked so that the caches above do not fill either.\<close>

definition fill_target ::
  "cache_conf \<Rightarrow> 's tag_ops \<Rightarrow> cache_env \<Rightarrow> packet \<Rightarrow> addr \<Rightarrow> bool \<Rightarrow> bool \<Rightarrow> packet list \<Rightarrow> 's cache \<Rightarrow>
   (packet \<times> blk_ref \<times> packet list \<times> 's cache) result" where
  "fill_target cf ops env pkt a is_secure alloc wbs c =
     require (cmd_hasData (cmd pkt) \<or> cmd pkt = InvalidateResp) Assert
     (bind_result (if alloc then allocateBlock cf ops env pkt wbs c else Inr (None, wbs, c)) (\<lambda>(blk, wbs1, c1).
      case blk of
        None \<Rightarrow>
          require (nofillEn cf) Panic
          (bind_result (temp_insert a (to_extractTag ops a) (to_extractIndex ops a) is_secure (tempBlock c1)) (\<lambda>tb.
           Inr (setNoFillLower pkt, TempBlk, wbs1,
                c1\<lparr>tempBlock := tb\<lparr>temp_blk := (temp_blk tb)\<lparr>blk_domainID := pkt_domainID pkt\<rparr>\<rparr>\<rparr>)))
      | Some r \<Rightarrow> Inr (pkt, r, wbs1, upd_stats (\<lambda>s. s\<lparr>cacheFills := cacheFills s + 1\<rparr>) c1)))"

definition fill_coherence :: "cache_conf \<Rightarrow> packet \<Rightarrow> cache_blk \<Rightarrow> cache_blk result" where
  "fill_coherence cf pkt b =
     bind_result (setCoherenceBits ReadableBit b) (\<lambda>b1.
     require (cmd pkt = InvalidateResp \<longrightarrow> \<not> hasSharers pkt) Assert
     (if hasSharers pkt then Inr b1
      else bind_result (setCoherenceBits WritableBit b1) (\<lambda>b2.
           if cacheResponding pkt
           then bind_result (setCoherenceBits DirtyBit b2) (\<lambda>b3. require (\<not> isReadOnly cf) Assert (Inr b3))
           else Inr b2)))"

definition finish_fill ::
  "cache_conf \<Rightarrow> 's tag_ops \<Rightarrow> cache_env \<Rightarrow> packet \<Rightarrow> addr \<Rightarrow> bool \<Rightarrow> blk_ref \<Rightarrow> 's cache \<Rightarrow> 's cache result" where
  "finish_fill cf ops env pkt a is_secure r c =
     bind_result (ref_blk c r) (\<lambda>b.
     require (blk_valid b \<and> blk_secure b = is_secure \<and> blk_domainID b = pkt_domainID pkt) Assert
     (bind_result (bc_regenerateBlkAddr ops r c) (\<lambda>ra.
      require (ra = a) Assert
      (bind_result (fill_coherence cf pkt b) (\<lambda>b1.
       bind_result (if cmd_isRead (cmd pkt)
                    then require (cmd_hasData (cmd pkt)) Assert
                         (bind_result (getSize pkt) (\<lambda>sz. require (sz = cc_blkSize cf) Assert
                         (updateBlockData cf ops r (Some pkt) (set_ref r b1 c))))
                    else Inr (set_ref r b1 c)) (\<lambda>c1.
       bind_result (ref_blk c1 r) (\<lambda>b2.
       bind_result (setWhenReady (clockEdge env (fillLatency cf) + ucast (headerDelay pkt) + ucast (payloadDelay pkt)) b2) (\<lambda>b3.
       Inr (set_ref r b3 c1)))))))))"

definition handleFill ::
  "cache_conf \<Rightarrow> 's tag_ops \<Rightarrow> cache_env \<Rightarrow> packet \<Rightarrow> nat option \<Rightarrow> packet list \<Rightarrow> bool \<Rightarrow> 's cache \<Rightarrow>
   (packet \<times> blk_ref \<times> packet list \<times> 's cache) result" where
  "handleFill cf ops env pkt blk wbs alloc c =
     require (cmd_isResponse (cmd pkt)) Assert
     (bind_result (getAddr pkt) (\<lambda>a. bind_result (isSecure pkt) (\<lambda>s.
      bind_result (getBlockAddr pkt (cc_blkSize cf)) (\<lambda>ba. require (a = ba) Assert
      (bind_result (wb_findMatch a s (pkt_domainID pkt) c) (\<lambda>w. require (w = None) Assert
      (bind_result (case blk of None \<Rightarrow> fill_target cf ops env pkt a s alloc wbs c
                    | Some h \<Rightarrow> Inr (pkt, TagBlk h, wbs, c)) (\<lambda>(pkt1, r, wbs1, c1).
       bind_result (finish_fill cf ops env pkt1 a s r c1) (\<lambda>c2. Inr (pkt1, r, wbs1, c2))))))))))"

section \<open>Responses\<close>

text \<open>
  The part of \<^verbatim>\<open>recvTimingResp\<close> that decides whether and where a response fills.
\<close>

definition allow_fill :: "mshr \<Rightarrow> packet \<Rightarrow> bool" where
  "allow_fill m pkt \<longleftrightarrow> tl_allocOnFill (targets m) \<and> \<not> tl_mayNotFill (targets m) \<and> \<not> isNoFillLower pkt"

definition fill_allocates :: "write_allocator option \<Rightarrow> mshr \<Rightarrow> packet \<Rightarrow> bool" where
  "fill_allocates wa m pkt =
     (case wa of Some w \<Rightarrow> if wasWholeLineWrite m then wa_allocate w else allow_fill m pkt | None \<Rightarrow> allow_fill m pkt)"

definition is_fill :: "mshr \<Rightarrow> packet \<Rightarrow> bool" where
  "is_fill m pkt \<longleftrightarrow> \<not> isForward m \<and> (cmd_isRead (cmd pkt) \<or> cmd pkt = UpgradeResp \<or> wasWholeLineWrite m)"

definition count_nofill :: "mshr \<Rightarrow> packet \<Rightarrow> cache_stats \<Rightarrow> cache_stats" where
  "count_nofill m pkt s =
     (let rw = (cmd_isRead (cmd pkt) \<or> cmd_isWrite (cmd pkt));
          s1 = (if tl_mayNotFill (targets m) \<and> rw then s\<lparr>nofillMshrServiced := nofillMshrServiced s + 1\<rparr> else s)
      in if \<not> tl_mayNotFill (targets m) \<and> rw \<and> isNoFillLower pkt
         then s1\<lparr>noFillLowerMshr := noFillLowerMshr s1 + 1\<rparr> else s1)"

definition resp_fill ::
  "cache_conf \<Rightarrow> 's tag_ops \<Rightarrow> cache_env \<Rightarrow> mshr \<Rightarrow> packet \<Rightarrow> packet list \<Rightarrow> 's cache \<Rightarrow>
   (packet \<times> blk_ref option \<times> packet list \<times> 's cache) result" where
  "resp_fill cf ops env m pkt wbs c =
     require (\<not> wasWholeLineWrite m \<or> cmd_isInvalidate (cmd pkt)) Assert
     (bind_result (getAddr pkt) (\<lambda>a. bind_result (isSecure pkt) (\<lambda>s.
      bind_result (to_findBlock ops a s (pkt_domainID pkt) (c_tags c)) (\<lambda>blk.
      if is_fill m pkt \<and> \<not> cmd_isError (cmd pkt)
      then require (allow_fill m pkt \<or> \<not> (cacheLevel cf = 2 \<and> isNoFillLower pkt)) Panic
           (bind_result (handleFill cf ops env pkt blk wbs (fill_allocates (writeAllocator c) m pkt)
              (if allow_fill m pkt then c else upd_stats (count_nofill m pkt) c)) (\<lambda>(pkt1, r, wbs1, c1).
            Inr (pkt1, Some r, wbs1, c1)))
      else Inr (pkt, map_option TagBlk blk, wbs, c)))))"

text \<open>The end of \<^verbatim>\<open>recvTimingResp\<close>: a temporary block that is still valid is evicted at once.\<close>

definition drop_temp ::
  "cache_conf \<Rightarrow> 's tag_ops \<Rightarrow> cache_env \<Rightarrow> blk_ref option \<Rightarrow> packet list \<times> 's cache \<Rightarrow> (packet list \<times> 's cache) result" where
  "drop_temp cf ops env r wc =
     (if r = Some TempBlk \<and> blk_valid (temp_blk (tempBlock (snd wc)))
      then evictBlock cf ops env True TempBlk wc else Inr wc)"

text \<open>An acknowledgement from the cache above: a demand access or a safe-history prefetch found the
  block outstanding here, and its register may fill after all.\<close>

definition ack_mshr :: "cache_conf \<Rightarrow> bool \<Rightarrow> nat \<Rightarrow> 's cache \<Rightarrow> 's cache" where
  "ack_mshr cf is_demand i c =
     (let c1 = upd_stats (\<lambda>s. s\<lparr>pfAckHit := pfAckHit s + 1\<rparr>) c;
          (cleared, m) = mshr_updateMayNotFill False (entry_of (mshrQueue c) i);
          c2 = c1\<lparr>mshrQueue := set_entry i m (mshrQueue c1)\<rparr>
      in if \<not> pfAckEn cf then c1
         else if \<not> cleared then c2
         else if is_demand then upd_stats (\<lambda>s. s\<lparr>demandAckHitNofill := demandAckHitNofill s + 1\<rparr>) c2
         else upd_stats (\<lambda>s. s\<lparr>shbMshrCanFill := shbMshrCanFill s + 1\<rparr>) c2)"

definition recvPfAck :: "cache_conf \<Rightarrow> packet \<Rightarrow> 's cache \<Rightarrow> 's cache result" where
  "recvPfAck cf pkt c =
     (let is_demand = isDemandFetch pkt
      in bind_result (getAddr pkt) (\<lambda>a. bind_result (isSecure pkt) (\<lambda>s.
         bind_result (getBlockAddr pkt (cc_blkSize cf)) (\<lambda>ba. require (is_demand \<or> ba = a) Assert
         (bind_result (mq_findMatch a s (pkt_domainID pkt) c) (\<lambda>h.
          case h of None \<Rightarrow> Inr c | Some i \<Rightarrow> Inr (ack_mshr cf is_demand i c)))))))"

end
