(* ===== verification/Cache_Access.thy ===== *)
theory Cache_Access
  imports Base_Cache
begin

text \<open>
  The request path of the classic cache (\<^verbatim>\<open>mem/cache/base.cc\<close>, \<^verbatim>\<open>mem/cache/cache.cc\<close>): latencies,
  the satisfaction of a request from a block, the access to the cache with its treatment of write-backs
  and no-fill packets, hits, misses, and the reception of a request.  What a cache sends or tells to other
  objects is returned as a list of events.  Counters that are only statistics are left out.
\<close>

datatype cache_event =
    TimingResp packet tick
  | SnoopResp packet tick
  | TimingReq packet
  | PfAck packet
  | DirectNotify packet
  | NotifySHB packet

section \<open>Latencies\<close>

definition ticksToCycles :: "cache_env \<Rightarrow> tick \<Rightarrow> (64 word) result" where
  "ticksToCycles env t = divCeil t (clockPeriod env)"

definition calculateTagOnlyLatency :: "cache_env \<Rightarrow> u32 \<Rightarrow> 64 word \<Rightarrow> (64 word) result" where
  "calculateTagOnlyLatency env delay lookup_lat =
     bind_result (ticksToCycles env (ucast delay)) (\<lambda>n. Inr (n + lookup_lat))"

definition calculateAccessLatency ::
  "cache_conf \<Rightarrow> cache_env \<Rightarrow> cache_blk option \<Rightarrow> u32 \<Rightarrow> 64 word \<Rightarrow> (64 word) result" where
  "calculateAccessLatency cf env blk delay lookup_lat =
     (case blk of None \<Rightarrow> calculateTagOnlyLatency env delay lookup_lat
      | Some b \<Rightarrow>
          bind_result (ticksToCycles env (ucast delay)) (\<lambda>n.
          let lat = (if cc_sequentialAccess cf then n + lookup_lat + dataLatency cf
                     else n + max lookup_lat (dataLatency cf));
              t = ce_now env + ucast delay
          in bind_result (getWhenReady b) (\<lambda>when_ready.
             if when_ready > t
             then bind_result (ticksToCycles env (when_ready - t)) (\<lambda>w. Inr (if w > lat then lat + w else lat))
             else Inr lat)))"

section \<open>Satisfying a request\<close>

text \<open>The bytes of a value in the memory of a little-endian host.\<close>

definition le_bytes :: "nat \<Rightarrow> 64 word \<Rightarrow> u8 list" where
  "le_bytes n x = map (\<lambda>i. ucast (drop_bit (8 * i) x)) [0..<n]"

definition req_isCondSwap :: "request \<Rightarrow> bool" where
  "req_isCondSwap r = flag_isSet (req_flags r) MEM_SWAP_COND"

definition swap_allowed :: "packet \<Rightarrow> u8 list \<Rightarrow> bool result" where
  "swap_allowed pkt mem =
     (if req_isCondSwap (pkt_req pkt)
      then bind_result (getSize pkt) (\<lambda>sz.
           if sz = 8 then bind_result (getExtraData (pkt_req pkt)) (\<lambda>x. Inr (le_bytes 8 x = take 8 mem))
           else if sz = 4 then bind_result (getExtraData (pkt_req pkt)) (\<lambda>x. Inr (le_bytes 4 x = take 4 mem))
           else Inl Panic)
      else Inr True)"

definition cmpAndSwap :: "cache_conf \<Rightarrow> cache_env \<Rightarrow> packet \<Rightarrow> cache_blk \<Rightarrow> (packet \<times> cache_blk) result" where
  "cmpAndSwap cf env pkt b =
     require (cmd_isRequest (cmd pkt)) Assert
     (bind_result (getOffset pkt (cc_blkSize cf)) (\<lambda>off. bind_result (getSize pkt) (\<lambda>sz.
      require (sz \<le> 8) Assert
      (bind_result (writeData pkt (take 8 (fresh_mem env @ replicate 8 0)) 0) (\<lambda>overwrite_val.
       bind_result (setData False (blk_data b) (unat off) pkt) (\<lambda>pkt1.
       bind_result (swap_allowed pkt1 (drop (unat off) (blk_data b))) (\<lambda>overwrite_mem.
       if overwrite_mem
       then bind_result (memcpy (blk_data b) (unat off) overwrite_val 0 (unat sz)) (\<lambda>d.
            bind_result (setCoherenceBits DirtyBit (b\<lparr>blk_data := d\<rparr>)) (\<lambda>b1. Inr (pkt1, b1)))
       else Inr (pkt1, b))))))))"

definition atomicOp ::
  "cache_env \<Rightarrow> 's tags \<Rightarrow> packet \<Rightarrow> cache_blk \<Rightarrow> (packet \<times> cache_blk) result" where
  "atomicOp env t pkt b =
     bind_result (getAddr pkt) (\<lambda>a. bind_result (getSize pkt) (\<lambda>sz.
     let off = unat (extractBlkOffset t a)
     in bind_result (setData False (blk_data b) off pkt) (\<lambda>pkt1.
        bind_result (memcpy (blk_data b) off (amo env (pkt_req pkt) (take (unat sz) (drop off (blk_data b)))) 0 (unat sz)) (\<lambda>d.
        bind_result (setCoherenceBits DirtyBit (b\<lparr>blk_data := d\<rparr>)) (\<lambda>b1. Inr (pkt1, b1))))))"

definition add_bits :: "u32 \<Rightarrow> blk_ref \<Rightarrow> 's cache \<Rightarrow> 's cache result" where
  "add_bits bits r c =
     bind_result (ref_blk c r) (\<lambda>b. bind_result (setCoherenceBits bits b) (\<lambda>b1. Inr (set_ref r b1 c)))"

definition satisfy_write ::
  "cache_conf \<Rightarrow> 's tag_ops \<Rightarrow> packet \<Rightarrow> blk_ref \<Rightarrow> cache_blk \<Rightarrow> 's cache \<Rightarrow> (packet \<times> 's cache) result" where
  "satisfy_write cf ops pkt r b c =
     require (blk_isSet b WritableBit) Assert
     (bind_result (checkWrite pkt b) (\<lambda>(okay, b1, req).
      let pkt1 = pkt\<lparr>pkt_req := req\<rparr>; c1 = set_ref r b1 c
      in bind_result (if okay then updateBlockData cf ops r (Some pkt1) c1 else Inr c1) (\<lambda>c2.
         bind_result (add_bits DirtyBit r c2) (\<lambda>c3. Inr (pkt1, c3)))))"

definition satisfy_read :: "cache_conf \<Rightarrow> packet \<Rightarrow> cache_blk \<Rightarrow> (packet \<times> cache_blk) result" where
  "satisfy_read cf pkt b =
     bind_result (if cmd_isLLSC (cmd pkt) then trackLoadLocked pkt b else Inr b) (\<lambda>b1.
     require (hasRespData pkt) Assert
     (bind_result (setDataFromBlock (blk_data b1) (cc_blkSize cf) pkt) (\<lambda>pkt1. Inr (pkt1, b1))))"

definition satisfy_upgrade :: "packet \<Rightarrow> cache_blk \<Rightarrow> (packet \<times> cache_blk) result" where
  "satisfy_upgrade pkt b =
     require (\<not> hasSharers pkt) Assert
     (if blk_isSet b DirtyBit
      then bind_result (setCacheResponding pkt) (\<lambda>pkt1. Inr (pkt1, clearCoherenceBits DirtyBit b))
      else Inr (pkt, b))"

definition base_satisfyRequest ::
  "cache_conf \<Rightarrow> 's tag_ops \<Rightarrow> cache_env \<Rightarrow> packet \<Rightarrow> blk_ref \<Rightarrow> 's cache \<Rightarrow> (packet \<times> 's cache) result" where
  "base_satisfyRequest cf ops env pkt r c =
     require (cmd_isRequest (cmd pkt)) Assert
     (bind_result (ref_blk c r) (\<lambda>b. require (blk_valid b) Assert
     (bind_result (getOffset pkt (cc_blkSize cf)) (\<lambda>off. bind_result (getSize pkt) (\<lambda>sz.
      require (off + ucast sz \<le> ucast (cc_blkSize cf)) Assert
      (let put = (\<lambda>(p, b1). Inr (p, set_ref r b1 c))
       in if cmd pkt = SwapReq
          then bind_result (if req_isAtomic (pkt_req pkt) then atomicOp env (c_tags c) pkt b else cmpAndSwap cf env pkt b) put
          else if cmd_isWrite (cmd pkt) then satisfy_write cf ops pkt r b c
          else if cmd_isRead (cmd pkt) then bind_result (satisfy_read cf pkt b) put
          else if cmd_isUpgrade (cmd pkt) then bind_result (satisfy_upgrade pkt b) put
          else if cmd_isClean (cmd pkt) then put (pkt, clearCoherenceBits DirtyBit b)
          else require (cmd_isInvalidate (cmd pkt)) Assert
               (bind_result (invalidateBlock cf ops r c) (\<lambda>c1. Inr (pkt, c1)))))))))"

text \<open>What a read from a cache above is told about the state of the line.\<close>

definition pass_state ::
  "cache_conf \<Rightarrow> bool \<Rightarrow> bool \<Rightarrow> packet \<Rightarrow> cache_blk \<Rightarrow> (packet \<times> cache_blk) result" where
  "pass_state cf deferred_response pending_downgrade pkt b =
     bind_result (needsWritable pkt) (\<lambda>nw.
     if nw
     then require (cmd pkt = ReadExReq \<or> cmd pkt = SCUpgradeFailReq) Assert (satisfy_upgrade pkt b)
     else if blk_isSet b WritableBit \<and> \<not> pending_downgrade \<and> \<not> hasSharers pkt \<and> cmd pkt \<noteq> ReadCleanReq
     then if blk_isSet b DirtyBit
          then if \<not> deferred_response
               then bind_result (setCacheResponding pkt) (\<lambda>pkt1.
                    Inr (pkt1, if cacheLevel cf > 1 then clearCoherenceBits DirtyBit b else b))
               else Inr (setHasSharers pkt, b)
          else Inr (pkt, b)
     else Inr (setHasSharers pkt, b))"

definition satisfyRequest ::
  "cache_conf \<Rightarrow> 's tag_ops \<Rightarrow> cache_env \<Rightarrow> bool \<Rightarrow> bool \<Rightarrow> packet \<Rightarrow> blk_ref \<Rightarrow> 's cache \<Rightarrow> (packet \<times> 's cache) result" where
  "satisfyRequest cf ops env deferred_response pending_downgrade pkt r c =
     bind_result (base_satisfyRequest cf ops env pkt r c) (\<lambda>(pkt1, c1).
     if cmd_isRead (cmd pkt1) \<and> cmd_fromCache (cmd pkt1)
     then bind_result (getSize pkt1) (\<lambda>sz. require (sz = cc_blkSize cf) Assert
          (bind_result (ref_blk c1 r) (\<lambda>b.
           bind_result (pass_state cf deferred_response pending_downgrade pkt1 b) (\<lambda>(pkt2, b1).
           Inr (pkt2, set_ref r b1 c1)))))
     else Inr (pkt1, c1))"

definition maintainClusivity ::
  "cache_conf \<Rightarrow> 's tag_ops \<Rightarrow> bool \<Rightarrow> blk_ref option \<Rightarrow> 's cache \<Rightarrow> 's cache result" where
  "maintainClusivity cf ops from_cache blk c =
     (case blk of None \<Rightarrow> Inr c
      | Some r \<Rightarrow> bind_result (ref_blk c r) (\<lambda>b.
          if from_cache \<and> blk_valid b \<and> \<not> blk_isSet b DirtyBit \<and> \<not> mostly_incl cf
          then invalidateBlock cf ops r c else Inr c))"

section \<open>Evictions from above\<close>

definition wb_markInService :: "nat \<Rightarrow> 's cache \<Rightarrow> 's cache result" where
  "wb_markInService h c =
     bind_result (wq_markInService h (writeBuffer c)) (\<lambda>q.
     let c1 = c\<lparr>writeBuffer := q\<rparr>
     in Inr (if queue_isFull (writeBuffer c) \<and> \<not> queue_isFull q then clearBlocked Blocked_NoWBBuffers c1 else c1))"

definition clearBlockCached :: "packet \<Rightarrow> packet" where "clearBlockCached = pkt_clearFlag BLOCK_CACHED"

text \<open>An eviction meets a write-back of this cache in the write buffer: a clean one is absorbed, a dirty one
  replaces it.  The flag says whether the packet is absorbed.\<close>

definition access_eviction :: "packet \<Rightarrow> 's cache \<Rightarrow> (bool \<times> 's cache) result" where
  "access_eviction pkt c =
     (if \<not> cmd_isEviction (cmd pkt) then Inr (False, c)
      else bind_result (getAddr pkt) (\<lambda>a. bind_result (isSecure pkt) (\<lambda>s.
           bind_result (wb_findMatch a s (pkt_domainID pkt) c) (\<lambda>w.
           case w of None \<Rightarrow> Inr (False, c)
           | Some h \<Rightarrow>
               let e = entry_of (writeBuffer c) h
               in require (wqe_getNumTargets e = 1) Assert
                  (bind_result (wqe_getTarget e) (\<lambda>t. require (cmd_isWriteback (cmd (qt_pkt t))) Assert
                   (if isCleanEviction pkt
                    then Inr (True, c\<lparr>writeBuffer := set_entry h
                       (e\<lparr>wq_targets := [t\<lparr>qt_pkt := clearBlockCached (qt_pkt t)\<rparr>]\<rparr>) (writeBuffer c)\<rparr>)
                    else require (cmd pkt = WritebackDirty) Assert
                         (bind_result (wb_markInService h c) (\<lambda>c1. Inr (False, c1))))))))))"

section \<open>The access to the cache\<close>

record 's access_res =
  ar_ok :: bool
  ar_blk :: "blk_ref option"
  ar_lat :: "64 word"
  ar_pkt :: packet
  ar_wbs :: "packet list"
  ar_events :: "cache_event list"
  ar_cache :: "'s cache"

definition count_cmd :: "cache_conf \<Rightarrow> packet \<Rightarrow> 'a result \<Rightarrow> 'a result" where
  "count_cmd cf pkt = require (unat (req_requestorId (pkt_req pkt)) < maxRequestors cf) Assert"

text \<open>The block that a write-back or clean write without a block in the cache goes to; a no-fill packet
  gets none.\<close>

definition access_block ::
  "cache_conf \<Rightarrow> 's tag_ops \<Rightarrow> cache_env \<Rightarrow> packet \<Rightarrow> blk_ref option \<Rightarrow> packet list \<Rightarrow> 's cache \<Rightarrow>
   (blk_ref option \<times> packet list \<times> 's cache) result" where
  "access_block cf ops env pkt blk wbs c =
     (case blk of Some r \<Rightarrow> Inr (Some r, wbs, c)
      | None \<Rightarrow>
          bind_result (if nofillEn cf \<and> isMayNotFill pkt then Inr (None, wbs, c)
                       else allocateBlock cf ops env pkt wbs c) (\<lambda>(blk1, wbs1, c1).
          case blk1 of None \<Rightarrow> Inr (None, wbs1, c1)
          | Some r \<Rightarrow> bind_result (add_bits ReadableBit r c1) (\<lambda>c2. Inr (Some r, wbs1, c2))))"

definition land_data ::
  "cache_conf \<Rightarrow> 's tag_ops \<Rightarrow> cache_env \<Rightarrow> 64 word \<Rightarrow> packet \<Rightarrow> blk_ref \<Rightarrow> 's cache \<Rightarrow> 's cache result" where
  "land_data cf ops env tag_latency pkt r c =
     require (\<not> cmd_needsResponse (cmd pkt)) Assert
     (bind_result (updateBlockData cf ops r (Some pkt) c) (\<lambda>c1.
      count_cmd cf pkt
      (bind_result (ref_blk c1 r) (\<lambda>b.
       bind_result (setWhenReady (clockEdge env (fillLatency cf) + ucast (headerDelay pkt) +
          max (clockPeriod env * tag_latency) (ucast (payloadDelay pkt))) b) (\<lambda>b1. Inr (set_ref r b1 c1))))))"

definition access_writeback ::
  "cache_conf \<Rightarrow> 's tag_ops \<Rightarrow> cache_env \<Rightarrow> 64 word \<Rightarrow> packet \<Rightarrow> blk_ref option \<Rightarrow> 's cache \<Rightarrow>
   (bool \<times> blk_ref option \<times> packet list \<times> 's cache) result" where
  "access_writeback cf ops env tag_latency pkt blk c =
     bind_result (getSize pkt) (\<lambda>sz. require (cc_blkSize cf = sz) Assert
     (bind_result (if cmd pkt = WritebackClean
                   then bind_result (getAddr pkt) (\<lambda>a. bind_result (isSecure pkt) (\<lambda>s.
                        bind_result (mq_findMatch a s (pkt_domainID pkt) c) (\<lambda>m. Inr (m \<noteq> None))))
                   else Inr False) (\<lambda>drop_it.
      if drop_it then Inr (True, blk, [], c)
      else bind_result (access_block cf ops env pkt blk [] c) (\<lambda>(blk1, wbs, c1).
           case blk1 of None \<Rightarrow> count_cmd cf pkt (Inr (False, None, wbs, c1))
           | Some r \<Rightarrow>
               bind_result (if cmd pkt = WritebackDirty then add_bits DirtyBit r c1 else Inr c1) (\<lambda>c2.
               bind_result (if \<not> hasSharers pkt then add_bits WritableBit r c2 else Inr c2) (\<lambda>c3.
               bind_result (land_data cf ops env tag_latency pkt r c3) (\<lambda>c4. Inr (True, Some r, wbs, c4))))))))"

definition access_writeclean ::
  "cache_conf \<Rightarrow> 's tag_ops \<Rightarrow> cache_env \<Rightarrow> 64 word \<Rightarrow> packet \<Rightarrow> blk_ref option \<Rightarrow> 's cache \<Rightarrow>
   (bool \<times> blk_ref option \<times> packet list \<times> 's cache) result" where
  "access_writeclean cf ops env tag_latency pkt blk c =
     bind_result (getSize pkt) (\<lambda>sz. require (cc_blkSize cf = sz) Assert
     (if blk = None \<and> writeThrough pkt then Inr (False, None, [], c)
      else bind_result (access_block cf ops env pkt blk [] c) (\<lambda>(blk1, wbs, c1).
           case blk1 of None \<Rightarrow> count_cmd cf pkt (Inr (False, None, wbs, c1))
           | Some r \<Rightarrow>
               bind_result (if \<not> writeThrough pkt then add_bits DirtyBit r c1 else Inr c1) (\<lambda>c2.
               bind_result (land_data cf ops env tag_latency pkt r c2) (\<lambda>c3.
               Inr (\<not> writeThrough pkt, Some r, wbs, c3))))))"

definition access_request ::
  "cache_conf \<Rightarrow> 's tag_ops \<Rightarrow> cache_env \<Rightarrow> 64 word \<Rightarrow> packet \<Rightarrow> blk_ref option \<Rightarrow> 's cache \<Rightarrow>
   (bool \<times> 64 word \<times> packet \<times> 's cache) result" where
  "access_request cf ops env tag_latency pkt blk c =
     bind_result (case blk of None \<Rightarrow> Inr None | Some r \<Rightarrow> bind_result (ref_blk c r) (\<lambda>b. Inr (Some (r, b)))) (\<lambda>rb.
     bind_result (case rb of None \<Rightarrow> Inr False
                  | Some (r, b) \<Rightarrow> bind_result (needsWritable pkt) (\<lambda>nw.
                      Inr (if nw then blk_isSet b WritableBit else blk_isSet b ReadableBit))) (\<lambda>hit.
     count_cmd cf pkt
     (case rb of
        Some (r, b) \<Rightarrow>
          if hit
          then bind_result (if cmd_isRead (cmd pkt) then calculateAccessLatency cf env (Some b) (headerDelay pkt) tag_latency
                            else calculateTagOnlyLatency env (headerDelay pkt) tag_latency) (\<lambda>lat.
               bind_result (satisfyRequest cf ops env False False pkt r c) (\<lambda>(pkt1, c1).
               bind_result (maintainClusivity cf ops (cmd_fromCache (cmd pkt1)) (Some r) c1) (\<lambda>c2.
               Inr (True, lat, pkt1, c2))))
          else bind_result (calculateAccessLatency cf env (Some b) (headerDelay pkt) tag_latency) (\<lambda>lat.
               Inr (False, lat, pkt, c))
      | None \<Rightarrow>
          bind_result (calculateAccessLatency cf env None (headerDelay pkt) tag_latency) (\<lambda>lat.
          if cmd_isLLSC (cmd pkt) \<and> cmd_isWrite (cmd pkt)
          then Inr (True, lat, pkt\<lparr>pkt_req := setExtraData 0 (pkt_req pkt)\<rparr>, c)
          else Inr (False, lat, pkt, c)))))"

definition access_notify :: "cache_conf \<Rightarrow> packet \<Rightarrow> cache_event list" where
  "access_notify cf pkt =
     (if pfInsertStLd cf \<and> cc_prefetcher cf \<and> (cmd_isWrite (cmd pkt) \<or> cmd_isRead (cmd pkt)) then [DirectNotify pkt] else []) @
     (if shbInsertSt cf \<and> cc_prefetcher cf \<and> cmd_isWrite (cmd pkt) then [NotifySHB pkt] else [])"

text \<open>The part of \<^verbatim>\<open>access\<close> after the lookup, the maintenance requests and the absorbed evictions.\<close>

definition access_found ::
  "cache_conf \<Rightarrow> 's tag_ops \<Rightarrow> cache_env \<Rightarrow> 64 word \<Rightarrow> packet \<Rightarrow> blk_ref option \<Rightarrow> 's cache \<Rightarrow> 's access_res result" where
  "access_found cf ops env tag_latency pkt blk c =
     bind_result (calculateTagOnlyLatency env (headerDelay pkt) tag_latency) (\<lambda>lat0.
     let evs = access_notify cf pkt
     in if cmd_isWriteback (cmd pkt)
        then bind_result (access_writeback cf ops env tag_latency pkt blk c) (\<lambda>(okay, blk1, wbs, c1).
             Inr \<lparr>ar_ok = okay, ar_blk = blk1, ar_lat = lat0, ar_pkt = pkt, ar_wbs = wbs, ar_events = evs, ar_cache = c1\<rparr>)
        else if cmd pkt = CleanEvict
        then Inr \<lparr>ar_ok = (blk \<noteq> None), ar_blk = blk, ar_lat = lat0, ar_pkt = pkt, ar_wbs = [], ar_events = evs, ar_cache = c\<rparr>
        else if cmd pkt = WriteClean
        then bind_result (access_writeclean cf ops env tag_latency pkt blk c) (\<lambda>(okay, blk1, wbs, c1).
             Inr \<lparr>ar_ok = okay, ar_blk = blk1, ar_lat = lat0, ar_pkt = pkt, ar_wbs = wbs, ar_events = evs, ar_cache = c1\<rparr>)
        else bind_result (access_request cf ops env tag_latency pkt blk c) (\<lambda>(okay, lat, pkt1, c1).
             Inr \<lparr>ar_ok = okay, ar_blk = blk, ar_lat = lat, ar_pkt = pkt1, ar_wbs = [], ar_events = evs, ar_cache = c1\<rparr>))"

definition base_access ::
  "cache_conf \<Rightarrow> 's tag_ops \<Rightarrow> cache_env \<Rightarrow> packet \<Rightarrow> 's cache \<Rightarrow> 's access_res result" where
  "base_access cf ops env pkt c =
     require (cmd_isRequest (cmd pkt) \<and> \<not> (isReadOnly cf \<and> cmd_isWrite (cmd pkt))) Assert
     (bind_result (getAddr pkt) (\<lambda>a. bind_result (isSecure pkt) (\<lambda>s.
      bind_result (to_accessBlock ops a s (pkt_domainID pkt) (isMayNotFill pkt) (c_tags c)) (\<lambda>(h, tag_latency, t).
      let c1 = c\<lparr>c_tags := t\<rparr>; blk = map_option TagBlk h;
          stop = (\<lambda>okay c2. bind_result (calculateTagOnlyLatency env (headerDelay pkt) tag_latency) (\<lambda>lat.
            Inr \<lparr>ar_ok = okay, ar_blk = blk, ar_lat = lat, ar_pkt = pkt, ar_wbs = [], ar_events = [], ar_cache = c2\<rparr>))
      in require (cmd pkt = HardPFReq \<longrightarrow> \<not> isMayNotFill pkt) Assert
         (if req_isCacheMaintenance (pkt_req pkt) then stop False c1
          else bind_result (access_eviction pkt c1) (\<lambda>(absorbed, c2).
               if absorbed then stop True c2 else access_found cf ops env tag_latency pkt blk c2))))))"

definition access ::
  "cache_conf \<Rightarrow> 's tag_ops \<Rightarrow> cache_env \<Rightarrow> packet \<Rightarrow> 's cache \<Rightarrow> 's access_res result" where
  "access cf ops env pkt c =
     (if req_isUncacheable (pkt_req pkt)
      then require (cmd_isRequest (cmd pkt) \<and> \<not> (isReadOnly cf \<and> cmd_isWrite (cmd pkt))) Assert
           (bind_result (getAddr pkt) (\<lambda>a. bind_result (isSecure pkt) (\<lambda>s.
            bind_result (to_findBlock ops a s (pkt_domainID pkt) (c_tags c)) (\<lambda>h.
            bind_result (case h of None \<Rightarrow> Inr ([], c)
                         | Some i \<Rightarrow> bind_result (get_blk (c_tags c) i) (\<lambda>b.
                             if blk_valid b then evictBlock cf ops env False (TagBlk i) ([], c) else Inr ([], c))) (\<lambda>(wbs, c1).
            Inr \<lparr>ar_ok = False, ar_blk = None, ar_lat = cc_lookupLatency cf, ar_pkt = pkt, ar_wbs = wbs,
                 ar_events = [], ar_cache = c1\<rparr>)))))
      else base_access cf ops env pkt c)"

end
