(* ===== verification/Cache_Request.thy ===== *)
theory Cache_Request
  imports Cache_Access
begin

text \<open>
  The reception of a request (\<^verbatim>\<open>mem/cache/base.cc\<close>, \<^verbatim>\<open>mem/cache/cache.cc\<close>): the write-backs that an
  access causes, the response of a hit, the register or write-buffer entry of a miss, the acknowledgement
  that a demand access sends when it meets a no-fill register, and software prefetches.
\<close>

section \<open>Write-backs\<close>

definition isCachedAbove :: "cache_conf \<Rightarrow> cache_env \<Rightarrow> packet \<Rightarrow> bool result" where
  "isCachedAbove cf env pkt =
     (if \<not> forwardSnoops cf then Inr False
      else bind_result (copy_packet pkt True False []) (\<lambda>q.
           require (cmd_isEviction (cmd pkt) \<or> cmd pkt = WriteClean) Assert
           (let snoop_pkt = snoop_above env ((setExpressSnoop q)\<lparr>senderState := []\<rparr>)
            in require (\<not> cacheResponding snoop_pkt) Assert (Inr (isBlockCached snoop_pkt)))))"

definition doWriteback :: "cache_conf \<Rightarrow> cache_env \<Rightarrow> tick \<Rightarrow> packet \<Rightarrow> 's cache \<Rightarrow> 's cache result" where
  "doWriteback cf env forward_time wbPkt c =
     bind_result (isCachedAbove cf env wbPkt) (\<lambda>cached.
     if cached
     then if cmd wbPkt = CleanEvict then Inr c
          else if cmd wbPkt = WritebackClean then require (writebackClean cf) Assert (Inr c)
          else require (cmd wbPkt = WritebackDirty \<or> cmd wbPkt = WriteClean) Assert
               (allocateWriteBuffer cf env (setBlockCached wbPkt) forward_time c)
     else allocateWriteBuffer cf env wbPkt forward_time c)"

definition doWritebacks :: "cache_conf \<Rightarrow> cache_env \<Rightarrow> packet list \<Rightarrow> tick \<Rightarrow> 's cache \<Rightarrow> 's cache result" where
  "doWritebacks cf env wbs forward_time c = fold_result (doWriteback cf env forward_time) wbs c"

section \<open>Hits\<close>

definition promoteWholeLineWrites :: "cache_conf \<Rightarrow> packet \<Rightarrow> packet result" where
  "promoteWholeLineWrites cf pkt =
     (if cmd pkt = WriteReq
      then bind_result (getSize pkt) (\<lambda>sz. bind_result (getOffset pkt (cc_blkSize cf)) (\<lambda>off.
           Inr (if sz = cc_blkSize cf \<and> off = 0 \<and> \<not> isMaskedWrite pkt then pkt\<lparr>cmd := WriteLineReq\<rparr> else pkt)))
      else Inr pkt)"

definition handleTimingReqHit :: "cache_conf \<Rightarrow> cache_env \<Rightarrow> packet \<Rightarrow> tick \<Rightarrow> cache_event list result" where
  "handleTimingReqHit cf env pkt request_time =
     require (\<not> req_isUncacheable (pkt_req pkt)) Assert
     (if cmd_needsResponse (cmd pkt)
      then require (headerDelay pkt = 0 \<and> payloadDelay pkt = 0) Assert
           (bind_result (makeResponse pkt) (\<lambda>p.
            Inr [TimingResp p (request_time + clockPeriod env * responseLatency cf)]))
      else Inr [])"

section \<open>Misses\<close>

definition update_write_mode :: "cache_conf \<Rightarrow> packet \<Rightarrow> 's cache \<Rightarrow> 's cache result" where
  "update_write_mode cf pkt c =
     (case writeAllocator c of None \<Rightarrow> Inr c
      | Some w \<Rightarrow>
          if cmd_isWrite (cmd pkt) \<and> \<not> req_isUncacheable (pkt_req pkt)
          then bind_result (getAddr pkt) (\<lambda>a. bind_result (getSize pkt) (\<lambda>sz.
               bind_result (getBlockAddr pkt (cc_blkSize cf)) (\<lambda>ba.
               Inr (c\<lparr>writeAllocator := Some (updateMode a sz ba w)\<rparr>))))
          else Inr c)"

text \<open>A request joins an outstanding register; a demand access that may fill and meets a no-fill register
  acknowledges this to the level below.\<close>

definition miss_on_mshr ::
  "cache_conf \<Rightarrow> cache_env \<Rightarrow> packet \<Rightarrow> nat \<Rightarrow> tick \<Rightarrow> 's cache \<Rightarrow> (cache_event list \<times> up_call list \<times> 's cache) result" where
  "miss_on_mshr cf env pkt h forward_time c =
     require (\<not> cmd_isWriteback (cmd pkt)) Assert
     (if cmd pkt = CleanEvict then Inr ([], [], c)
      else if cmd pkt = WriteClean
      then bind_result (allocateWriteBuffer cf env pkt forward_time c) (\<lambda>c1. Inr ([], [], c1))
      else count_cmd cf pkt
           (let m = entry_of (mshrQueue c) h;
                evs = (if isDemandFetch pkt \<and> tl_mayNotFill (targets m) \<and> \<not> isMayNotFill pkt \<and> cacheLevel cf = 1
                       then [PfAck pkt] else [])
            in bind_result (allocateTarget (is_mshr env) (fresh_mem env) (ce_now env) pkt forward_time (order c)
                  (allocOnFill cf (cmd pkt)) m) (\<lambda>(m1, calls).
               let c1 = c\<lparr>mshrQueue := set_entry h m1 (mshrQueue c), order := order c + 1\<rparr>
               in Inr (evs, calls, if getNumTargets m1 = numTarget cf
                                   then setBlocked Blocked_NoTargets (c1\<lparr>noTargetMSHR := Some h\<rparr>) else c1))))"

definition miss_new ::
  "cache_conf \<Rightarrow> cache_env \<Rightarrow> packet \<Rightarrow> blk_ref option \<Rightarrow> tick \<Rightarrow> 's cache \<Rightarrow> (cache_event list \<times> up_call list \<times> 's cache) result" where
  "miss_new cf env pkt blk forward_time c =
     count_cmd cf pkt
     (if cmd_isEviction (cmd pkt) \<or> cmd pkt = WriteClean
      then bind_result (allocateWriteBuffer cf env pkt forward_time c) (\<lambda>c1. Inr ([], [], c1))
      else bind_result (case blk of None \<Rightarrow> Inr c
                        | Some r \<Rightarrow> bind_result (ref_blk c r) (\<lambda>b.
                            if blk_valid b
                            then bind_result (needsWritable pkt) (\<lambda>nw.
                                 require (nw \<and> \<not> blk_isSet b WritableBit \<or> req_isCacheMaintenance (pkt_req pkt)) Assert
                                 (Inr (set_ref r (clearCoherenceBits ReadableBit b) c)))
                            else Inr c)) (\<lambda>c1.
           bind_result (allocateMissBuffer cf env pkt forward_time (\<not> nofillEn cf) c1) (\<lambda>(h, calls, c2).
           let no_fill = (isMayNotFill pkt \<and> (cmd_isRead (cmd pkt) \<or> cmd_isWrite (cmd pkt)))
           in require (no_fill \<longrightarrow> (nofillEn cf \<longrightarrow> tl_mayNotFill (targets (entry_of (mshrQueue c2) h))) \<and> isDemandFetch pkt) Panic
              (Inr (if pfInsertMiss cf \<and> cc_prefetcher cf \<and> (cmd_isWrite (cmd pkt) \<or> cmd_isRead (cmd pkt))
                    then [DirectNotify pkt] else [], calls, c2)))))"

definition base_handleTimingReqMiss ::
  "cache_conf \<Rightarrow> cache_env \<Rightarrow> packet \<Rightarrow> nat option \<Rightarrow> blk_ref option \<Rightarrow> tick \<Rightarrow> 's cache \<Rightarrow>
   (cache_event list \<times> up_call list \<times> 's cache) result" where
  "base_handleTimingReqMiss cf env pkt mshr blk forward_time c =
     bind_result (update_write_mode cf pkt c) (\<lambda>c1.
     case mshr of Some h \<Rightarrow> miss_on_mshr cf env pkt h forward_time c1
     | None \<Rightarrow> miss_new cf env pkt blk forward_time c1)"

text \<open>The packet that takes the place of a software prefetch, which is answered at once.\<close>

definition new_soft_prefetch :: "cache_env \<Rightarrow> packet \<Rightarrow> packet result" where
  "new_soft_prefetch env pkt =
     bind_result (getPaddr (pkt_req pkt)) (\<lambda>pa. bind_result (req_getSize (pkt_req pkt)) (\<lambda>rsz.
     let req = setDomainID (getDomainID (pkt_req pkt))
           (new_request (fresh_domain env) (ce_now env) pa rsz (req_flags (pkt_req pkt)) (req_requestorId (pkt_req pkt)))
     in bind_result (new_packet req (cmd pkt)) (\<lambda>pf. bind_result (allocate pf (fresh_mem env)) (\<lambda>pf1.
        bind_result (matchAddr_pkt pf1 pkt) (\<lambda>same. require same Assert
        (bind_result (getSize pf1) (\<lambda>sz1. bind_result (getSize pkt) (\<lambda>sz.
         require (sz1 = sz) Assert (Inr pf1)))))))))"

definition soft_prefetch_miss ::
  "cache_conf \<Rightarrow> cache_env \<Rightarrow> packet \<Rightarrow> nat option \<Rightarrow> blk_ref option \<Rightarrow> tick \<Rightarrow> tick \<Rightarrow> 's cache \<Rightarrow>
   (cache_event list \<times> up_call list \<times> 's cache) result" where
  "soft_prefetch_miss cf env pkt mshr blk forward_time request_time c =
     require (cmd_needsResponse (cmd pkt) \<and> hasPaddr (pkt_req pkt) \<and> \<not> req_isUncacheable (pkt_req pkt)) Assert
     (bind_result (makeResponse pkt) (\<lambda>p.
      if mshr \<noteq> None then Inr ([TimingResp p request_time], [], c)
      else bind_result (new_soft_prefetch env pkt) (\<lambda>pf.
           bind_result (base_handleTimingReqMiss cf env pf None blk forward_time c) (\<lambda>(evs, calls, c1).
           Inr (TimingResp p request_time # evs, calls, c1)))))"

definition handleTimingReqMiss ::
  "cache_conf \<Rightarrow> cache_env \<Rightarrow> packet \<Rightarrow> blk_ref option \<Rightarrow> tick \<Rightarrow> tick \<Rightarrow> 's cache \<Rightarrow>
   (cache_event list \<times> up_call list \<times> 's cache) result" where
  "handleTimingReqMiss cf env pkt blk forward_time request_time c =
     (if req_isUncacheable (pkt_req pkt)
      then bind_result (case blk of None \<Rightarrow> Inr False | Some r \<Rightarrow> bind_result (ref_blk c r) (\<lambda>b. Inr (blk_valid b))) (\<lambda>valid.
           require (\<not> valid) Assert
           (if cmd_isWrite (cmd pkt)
            then bind_result (allocateWriteBuffer cf env pkt forward_time c) (\<lambda>c1. Inr ([], [], c1))
            else require (cmd_isRead (cmd pkt)) Assert
                 (bind_result (allocateMissBuffer cf env pkt forward_time False c) (\<lambda>(_, calls, c1). Inr ([], calls, c1)))))
      else bind_result (getBlockAddr pkt (cc_blkSize cf)) (\<lambda>ba. bind_result (isSecure pkt) (\<lambda>s.
           bind_result (mq_findMatch ba s (pkt_domainID pkt) c) (\<lambda>mshr.
           if cmd_isSWPrefetch (cmd pkt)
           then soft_prefetch_miss cf env pkt mshr blk forward_time request_time c
           else base_handleTimingReqMiss cf env pkt mshr blk forward_time c))))"

section \<open>Receiving a request\<close>

definition clear_prefetched :: "cache_conf \<Rightarrow> blk_ref option \<Rightarrow> 's cache \<Rightarrow> 's cache result" where
  "clear_prefetched cf blk c =
     (case blk of None \<Rightarrow> Inr c
      | Some r \<Rightarrow> if cc_prefetcher cf
                 then bind_result (ref_blk c r) (\<lambda>b. Inr (if blk_prefetched b then set_ref r (b\<lparr>blk_prefetched := False\<rparr>) c else c))
                 else Inr c)"

definition base_recvTimingReq ::
  "cache_conf \<Rightarrow> 's tag_ops \<Rightarrow> cache_env \<Rightarrow> packet \<Rightarrow> 's cache \<Rightarrow> (cache_event list \<times> up_call list \<times> 's cache) result" where
  "base_recvTimingReq cf ops env pkt c =
     (let forward_time = clockEdge env (forwardLatency cf) + ucast (headerDelay pkt)
      in bind_result (access cf ops env pkt c) (\<lambda>res.
         bind_result (doWritebacks cf env (ar_wbs res) (clockEdge env (ar_lat res + forwardLatency cf)) (ar_cache res)) (\<lambda>c1.
         let request_time = clockEdge env (ar_lat res);
             pkt1 = (ar_pkt res)\<lparr>headerDelay := 0, payloadDelay := 0\<rparr>
         in if ar_ok res
            then bind_result (clear_prefetched cf (ar_blk res) c1) (\<lambda>c2.
                 bind_result (handleTimingReqHit cf env pkt1 request_time) (\<lambda>evs. Inr (ar_events res @ evs, [], c2)))
            else bind_result (handleTimingReqMiss cf env pkt1 (ar_blk res) forward_time request_time c1) (\<lambda>(evs, calls, c2).
                 Inr (ar_events res @ evs, calls, c2)))))"

definition recvTimingReq ::
  "cache_conf \<Rightarrow> 's tag_ops \<Rightarrow> cache_env \<Rightarrow> packet \<Rightarrow> 's cache \<Rightarrow> (cache_event list \<times> up_call list \<times> 's cache) result" where
  "recvTimingReq cf ops env pkt c =
     bind_result (promoteWholeLineWrites cf pkt) (\<lambda>pkt1.
     if cacheResponding pkt1
     then bind_result (needsWritable pkt1) (\<lambda>nw.
          require (nw \<and> \<not> responderHadWritable pkt1) Assert
          (bind_result (copy_packet pkt1 True False []) (\<lambda>q.
           bind_result (setCacheResponding (setExpressSnoop (q\<lparr>headerDelay := 0, payloadDelay := 0\<rparr>))) (\<lambda>snoop_pkt.
           Inr ([TimingReq snoop_pkt], [], c)))))
     else base_recvTimingReq cf ops env pkt1 c)"

end
