(* ===== verification/Cache_Snoop.thy ===== *)
theory Cache_Snoop
  imports Cache_Request
begin

text \<open>
  The snoop path of the classic cache in timing mode (\<^verbatim>\<open>mem/cache/cache.cc\<close>): snoops that the crossbar
  sends, the blocks and write-backs they hit, and the responses they cause.  The effect of forwarding a
  snoop to the caches above is the function \<open>snoop_above\<close> of the environment.
\<close>

definition DST_BITS :: "64 word" where "DST_BITS = 0x3000000000"

definition getDest :: "request \<Rightarrow> 64 word" where "getDest r = req_flags r AND DST_BITS"

definition doTimingSupplyResponse ::
  "cache_conf \<Rightarrow> cache_env \<Rightarrow> packet \<Rightarrow> u8 list \<Rightarrow> bool \<Rightarrow> bool \<Rightarrow> cache_event result" where
  "doTimingSupplyResponse cf env req_pkt data already_copied pending_inval =
     require (cmd_isRequest (cmd req_pkt) \<and> cmd_needsResponse (cmd req_pkt)) Assert
     (bind_result (if already_copied then Inr req_pkt
                   else copy_packet req_pkt False (cmd_isRead (cmd req_pkt)) (fresh_mem env)) (\<lambda>pkt.
      require (req_isUncacheable (pkt_req req_pkt) \<or> cmd_isInvalidate (cmd req_pkt) \<or> hasSharers pkt) Assert
      (bind_result (makeResponse pkt) (\<lambda>pkt1.
       bind_result (if cmd_isRead (cmd pkt1) then setDataFromBlock data (cc_blkSize cf) pkt1 else Inr pkt1) (\<lambda>pkt2.
       let pkt3 = (if cmd pkt2 = ReadResp \<and> pending_inval then pkt2\<lparr>cmd := ReadRespWithInvalidate\<rparr> else pkt2)
       in Inr (SnoopResp (pkt3\<lparr>headerDelay := 0, payloadDelay := 0\<rparr>)
             (clockEdge env (forwardLatency cf) + ucast (headerDelay pkt3))))))))"

text \<open>The snoop is first sent to the caches above; the delay it met there is returned with the packet.\<close>

definition snoop_forward :: "cache_conf \<Rightarrow> cache_env \<Rightarrow> packet \<Rightarrow> (u32 \<times> packet) result" where
  "snoop_forward cf env pkt =
     (if forwardSnoops cf
      then bind_result (copy_packet pkt True True (fresh_mem env)) (\<lambda>q.
           let snoopPkt = snoop_above env ((setExpressSnoop q)\<lparr>headerDelay := 0, payloadDelay := 0\<rparr>);
               pkt1 = (if isBlockCached snoopPkt then setBlockCached pkt else pkt)
           in bind_result (if satisfied snoopPkt then setSatisfied pkt1 else Inr pkt1) (\<lambda>pkt2.
              bind_result (copyResponderFlags pkt2 snoopPkt) (\<lambda>pkt3. Inr (headerDelay snoopPkt, pkt3))))
      else Inr (0, pkt))"

definition snoop_clean ::
  "cache_conf \<Rightarrow> 's tag_ops \<Rightarrow> cache_env \<Rightarrow> packet \<Rightarrow> blk_ref option \<Rightarrow> 's cache \<Rightarrow> (packet \<times> 's cache) result" where
  "snoop_clean cf ops env pkt blk c =
     (case blk of None \<Rightarrow> Inr (pkt, c)
      | Some r \<Rightarrow> bind_result (ref_blk c r) (\<lambda>b.
          if blk_valid b \<and> blk_isSet b DirtyBit
          then bind_result (writecleanBlk cf ops env (getDest (pkt_req pkt)) r c) (\<lambda>(wb_pkt, c1).
               bind_result (doWritebacks cf env [wb_pkt] (clockEdge env (forwardLatency cf) + ucast (headerDelay pkt)) c1) (\<lambda>c2.
               bind_result (setSatisfied pkt) (\<lambda>pkt1. Inr (pkt1, c2))))
          else Inr (pkt, c)))"

definition snoop_respond ::
  "cache_conf \<Rightarrow> cache_env \<Rightarrow> packet \<Rightarrow> cache_blk \<Rightarrow> bool \<Rightarrow> bool \<Rightarrow> (packet \<times> cache_event list) result" where
  "snoop_respond cf env pkt b is_deferred pending_inval =
     bind_result (setCacheResponding pkt) (\<lambda>pkt1.
     bind_result (if \<not> cmd_isClean (cmd pkt1) \<and> blk_isSet b WritableBit then setResponderHadWritable pkt1 else Inr pkt1) (\<lambda>pkt2.
     require (cmd_isInvalidate (cmd pkt2) \<or> hasSharers pkt2) Panic
     (bind_result (doTimingSupplyResponse cf env pkt2 (blk_data b) is_deferred pending_inval) (\<lambda>ev. Inr (pkt2, [ev])))))"

text \<open>The end of \<^verbatim>\<open>handleSnoop\<close>: the state of the block is lowered, the data supplied, and an invalidated
  block dropped.\<close>

definition snoop_block ::
  "cache_conf \<Rightarrow> 's tag_ops \<Rightarrow> cache_env \<Rightarrow> packet \<Rightarrow> blk_ref \<Rightarrow> bool \<Rightarrow> bool \<Rightarrow> bool \<Rightarrow> bool \<Rightarrow> 's cache \<Rightarrow>
   (packet \<times> cache_event list \<times> 's cache) result" where
  "snoop_block cf ops env pkt r respond nw is_deferred pending_inval c =
     bind_result (ref_blk c r) (\<lambda>b.
     let reading = (cmd_isRead (cmd pkt) \<and> \<not> cmd_isInvalidate (cmd pkt))
     in require (reading \<longrightarrow> \<not> nw) Assert
        (let pkt1 = (if reading then setHasSharers pkt else pkt);
             b1 = (if reading \<and> \<not> req_isUncacheable (pkt_req pkt) then clearCoherenceBits WritableBit b else b);
             c1 = set_ref r b1 c
         in bind_result (if respond then snoop_respond cf env pkt1 b1 is_deferred pending_inval else Inr (pkt1, [])) (\<lambda>(pkt2, evs).
            require (\<not> respond \<and> is_deferred \<longrightarrow> cmd_needsResponse (cmd pkt2)) Assert
            (bind_result (if blk_valid b \<and> cmd_isInvalidate (cmd pkt) then invalidateBlock cf ops r c1 else Inr c1) (\<lambda>c2.
             Inr (pkt2, evs, c2))))))"

definition snoop_invalid ::
  "packet \<Rightarrow> bool \<Rightarrow> 's cache \<Rightarrow> (packet \<times> cache_event list \<times> 's cache) result" where
  "snoop_invalid pkt is_deferred c =
     require (is_deferred \<longrightarrow> cmd_needsResponse (cmd pkt) \<and> cacheResponding pkt) Assert (Inr (pkt, [], c))"

definition handleSnoop ::
  "cache_conf \<Rightarrow> 's tag_ops \<Rightarrow> cache_env \<Rightarrow> packet \<Rightarrow> blk_ref option \<Rightarrow> bool \<Rightarrow> bool \<Rightarrow> 's cache \<Rightarrow>
   (u32 \<times> packet \<times> cache_event list \<times> 's cache) result" where
  "handleSnoop cf ops env pkt blk is_deferred pending_inval c =
     require ((pending_inval \<longrightarrow> is_deferred) \<and> cmd_isRequest (cmd pkt)) Assert
     (bind_result (needsWritable pkt) (\<lambda>nw.
      require (\<not> (cmd_isInvalidate (cmd pkt) \<and> req_isUncacheable (pkt_req pkt))) Panic
      (bind_result (snoop_forward cf env pkt) (\<lambda>(snoop_delay, pkt1).
       bind_result (case blk of None \<Rightarrow> Inr None | Some r \<Rightarrow> bind_result (ref_blk c r) (\<lambda>b. Inr (if blk_valid b then Some (r, b) else None))) (\<lambda>rb.
       bind_result (if cmd_isClean (cmd pkt1)
                    then bind_result (snoop_clean cf ops env pkt1 blk c) (\<lambda>(p, c1). Inr (True, False, p, c1))
                    else case rb of None \<Rightarrow> Inr (False, False, pkt1, c)
                         | Some (r, b) \<Rightarrow> require (\<not> (isReadOnly cf \<and> blk_isSet b DirtyBit)) Assert
                             (Inr (True, blk_isSet b DirtyBit \<and> cmd_needsResponse (cmd pkt1), pkt1, c))) (\<lambda>(go_on, respond, pkt2, c1).
       bind_result (if \<not> go_on then snoop_invalid pkt2 is_deferred c1
                    else if mustCheckAbove pkt2 then Inr (setBlockCached pkt2, [], c1)
                    else case rb of None \<Rightarrow> require (is_deferred \<longrightarrow> cmd_needsResponse (cmd pkt2)) Assert (Inr (pkt2, [], c1))
                         | Some (r, b) \<Rightarrow> snoop_block cf ops env pkt2 r respond nw is_deferred pending_inval c1) (\<lambda>(pkt3, evs, c2).
       Inr (snoop_delay, pkt3, evs, c2))))))))"

section \<open>Snoops from the memory side\<close>

text \<open>A snoop that meets a write-back in the write buffer is answered from it; an invalidation discards the
  write-back.\<close>

definition snoop_writeback ::
  "cache_conf \<Rightarrow> cache_env \<Rightarrow> packet \<Rightarrow> nat \<Rightarrow> 's cache \<Rightarrow> (bool \<times> packet \<times> cache_event list \<times> 's cache) result" where
  "snoop_writeback cf env pkt h c =
     (let e = entry_of (writeBuffer c) h
      in require (\<not> qe_isUncacheable e \<and> wqe_getNumTargets e = 1) Assert
         (bind_result (wqe_getTarget e) (\<lambda>t.
          let wb_pkt = qt_pkt t
          in require (cmd_isEviction (cmd wb_pkt) \<or> cmd wb_pkt = WriteClean) Assert
             (if cmd_isEviction (cmd pkt) then Inr (True, setBlockCached pkt, [], c)
              else let share = (\<not> req_isUncacheable (pkt_req pkt) \<and> cmd_isRead (cmd pkt) \<and> \<not> cmd_isInvalidate (cmd pkt));
                       pkt1 = (if share then setHasSharers pkt else pkt);
                       wb1 = (if share then setHasSharers wb_pkt else wb_pkt);
                       c1 = c\<lparr>writeBuffer := set_entry h (e\<lparr>wq_targets := [t\<lparr>qt_pkt := wb1\<rparr>]\<rparr>) (writeBuffer c)\<rparr>
                   in bind_result (if share then needsWritable pkt else Inr False) (\<lambda>nw. require (\<not> nw) Assert
                      (bind_result (if cmd wb_pkt = WritebackDirty \<and> cmd_needsResponse (cmd pkt1)
                                    then bind_result (setCacheResponding pkt1) (\<lambda>p1.
                                         bind_result (if \<not> hasSharers wb_pkt then setResponderHadWritable p1 else Inr p1) (\<lambda>p2.
                                         bind_result (getConstPtr wb1) (\<lambda>d.
                                         bind_result (doTimingSupplyResponse cf env p2 d False False) (\<lambda>ev. Inr (p2, [ev])))))
                                    else Inr (pkt1, [])) (\<lambda>(pkt2, evs).
                       bind_result (if cmd_isInvalidate (cmd pkt2) \<and> cmd wb1 \<noteq> WriteClean then wb_markInService h c1 else Inr c1) (\<lambda>c2.
                       Inr (False, pkt2, evs, c2)))))))))"

definition snoop_delayed :: "cache_conf \<Rightarrow> cache_env \<Rightarrow> u32 \<Rightarrow> packet \<Rightarrow> packet" where
  "snoop_delayed cf env d pkt =
     pkt\<lparr>snoopDelay := max (snoopDelay pkt) (ucast (ucast d + cc_lookupLatency cf * clockPeriod env))\<rparr>"

definition snoop_mshr ::
  "cache_env \<Rightarrow> packet \<Rightarrow> nat option \<Rightarrow> 's cache \<Rightarrow> (bool \<times> packet \<times> up_call list \<times> 's cache) result" where
  "snoop_mshr env pkt mshr c =
     (case mshr of None \<Rightarrow> Inr (False, pkt, [], c)
      | Some h \<Rightarrow>
          if mustCheckAbove pkt then Inr (True, setBlockCached pkt, [], c)
          else bind_result (mshr_handleSnoop (is_mshr env) (fresh_domain env) (\<lambda>_. fresh_mem env) (fresh_mem env) (ce_now env)
                  pkt (order c) (entry_of (mshrQueue c) h)) (\<lambda>(deferred, pkt1, m, calls).
               Inr (deferred, pkt1, calls, c\<lparr>mshrQueue := set_entry h m (mshrQueue c), order := order c + 1\<rparr>)))"

definition recvTimingSnoopReq ::
  "cache_conf \<Rightarrow> 's tag_ops \<Rightarrow> cache_env \<Rightarrow> packet \<Rightarrow> 's cache \<Rightarrow>
   (packet \<times> cache_event list \<times> up_call list \<times> 's cache) result" where
  "recvTimingSnoopReq cf ops env pkt c =
     bind_result (getAddr pkt) (\<lambda>a.
     if \<not> inRange cf a then Inr (pkt, [], [], c)
     else bind_result (isSecure pkt) (\<lambda>s. bind_result (to_findBlock ops a s (pkt_domainID pkt) (c_tags c)) (\<lambda>h.
          bind_result (getBlockAddr pkt (cc_blkSize cf)) (\<lambda>ba.
          bind_result (mq_findMatch ba s (pkt_domainID pkt) c) (\<lambda>mshr.
          bind_result (snoop_mshr env (snoop_delayed cf env 0 pkt) mshr c) (\<lambda>(stop, pkt1, calls, c1).
          if stop then Inr (pkt1, [], calls, c1)
          else bind_result (wb_findMatch ba s (pkt_domainID pkt) c1) (\<lambda>w.
               bind_result (case w of None \<Rightarrow> Inr (False, pkt1, [], c1)
                            | Some i \<Rightarrow> snoop_writeback cf env pkt1 i c1) (\<lambda>(squashed, pkt2, evs, c2).
               if squashed then Inr (pkt2, evs, calls, c2)
               else bind_result (handleSnoop cf ops env pkt2 (map_option TagBlk h) False False c2) (\<lambda>(d, pkt3, evs2, c3).
                    Inr (snoop_delayed cf env d pkt3, evs @ evs2, calls, c3))))))))))"

end
