(* ===== verification/Cache_Response.thy ===== *)
theory Cache_Response
  imports Cache_Snoop
begin

text \<open>
  The response path of the classic cache (\<^verbatim>\<open>mem/cache/base.cc\<close>, \<^verbatim>\<open>mem/cache/cache.cc\<close>): how a
  response serves the targets of its register, and what becomes of the register and of a temporary block.
\<close>

section \<open>Serving the targets of a register\<close>

definition target_offset :: "cache_conf \<Rightarrow> addr \<Rightarrow> addr \<Rightarrow> int" where
  "target_offset cf off initial_offset =
     (let transfer_offset = sint (ucast off :: u32) - sint (ucast initial_offset :: u32)
      in if transfer_offset < 0 then transfer_offset + uint (cc_blkSize cf) else transfer_offset)"

definition blk_of :: "blk_ref option \<Rightarrow> 's cache \<Rightarrow> (blk_ref \<times> cache_blk) option result" where
  "blk_of blk c =
     (case blk of None \<Rightarrow> Inr None
      | Some r \<Rightarrow> bind_result (ref_blk c r) (\<lambda>b. Inr (if blk_valid b then Some (r, b) else None)))"

text \<open>The three ways to answer a target: from the block, as a failed store-conditional, or by passing the
  response on.  The result is the target's packet, the completion time and the cache.\<close>

definition serve_from_block ::
  "cache_conf \<Rightarrow> 's tag_ops \<Rightarrow> cache_env \<Rightarrow> mshr \<Rightarrow> packet \<Rightarrow> addr \<Rightarrow> blk_ref \<Rightarrow> packet \<Rightarrow> 's cache \<Rightarrow>
   (packet \<times> tick \<times> 's cache) result" where
  "serve_from_block cf ops env m pkt initial_offset r tgt_pkt c =
     bind_result (hasPostDowngrade m) (\<lambda>pd.
     bind_result (satisfyRequest cf ops env True pd tgt_pkt r c) (\<lambda>(tgt1, c1).
     let tgt2 = (if isNoFillLower pkt then setNoFillLower tgt1 else tgt1)
     in bind_result (getOffset tgt2 (cc_blkSize cf)) (\<lambda>off.
        require (\<not> req_isUncacheable (pkt_req tgt2)) Assert
        (count_cmd cf tgt2
        (Inr (tgt2, ucast (headerDelay pkt) + (clockEdge env (responseLatency cf) +
           (if target_offset cf off initial_offset \<noteq> 0 then ucast (payloadDelay pkt) else 0)), c1))))))"

definition serve_forward ::
  "cache_conf \<Rightarrow> 's tag_ops \<Rightarrow> cache_env \<Rightarrow> packet \<Rightarrow> bool \<Rightarrow> (blk_ref \<times> cache_blk) option \<Rightarrow> packet \<Rightarrow> 's cache \<Rightarrow>
   (packet \<times> tick \<times> 's cache) result" where
  "serve_forward cf ops env pkt is_invalidate rb tgt_pkt c =
     bind_result (case rb of None \<Rightarrow> Inr c
                  | Some (r, b) \<Rightarrow> if is_invalidate then invalidateBlock cf ops r c else Inr c) (\<lambda>c1.
     bind_result (if cmd_isError (cmd pkt) then Inr tgt_pkt
                  else if cmd_isRead (cmd pkt)
                  then bind_result (matchAddr_pkt pkt tgt_pkt) (\<lambda>same. bind_result (getSize pkt) (\<lambda>sz.
                       bind_result (getSize tgt_pkt) (\<lambda>tsz. require (same \<and> sz \<ge> tsz) Assert
                       (bind_result (getConstPtr pkt) (\<lambda>d. setData False d 0 tgt_pkt)))))
                  else require (\<not> hasRespData tgt_pkt) Assert (Inr tgt_pkt)) (\<lambda>tgt1.
     bind_result (copyResponderFlags tgt1 pkt) (\<lambda>tgt2.
     Inr (tgt2, ucast (headerDelay pkt) + (clockEdge env (responseLatency cf) + ucast (payloadDelay pkt)), c1))))"

definition serve_target ::
  "cache_conf \<Rightarrow> 's tag_ops \<Rightarrow> cache_env \<Rightarrow> mshr \<Rightarrow> packet \<Rightarrow> addr \<Rightarrow> bool \<Rightarrow> (blk_ref \<times> cache_blk) option \<Rightarrow>
   packet \<Rightarrow> 's cache \<Rightarrow> (packet \<times> tick \<times> 's cache) result" where
  "serve_target cf ops env m pkt initial_offset is_invalidate rb tgt_pkt c =
     (let from_block = (if \<not> isForward m \<or> \<not> cmd_hasData (cmd pkt) then map_option fst rb else None)
      in case from_block of
           Some r \<Rightarrow> serve_from_block cf ops env m pkt initial_offset r tgt_pkt c
         | None \<Rightarrow>
             if cmd pkt = UpgradeFailResp
             then require (cmd tgt_pkt = StoreCondReq \<or> cmd tgt_pkt = StoreCondFailReq \<or> cmd tgt_pkt = SCUpgradeFailReq) Assert
                  (Inr (tgt_pkt\<lparr>pkt_req := setExtraData 0 (pkt_req tgt_pkt)\<rparr>,
                        ucast (headerDelay pkt) + (clockEdge env (responseLatency cf) + ucast (payloadDelay pkt)), c))
             else serve_forward cf ops env pkt is_invalidate rb tgt_pkt c)"

definition finish_target :: "mshr \<Rightarrow> packet \<Rightarrow> bool \<Rightarrow> packet \<Rightarrow> packet result" where
  "finish_target m pkt is_invalidate tgt_pkt =
     bind_result (makeResponse tgt_pkt) (\<lambda>tgt1.
     let tgt2 = (if cmd_isError (cmd pkt) then tgt1\<lparr>cmd := cmd pkt\<rparr> else tgt1)
     in bind_result (if cmd tgt2 = ReadResp then (if is_invalidate then Inr True else hasPostInvalidate m) else Inr False) (\<lambda>inv.
        Inr ((if inv then tgt2\<lparr>cmd := ReadRespWithInvalidate\<rparr> else tgt2)\<lparr>headerDelay := 0, payloadDelay := 0\<rparr>)))"

definition service_cpu ::
  "cache_conf \<Rightarrow> 's tag_ops \<Rightarrow> cache_env \<Rightarrow> mshr \<Rightarrow> packet \<Rightarrow> addr \<Rightarrow> bool \<Rightarrow> blk_ref option \<Rightarrow> packet \<Rightarrow> 's cache \<Rightarrow>
   (cache_event list \<times> 's cache) result" where
  "service_cpu cf ops env m pkt initial_offset is_invalidate blk tgt_pkt c =
     (if cmd tgt_pkt = HardPFReq then require (cacheLevel cf > 0) Assert (Inr ([], c))
      else if cmd_isSWPrefetch (cmd tgt_pkt)
      then bind_result (needsWritable tgt_pkt) (\<lambda>nw.
           if nw then case blk of None \<Rightarrow> Inl Assert
                      | Some r \<Rightarrow> bind_result (add_bits DirtyBit r c) (\<lambda>c1. require (\<not> isReadOnly cf) Panic (Inr ([], c1)))
           else Inr ([], c))
      else bind_result (blk_of blk c) (\<lambda>rb.
           require (cmd tgt_pkt = WriteLineReq \<longrightarrow> \<not> cmd_isError (cmd pkt) \<and>
              (case rb of None \<Rightarrow> False | Some (r, b) \<Rightarrow> blk_isSet b WritableBit)) Assert
           (bind_result (serve_target cf ops env m pkt initial_offset is_invalidate rb tgt_pkt c) (\<lambda>(tgt1, t, c1).
            bind_result (finish_target m pkt is_invalidate tgt1) (\<lambda>tgt2. Inr ([TimingResp tgt2 t], c1))))))"

definition service_target ::
  "cache_conf \<Rightarrow> 's tag_ops \<Rightarrow> cache_env \<Rightarrow> mshr \<Rightarrow> packet \<Rightarrow> addr \<Rightarrow> bool \<Rightarrow> blk_ref option \<Rightarrow> target \<Rightarrow>
   cache_event list \<times> 's cache \<Rightarrow> (cache_event list \<times> 's cache) result" where
  "service_target cf ops env m pkt initial_offset is_invalidate blk t = (\<lambda>(evs, c).
     case source t of
       FromCPU \<Rightarrow>
         bind_result (service_cpu cf ops env m pkt initial_offset is_invalidate blk (qt_pkt t) c) (\<lambda>(evs1, c1).
         Inr (evs @ evs1, c1))
     | FromPrefetcher \<Rightarrow>
         require (cmd (qt_pkt t) = HardPFReq) Assert
         (case blk of None \<Rightarrow> Inr (evs, c)
          | Some r \<Rightarrow> bind_result (ref_blk c r) (\<lambda>b. Inr (evs, set_ref r (b\<lparr>blk_prefetched := True\<rparr>) c)))
     | FromSnoop \<Rightarrow>
         require (\<not> cmd_isError (cmd pkt)) Assert
         (bind_result (hasPostInvalidate m) (\<lambda>pi.
          require (\<not> is_invalidate \<or> cmd pkt = InvalidateResp \<or> req_isCacheMaintenance (pkt_req pkt) \<or> pi) Assert
          (bind_result (handleSnoop cf ops env (qt_pkt t) blk True pi c) (\<lambda>(_, _, evs1, c1). Inr (evs @ evs1, c1))))))"

definition after_service ::
  "cache_conf \<Rightarrow> 's tag_ops \<Rightarrow> mshr \<Rightarrow> bool \<Rightarrow> blk_ref option \<Rightarrow> 's cache \<Rightarrow> 's cache result" where
  "after_service cf ops m is_invalidate blk c =
     bind_result (blk_of blk c) (\<lambda>rb.
     case rb of None \<Rightarrow> Inr c
     | Some (r, b) \<Rightarrow>
         bind_result (if is_invalidate then Inr True else hasPostInvalidate m) (\<lambda>inv.
         if inv then invalidateBlock cf ops r c
         else bind_result (hasPostDowngrade m) (\<lambda>pd.
              Inr (if pd then set_ref r (clearCoherenceBits WritableBit b) c else c))))"

definition serviceMSHRTargets ::
  "cache_conf \<Rightarrow> 's tag_ops \<Rightarrow> cache_env \<Rightarrow> mshr \<Rightarrow> packet \<Rightarrow> blk_ref option \<Rightarrow> 's cache \<Rightarrow>
   (cache_event list \<times> mshr \<times> 's cache) result" where
  "serviceMSHRTargets cf ops env m pkt blk c =
     bind_result (getTarget m) (\<lambda>t0. bind_result (getOffset (qt_pkt t0) (cc_blkSize cf)) (\<lambda>initial_offset.
     let is_invalidate = (cmd_isInvalidate (cmd pkt) \<and> \<not> wasWholeLineWrite m)
     in bind_result (extractServiceableTargets pkt m) (\<lambda>(tgts, m1).
        bind_result (fold_result (service_target cf ops env m1 pkt initial_offset is_invalidate blk) (tl_targets tgts) ([], c)) (\<lambda>(evs, c1).
        bind_result (maintainClusivity cf ops (tl_hasFromCache tgts) blk c1) (\<lambda>c2.
        bind_result (after_service cf ops m1 is_invalidate blk c2) (\<lambda>c3. Inr (evs, m1, c3)))))))"

section \<open>Receiving a response\<close>

definition handleUncacheableWriteResp :: "cache_conf \<Rightarrow> cache_env \<Rightarrow> packet \<Rightarrow> cache_event" where
  "handleUncacheableWriteResp cf env pkt =
     TimingResp (pkt\<lparr>headerDelay := 0, payloadDelay := 0\<rparr>)
       (clockEdge env (responseLatency cf) + ucast (headerDelay pkt) + ucast (payloadDelay pkt))"

text \<open>The register that a sender state stands for.\<close>

definition own_mshr :: "cache_env \<Rightarrow> nat \<Rightarrow> 's cache \<Rightarrow> nat option" where
  "own_mshr env st c = List.find (\<lambda>h. mshr_state env h = st) [0..<length (entries (mshrQueue c))]"

text \<open>An invalid block has no coherence bits, so a block without a valid line promotes nothing.\<close>

definition promote_targets ::
  "cache_env \<Rightarrow> packet \<Rightarrow> blk_ref option \<Rightarrow> mshr \<Rightarrow> 's cache \<Rightarrow> (mshr \<times> up_call list \<times> 's cache) result" where
  "promote_targets env pkt blk m c =
     bind_result (blk_of blk c) (\<lambda>rb.
     case rb of None \<Rightarrow> Inr (m, [], c)
     | Some (r, b) \<Rightarrow>
         let cleaned = (cmd_isClean (cmd pkt) \<and> \<not> cmd_isInvalidate (cmd pkt))
         in bind_result (if cleaned then add_bits ReadableBit r c else Inr c) (\<lambda>c1.
            bind_result (if cleaned then promoteReadable (is_mshr env) m else Inr (m, [])) (\<lambda>(m1, calls1).
            bind_result (if blk_isSet b WritableBit \<and> \<not> req_isCacheInvalidate (pkt_req pkt)
                         then promoteWritable (is_mshr env) m1 else Inr (m1, [])) (\<lambda>(m2, calls2).
            Inr (m2, calls1 @ calls2, c1)))))"

definition end_mshr :: "cache_env \<Rightarrow> nat \<Rightarrow> mshr \<Rightarrow> blk_ref option \<Rightarrow> 's cache \<Rightarrow> 's cache result" where
  "end_mshr env h m blk c =
     bind_result (promoteDeferredTargets (ce_now env) m) (\<lambda>(again, m1).
     bind_result (case blk of None \<Rightarrow> Inr c
                  | Some r \<Rightarrow> if again then bind_result (ref_blk c r) (\<lambda>b. Inr (set_ref r (clearCoherenceBits ReadableBit b) c))
                             else Inr c) (\<lambda>c1.
     bind_result (finish_response h again m1 (mshrQueue c1)) (\<lambda>q.
     let c2 = c1\<lparr>mshrQueue := q\<rparr>
     in Inr (if \<not> again \<and> queue_isFull (mshrQueue c1) \<and> \<not> queue_isFull q then clearBlocked Blocked_NoMSHRs c2 else c2))))"

definition resp_mshr ::
  "cache_conf \<Rightarrow> 's tag_ops \<Rightarrow> cache_env \<Rightarrow> nat \<Rightarrow> packet \<Rightarrow> 's cache \<Rightarrow>
   (cache_event list \<times> up_call list \<times> 's cache) result" where
  "resp_mshr cf ops env h pkt c =
     (let m = entry_of (mshrQueue c) h
      in bind_result (getTarget m) (\<lambda>_. count_cmd cf pkt
         (bind_result (resp_fill cf ops env m pkt [] c) (\<lambda>(pkt1, blk, wbs, c1).
          bind_result (promote_targets env pkt1 blk m c1) (\<lambda>(m1, calls, c2).
          bind_result (serviceMSHRTargets cf ops env m1 pkt1 blk c2) (\<lambda>(evs, m2, c3).
          bind_result (end_mshr env h m2 blk c3) (\<lambda>c4.
          bind_result (drop_temp cf ops env blk (wbs, c4)) (\<lambda>(wbs1, c5).
          bind_result (doWritebacks cf env wbs1 (clockEdge env (forwardLatency cf) + ucast (headerDelay pkt1)) c5) (\<lambda>c6.
          Inr (evs, calls, c6))))))))))"

definition recvTimingResp ::
  "cache_conf \<Rightarrow> 's tag_ops \<Rightarrow> cache_env \<Rightarrow> packet \<Rightarrow> 's cache \<Rightarrow> (cache_event list \<times> up_call list \<times> 's cache) result" where
  "recvTimingResp cf ops env pkt c =
     require (cmd_isResponse (cmd pkt)) Assert
     (require (headerDelay pkt = 0 \<or> cmd pkt = HardPFResp) Panic
     (if cmd_isWrite (cmd pkt)
      then require (req_isUncacheable (pkt_req pkt)) Assert (Inr ([handleUncacheableWriteResp cf env pkt], [], c))
      else bind_result (popSenderState pkt) (\<lambda>(st, pkt1).
           case own_mshr env st c of None \<Rightarrow> Inl Assert
           | Some h \<Rightarrow>
               resp_mshr cf ops env h pkt1
                 (if noTargetMSHR c = Some h then (clearBlocked Blocked_NoTargets c)\<lparr>noTargetMSHR := None\<rparr> else c))))"

end
