(* ===== verification/Cache_Send.thy ===== *)
theory Cache_Send
  imports Cache_Response
begin

text \<open>
  The sending side of the classic cache (\<^verbatim>\<open>mem/cache/base.cc\<close>, \<^verbatim>\<open>mem/cache/cache.cc\<close>): the choice between
  misses, write-backs and prefetches, the packet a register sends to the level below, and what is done when
  the packet is accepted.  Whether the port accepts a packet, and how the crossbar leaves it, is the
  argument \<open>sent\<close>: nothing if a retry is needed, otherwise the packet with the flags it has gained.
\<close>

datatype queue_choice = NoEntry | MissEntry nat | WriteEntry nat

section \<open>The next entry\<close>

text \<open>\<open>pf\<close> is the packet that the prefetcher offers.  A prefetch that meets an outstanding register withdraws
  its no-fill mark and tells the level below.\<close>

definition prefetch_hit :: "cache_conf \<Rightarrow> nat \<Rightarrow> 's cache \<Rightarrow> 's cache" where
  "prefetch_hit cf h c =
     (if pfAckEn cf
      then let (cleared, m) = mshr_updateMayNotFill False (entry_of (mshrQueue c) h);
               c1 = c\<lparr>mshrQueue := set_entry h m (mshrQueue c)\<rparr>
           in if cleared then upd_stats (\<lambda>s. s\<lparr>shbMshrCanFill := shbMshrCanFill s + 1\<rparr>) c1 else c1
      else c)"

definition next_prefetch ::
  "cache_conf \<Rightarrow> 's tag_ops \<Rightarrow> cache_env \<Rightarrow> packet \<Rightarrow> 's cache \<Rightarrow>
   (queue_choice \<times> cache_event list \<times> up_call list \<times> 's cache) result" where
  "next_prefetch cf ops env pkt c =
     bind_result (getBlockAddr pkt (cc_blkSize cf)) (\<lambda>pf_addr. bind_result (isSecure pkt) (\<lambda>s.
     bind_result (mq_findMatch pf_addr s (pkt_domainID pkt) c) (\<lambda>hit.
     bind_result (to_findBlock ops pf_addr s (pkt_domainID pkt) (c_tags c)) (\<lambda>blk.
     bind_result (if blk = None \<and> hit = None
                  then bind_result (wb_findMatch pf_addr s (pkt_domainID pkt) c) (\<lambda>w. Inr (w = None)) else Inr False) (\<lambda>issue.
     if issue
     then count_cmd cf pkt
          (bind_result (allocateMissBuffer cf env pkt (ce_now env) True c) (\<lambda>(h, calls, c1).
           Inr (MissEntry h, [], calls, c1)))
     else case hit of None \<Rightarrow> Inr (NoEntry, [], [], c)
          | Some h \<Rightarrow> Inr (NoEntry, if pfAckEn cf \<and> cacheLevel cf = 1 then [PfAck pkt] else [], [], prefetch_hit cf h c))))))"

definition next_write :: "nat \<Rightarrow> 's cache \<Rightarrow> queue_choice result" where
  "next_write w c =
     (let e = entry_of (writeBuffer c) w
      in bind_result (findPending (mshr_conflictAddr (wqe_matchBlockAddr_domain e)) (mshrQueue c)) (\<lambda>conflict.
         Inr (case conflict of
                Some h \<Rightarrow> if qe_order (entry_of (mshrQueue c) h) < qe_order e then MissEntry h else WriteEntry w
              | None \<Rightarrow> WriteEntry w)))"

definition next_miss :: "nat \<Rightarrow> 's cache \<Rightarrow> queue_choice result" where
  "next_miss h c =
     bind_result (findPending (wqe_conflictAddr (mshr_matchBlockAddr_domain (entry_of (mshrQueue c) h))) (writeBuffer c)) (\<lambda>conflict.
     Inr (case conflict of Some w \<Rightarrow> WriteEntry w | None \<Rightarrow> MissEntry h))"

definition getNextQueueEntry ::
  "cache_conf \<Rightarrow> 's tag_ops \<Rightarrow> cache_env \<Rightarrow> packet option \<Rightarrow> 's cache \<Rightarrow>
   (queue_choice \<times> cache_event list \<times> up_call list \<times> 's cache) result" where
  "getNextQueueEntry cf ops env pf c =
     (let miss_mshr = getNext (ce_now env) (mshrQueue c); wq_entry = getNext (ce_now env) (writeBuffer c)
      in case (wq_entry, miss_mshr) of
           (Some w, Some h) \<Rightarrow>
             bind_result (if queue_isFull (writeBuffer c) then next_write w c else next_miss h c) (\<lambda>e. Inr (e, [], [], c))
         | (Some w, None) \<Rightarrow> bind_result (next_write w c) (\<lambda>e. Inr (e, [], [], c))
         | (None, Some h) \<Rightarrow> bind_result (next_miss h c) (\<lambda>e. Inr (e, [], [], c))
         | (None, None) \<Rightarrow>
             if cc_prefetcher cf \<and> canPrefetch (mshrQueue c) \<and> \<not> isBlocked c
             then case pf of None \<Rightarrow> Inr (NoEntry, [], [], c) | Some pkt \<Rightarrow> next_prefetch cf ops env pkt c
             else Inr (NoEntry, [], [], c))"

section \<open>Sending an entry\<close>

definition miss_cmd :: "cache_conf \<Rightarrow> packet \<Rightarrow> cache_blk option \<Rightarrow> bool \<Rightarrow> bool \<Rightarrow> mem_cmd result" where
  "miss_cmd cf cpu_pkt blk needs_writable is_whole_line_write =
     (if is_whole_line_write
      then require (case blk of None \<Rightarrow> True | Some b \<Rightarrow> \<not> blk_isSet b WritableBit) Assert (Inr InvalidateReq)
      else case blk of
             Some b \<Rightarrow> require (needs_writable \<and> \<not> blk_isSet b WritableBit) Assert
                        (Inr (if cmd_isLLSC (cmd cpu_pkt) then SCUpgradeReq else UpgradeReq))
           | None \<Rightarrow>
               if cmd cpu_pkt = SCUpgradeFailReq \<or> cmd cpu_pkt = StoreCondFailReq then Inr SCUpgradeFailReq
               else Inr (if needs_writable then ReadExReq
                         else if isReadOnly cf \<or> \<not> mostly_incl cf then ReadCleanReq else ReadSharedReq))"

definition createMissPacket ::
  "cache_conf \<Rightarrow> cache_env \<Rightarrow> packet \<Rightarrow> cache_blk option \<Rightarrow> bool \<Rightarrow> bool \<Rightarrow> packet option result" where
  "createMissPacket cf env cpu_pkt blk needs_writable is_whole_line_write =
     require (\<not> cmd_isEviction (cmd cpu_pkt)) Assert
     (let vblk = (case blk of None \<Rightarrow> None | Some b \<Rightarrow> if blk_valid b then Some b else None)
      in if req_isUncacheable (pkt_req cpu_pkt) \<or> vblk = None \<and> cmd_isUpgrade (cmd cpu_pkt) \<or>
            cmd cpu_pkt = InvalidateReq \<or> cmd_isClean (cmd cpu_pkt)
         then Inr None
         else require (cmd_needsResponse (cmd cpu_pkt) \<and> (cmd cpu_pkt \<noteq> WriteLineReq \<or> is_whole_line_write)) Assert
              (bind_result (miss_cmd cf cpu_pkt vblk needs_writable is_whole_line_write) (\<lambda>k.
               let p = new_packet_blk (pkt_req cpu_pkt) k (cc_blkSize cf);
                   p1 = (if hasSharers cpu_pkt \<and> \<not> needs_writable then setHasSharers p else p)
               in bind_result (getAddr p1) (\<lambda>a. bind_result (getBlockAddr p1 (cc_blkSize cf)) (\<lambda>ba.
                  require (a = ba) Assert (bind_result (allocate p1 (fresh_mem env)) (\<lambda>p2. Inr (Some p2))))))))"

text \<open>The write allocator may hold a register back; the result says whether it does.\<close>

definition hold_write :: "cache_conf \<Rightarrow> cache_env \<Rightarrow> nat \<Rightarrow> packet \<Rightarrow> 's cache \<Rightarrow> (bool \<times> 's cache) result" where
  "hold_write cf env h tgt_pkt c =
     (let m = entry_of (mshrQueue c) h
      in case writeAllocator c of None \<Rightarrow> Inr (False, c)
         | Some w \<Rightarrow>
             if \<not> (wa_coalesce w \<and> cmd_isWrite (cmd tgt_pkt)) then Inr (False, c)
             else if tl_isWholeLineWrite (targets m)
             then Inr (False, c\<lparr>writeAllocator := Some (resetDelay (qe_blkAddr m) w)\<rparr>)
             else let (held, w1) = wa_delay (qe_blkAddr m) w
                  in if held
                     then bind_result (getSize tgt_pkt) (\<lambda>sz. require (sz \<noteq> 0) Undefined
                          (bind_result (mq_delay (ce_now env) h (ucast (cc_blkSize cf div sz) * clockPeriod env) (mshrQueue c)) (\<lambda>q.
                           Inr (True, c\<lparr>mshrQueue := q, writeAllocator := Some w1\<rparr>))))
                     else Inr (False, c\<lparr>writeAllocator := Some (wa_reset w1)\<rparr>))"

definition mshr_in_service ::
  "cache_env \<Rightarrow> nat \<Rightarrow> bool \<Rightarrow> 's cache \<Rightarrow> (up_call list \<times> 's cache) result" where
  "mshr_in_service env h pending_modified_resp c =
     bind_result (mq_markInService (is_mshr env) h pending_modified_resp (mshrQueue c)) (\<lambda>(q, calls).
     let c1 = c\<lparr>mshrQueue := q\<rparr>
     in Inr (calls, if queue_isFull (mshrQueue c) \<and> \<not> queue_isFull q then clearBlocked Blocked_NoMSHRs c1 else c1))"

text \<open>The packet a register sends, and whether it forwards the request of its first target.\<close>

definition mshr_packet ::
  "cache_conf \<Rightarrow> cache_env \<Rightarrow> nat \<Rightarrow> mshr \<Rightarrow> packet \<Rightarrow> cache_blk option \<Rightarrow> (packet \<times> bool) result" where
  "mshr_packet cf env h m tgt_pkt blk =
     bind_result (createMissPacket cf env tgt_pkt blk (tl_needsWritable (targets m)) (tl_isWholeLineWrite (targets m))) (\<lambda>miss.
     bind_result (case miss of Some p \<Rightarrow> Inr p
                  | None \<Rightarrow> bind_result (copy_packet tgt_pkt False True (fresh_mem env)) (\<lambda>p.
                      require (\<not> cmd_isWrite (cmd p)) Assert (Inr p))) (\<lambda>p.
     let p1 = pushSenderState (mshr_state env h) p
     in bind_result (if cmd_isClean (cmd p1) \<and> (case blk of None \<Rightarrow> False | Some b \<Rightarrow> blk_isSet b DirtyBit)
                     then setSatisfied p1 else Inr p1) (\<lambda>p2. Inr (p2, miss = None))))"

text \<open>The packet was accepted: the register is in service, and a clean request that found a dirty block here
  is followed by a clean write.\<close>

definition packet_accepted ::
  "cache_conf \<Rightarrow> 's tag_ops \<Rightarrow> cache_env \<Rightarrow> nat \<Rightarrow> packet \<Rightarrow> (nat \<times> cache_blk) option \<Rightarrow> 's cache \<Rightarrow>
   (up_call list \<times> 's cache) result" where
  "packet_accepted cf ops env h pkt jb c =
     bind_result (mshr_in_service env h (\<not> hasSharers pkt \<and> cacheResponding pkt) c) (\<lambda>(calls, c1).
     case jb of None \<Rightarrow> Inr (calls, c1)
     | Some (j, b) \<Rightarrow>
         if cmd_isClean (cmd pkt) \<and> blk_isSet b DirtyBit
         then bind_result (writecleanBlk cf ops env (getDest (pkt_req pkt)) (TagBlk j) c1) (\<lambda>(wb, c2).
              bind_result (doWritebacks cf env [wb] 0 c2) (\<lambda>c3. Inr (calls, c3)))
         else Inr (calls, c1))"

definition send_miss ::
  "cache_conf \<Rightarrow> 's tag_ops \<Rightarrow> cache_env \<Rightarrow> (packet \<Rightarrow> packet option) \<Rightarrow> nat \<Rightarrow> packet \<Rightarrow> 's cache \<Rightarrow>
   (bool \<times> cache_event list \<times> up_call list \<times> 's cache) result" where
  "send_miss cf ops env sent h tgt_pkt c =
     (let m = entry_of (mshrQueue c) h
      in bind_result (to_findBlock ops (qe_blkAddr m) (qe_isSecure m) (qe_domainID m) (c_tags c)) (\<lambda>i.
         bind_result (case i of None \<Rightarrow> Inr None | Some j \<Rightarrow> bind_result (get_blk (c_tags c) j) (\<lambda>b. Inr (Some (j, b)))) (\<lambda>jb.
         bind_result (mshr_packet cf env h m tgt_pkt (map_option snd jb)) (\<lambda>(pkt, fwd).
         let c1 = c\<lparr>mshrQueue := set_entry h (m\<lparr>isForward := fwd\<rparr>) (mshrQueue c)\<rparr>
         in case sent pkt of
              None \<Rightarrow> Inr (True, [TimingReq pkt], [], c1)
            | Some pkt1 \<Rightarrow> bind_result (packet_accepted cf ops env h pkt1 jb c1) (\<lambda>(calls, c2).
                Inr (False, [TimingReq pkt], calls, c2))))))"

definition sendMSHRQueuePacket ::
  "cache_conf \<Rightarrow> 's tag_ops \<Rightarrow> cache_env \<Rightarrow> (packet \<Rightarrow> packet option) \<Rightarrow> nat \<Rightarrow> 's cache \<Rightarrow>
   (bool \<times> cache_event list \<times> up_call list \<times> 's cache) result" where
  "sendMSHRQueuePacket cf ops env sent h c =
     bind_result (getTarget (entry_of (mshrQueue c) h)) (\<lambda>t.
     bind_result (hold_write cf env h (qt_pkt t) c) (\<lambda>(held, c1).
     if held then Inr (False, [], [], c1) else send_miss cf ops env sent h (qt_pkt t) c1))"

definition sendWriteQueuePacket ::
  "(packet \<Rightarrow> packet option) \<Rightarrow> nat \<Rightarrow> 's cache \<Rightarrow> (bool \<times> cache_event list \<times> 's cache) result" where
  "sendWriteQueuePacket sent h c =
     bind_result (wqe_getTarget (entry_of (writeBuffer c) h)) (\<lambda>t.
     case sent (qt_pkt t) of
       None \<Rightarrow> Inr (True, [TimingReq (qt_pkt t)], c)
     | Some _ \<Rightarrow> bind_result (wb_markInService h c) (\<lambda>c1. Inr (False, [TimingReq (qt_pkt t)], c1)))"

end
