(* ===== verification/No_Fill.thy ===== *)
theory No_Fill
  imports Base_Cache
begin

text \<open>
  The promise of the no-fill mode: a response whose register may not fill is passed through the
  temporary block, the tag store is left as it was, the response tells the caches above not to fill
  either, and the write-back that the temporary block may cause is itself marked not to be filled below.
\<close>

section \<open>Packet and block facts\<close>

lemma pkt_isSet_setFlag: "pkt_isSet (pkt_setFlag m p) k \<longleftrightarrow> pkt_isSet p k \<or> flag_isSet m k"
  by (simp add: pkt_isSet_def pkt_setFlag_def flag_isSet_set)

lemma pkt_setFlag_fields [simp]:
  "cmd (pkt_setFlag m p) = cmd p" "pkt_req (pkt_setFlag m p) = pkt_req p" "pkt_addr (pkt_setFlag m p) = pkt_addr p"
  "pkt_isSecure (pkt_setFlag m p) = pkt_isSecure p" "pkt_size (pkt_setFlag m p) = pkt_size p"
  "pkt_data (pkt_setFlag m p) = pkt_data p" "headerDelay (pkt_setFlag m p) = headerDelay p"
  "payloadDelay (pkt_setFlag m p) = payloadDelay p"
  by (simp_all add: pkt_setFlag_def)

text \<open>A response that brings a whole line.\<close>

definition line_response :: "cache_conf \<Rightarrow> packet \<Rightarrow> bool" where
  "line_response cf p \<longleftrightarrow> cmd_isResponse (cmd p) \<and> cmd_isRead (cmd p) \<and> cmd_hasData (cmd p) \<and>
     \<not> cmd_isError (cmd p) \<and> pkt_isSet p VALID_ADDR \<and> pkt_isSet p VALID_SIZE \<and>
     pkt_isSet p (STATIC_DATA OR DYNAMIC_DATA) \<and> pkt_size p = cc_blkSize cf \<and>
     length (pkt_data p) = unat (cc_blkSize cf) \<and> pkt_addr p AND ucast (cc_blkSize cf - 1) = 0 \<and>
     (isReadOnly cf \<longrightarrow> hasSharers p \<or> \<not> cacheResponding p)"

text \<open>The temporary block between two uses.\<close>

definition temp_idle :: "cache_conf \<Rightarrow> temp_cache_blk \<Rightarrow> bool" where
  "temp_idle cf tb \<longleftrightarrow> \<not> blk_valid (temp_blk tb) \<and> \<not> blk_secure (temp_blk tb) \<and>
     coherence (temp_blk tb) AND AllBits = 0 \<and> length (blk_data (temp_blk tb)) = unat (cc_blkSize cf) \<and>
     blk_tickInserted (temp_blk tb) = 0"

lemma aligned_block: "(a :: addr) AND m = 0 \<Longrightarrow> a AND NOT m = a"
proof (rule word_eq_by_bits)
  fix n assume z: "a AND m = 0"
  have "\<not> (bit a n \<and> bit m n)" using z by (metis bit_0_eq bit_and_iff bot_apply bot_bool_def)
  then show "bit (a AND NOT m) n = bit a n" if "n < LENGTH(64)" using that by (auto simp: bit_simps)
qed

lemma response_not_masked: "cmd_isResponse (cmd p) \<Longrightarrow> \<not> isMaskedWrite p"
  by (auto simp: isMaskedWrite_def testCmdAttrib_def)

lemma line_response_data:
  assumes "line_response cf p" and "length d = unat (cc_blkSize cf)"
  shows "writeDataToBlock p d (cc_blkSize cf) = Inr (pkt_data p)"
  using assms response_not_masked [of p]
  by (simp add: line_response_def writeDataToBlock_def getOffset_def getAddr_def writeData_def getConstPtr_def
      getSize_def memcpy_def)

lemma fill_coherence_total:
  assumes "blk_valid b" "cmd pkt \<noteq> InvalidateResp" "isReadOnly cf \<longrightarrow> hasSharers pkt \<or> \<not> cacheResponding pkt"
  shows "fill_coherence cf pkt b =
    Inr (b\<lparr>coherence := coherence b OR (if hasSharers pkt then ReadableBit
        else if cacheResponding pkt then ReadableBit OR WritableBit OR DirtyBit else ReadableBit OR WritableBit)\<rparr>)"
  using assms by (auto simp: fill_coherence_def setCoherenceBits_def or.assoc require_def)

text \<open>What the temporary block holds after a fill.\<close>

definition filled_temp :: "cache_conf \<Rightarrow> 's tag_ops \<Rightarrow> cache_env \<Rightarrow> packet \<Rightarrow> temp_cache_blk \<Rightarrow> temp_cache_blk" where
  "filled_temp cf ops env pkt tb =
     \<lparr>temp_blk = (temp_blk tb)\<lparr>blk_valid := True, blk_tag := to_extractTag ops (pkt_addr pkt),
        blk_index_bits := to_extractIndex ops (pkt_addr pkt), blk_secure := pkt_isSecure pkt,
        blk_domainID := pkt_domainID pkt,
        coherence := coherence (temp_blk tb) OR (if hasSharers pkt then ReadableBit
          else if cacheResponding pkt then ReadableBit OR WritableBit OR DirtyBit else ReadableBit OR WritableBit),
        blk_data := pkt_data pkt,
        whenReady := clockEdge env (fillLatency cf) + ucast (headerDelay pkt) + ucast (payloadDelay pkt)\<rparr>,
      temp_addr = pkt_addr pkt\<rparr>"

lemma upd_stats_fields [simp]:
  "c_tags (upd_stats f c) = c_tags c" "tempBlock (upd_stats f c) = tempBlock c"
  "mshrQueue (upd_stats f c) = mshrQueue c" "writeBuffer (upd_stats f c) = writeBuffer c"
  by (simp_all add: upd_stats_def)

lemma findMatch_stats [simp]:
  "wb_findMatch a s d (upd_stats f c) = wb_findMatch a s d c" "mq_findMatch a s d (upd_stats f c) = mq_findMatch a s d c"
  by (simp_all add: wb_findMatch_def mq_findMatch_def)

lemma noFillLower_flags [simp]:
  "pkt_isSet (setNoFillLower p) VALID_SIZE = pkt_isSet p VALID_SIZE"
  "pkt_isSet (setNoFillLower p) VALID_ADDR = pkt_isSet p VALID_ADDR"
  "pkt_isSet (setNoFillLower p) (STATIC_DATA OR DYNAMIC_DATA) = pkt_isSet p (STATIC_DATA OR DYNAMIC_DATA)"
  "hasSharers (setNoFillLower p) = hasSharers p" "cacheResponding (setNoFillLower p) = cacheResponding p"
  "cmd (setNoFillLower p) = cmd p" "pkt_data (setNoFillLower p) = pkt_data p" "pkt_size (setNoFillLower p) = pkt_size p"
  "pkt_addr (setNoFillLower p) = pkt_addr p" "pkt_isSecure (setNoFillLower p) = pkt_isSecure p"
  "pkt_domainID (setNoFillLower p) = pkt_domainID p" "headerDelay (setNoFillLower p) = headerDelay p"
  "payloadDelay (setNoFillLower p) = payloadDelay p" "isNoFillLower (setNoFillLower p)"
  "isMayNotFill (setNoFillLower p) = isMayNotFill p"
  by (simp_all add: setNoFillLower_def pkt_isSet_setFlag hasSharers_def cacheResponding_def pkt_domainID_def
      packet_flag_defs flag_isSet_def)

lemma line_response_noFillLower [simp]: "line_response cf (setNoFillLower p) = line_response cf p"
  by (simp add: line_response_def)

lemma read_not_invalidate: "cmd_isRead c \<Longrightarrow> c \<noteq> InvalidateResp"
  by (auto simp: testCmdAttrib_def)

lemma fill_target_temp:
  assumes "nofillEn cf" "cmd_hasData (cmd pkt)" "temp_idle cf (tempBlock c)"
  shows "fill_target cf ops env pkt a s False wbs c = Inr (setNoFillLower pkt, TempBlk, wbs,
    c\<lparr>tempBlock := \<lparr>temp_blk = (temp_blk (tempBlock c))\<lparr>blk_valid := True, blk_tag := to_extractTag ops a,
        blk_index_bits := to_extractIndex ops a, blk_secure := s, blk_domainID := pkt_domainID pkt\<rparr>,
      temp_addr = a\<rparr>\<rparr>)"
  using assms by (cases s) (simp_all add: fill_target_def temp_insert_def entry_insert_index_def setValid_def temp_idle_def Let_def)

lemma finish_fill_temp:
  assumes r: "line_response cf pkt" and tb: "tempBlock c = \<lparr>temp_blk = b, temp_addr = a\<rparr>"
    and b: "blk_valid b" "blk_secure b = s" "blk_domainID b = pkt_domainID pkt" "blk_tickInserted b = 0"
      "length (blk_data b) = unat (cc_blkSize cf)"
  shows "finish_fill cf ops env pkt a s TempBlk c = Inr (c\<lparr>tempBlock := \<lparr>temp_blk = b\<lparr>
     coherence := coherence b OR (if hasSharers pkt then ReadableBit
          else if cacheResponding pkt then ReadableBit OR WritableBit OR DirtyBit else ReadableBit OR WritableBit),
        blk_data := pkt_data pkt,
        whenReady := clockEdge env (fillLatency cf) + ucast (headerDelay pkt) + ucast (payloadDelay pkt)\<rparr>, temp_addr = a\<rparr>\<rparr>)"
proof -
  have rd: "cmd_isRead (cmd pkt)" "cmd_hasData (cmd pkt)" "pkt_isSet pkt VALID_SIZE" "pkt_size pkt = cc_blkSize cf"
    "isReadOnly cf \<longrightarrow> hasSharers pkt \<or> \<not> cacheResponding pkt"
    using r by (simp_all add: line_response_def)
  note co = fill_coherence_total [OF b(1) read_not_invalidate [OF rd(1)] rd(5)]
  show ?thesis
    using b rd by (simp add: finish_fill_def tb co getSize_def updateBlockData_def line_response_data [OF r] setWhenReady_def)
qed

lemma resp_fill_no_fill:
  assumes cf: "nofillEn cf" and r: "line_response cf pkt" and idle: "temp_idle cf (tempBlock c)"
    and miss: "to_findBlock ops (pkt_addr pkt) (pkt_isSecure pkt) (pkt_domainID pkt) (c_tags c) = Inr None"
    and wb: "wb_findMatch (pkt_addr pkt) (pkt_isSecure pkt) (pkt_domainID pkt) c = Inr None"
    and m: "\<not> wasWholeLineWrite m" "\<not> isForward m" "\<not> allow_fill m pkt"
    and lvl: "\<not> (cacheLevel cf = 2 \<and> isNoFillLower pkt)"
  shows "resp_fill cf ops env m pkt wbs c = Inr (setNoFillLower pkt, Some TempBlk, wbs,
    (upd_stats (count_nofill m pkt) c)\<lparr>tempBlock := filled_temp cf ops env pkt (tempBlock c)\<rparr>)"
proof -
  have f: "cmd_isResponse (cmd pkt)" "cmd_isRead (cmd pkt)" "cmd_hasData (cmd pkt)" "\<not> cmd_isError (cmd pkt)"
    "pkt_isSet pkt VALID_ADDR" "pkt_addr pkt AND ucast (cc_blkSize cf - 1) = 0" using r by (simp_all add: line_response_def)
  have fa: "fill_allocates (writeAllocator c) m pkt = False" using m by (simp add: fill_allocates_def split: option.splits)
  let ?c = "upd_stats (count_nofill m pkt) c"
  have idle': "temp_idle cf (tempBlock ?c)" using idle by simp
  let ?b = "(temp_blk (tempBlock c))\<lparr>blk_valid := True, blk_tag := to_extractTag ops (pkt_addr pkt),
        blk_index_bits := to_extractIndex ops (pkt_addr pkt), blk_secure := pkt_isSecure pkt, blk_domainID := pkt_domainID pkt\<rparr>"
  have "finish_fill cf ops env (setNoFillLower pkt) (pkt_addr pkt) (pkt_isSecure pkt) TempBlk
      (?c\<lparr>tempBlock := \<lparr>temp_blk = ?b, temp_addr = pkt_addr pkt\<rparr>\<rparr>) =
      Inr (?c\<lparr>tempBlock := filled_temp cf ops env pkt (tempBlock c)\<rparr>)"
    using idle by (subst finish_fill_temp [where b = ?b]) (simp_all add: r temp_idle_def filled_temp_def)
  moreover have "fill_target cf ops env pkt (pkt_addr pkt) (pkt_isSecure pkt) False wbs ?c = Inr (setNoFillLower pkt, TempBlk, wbs,
      ?c\<lparr>tempBlock := \<lparr>temp_blk = ?b, temp_addr = pkt_addr pkt\<rparr>\<rparr>)"
    using fill_target_temp [OF cf f(3) idle', of ops env "pkt_addr pkt" "pkt_isSecure pkt" wbs] by simp
  ultimately have "handleFill cf ops env pkt None wbs False ?c = Inr (setNoFillLower pkt, TempBlk, wbs,
      ?c\<lparr>tempBlock := filled_temp cf ops env pkt (tempBlock c)\<rparr>)"
    using f wb by (simp add: handleFill_def getAddr_def isSecure_def getBlockAddr_def aligned_block)
  then show ?thesis
    using f m miss lvl by (simp add: resp_fill_def getAddr_def isSecure_def is_fill_def fa)
qed

section \<open>Evicting the temporary block\<close>

lemma wb_request_Inr:
  "\<exists>req. wb_request cf env a b = Inr req \<and> hasPaddr req \<and> hasSize req \<and> req_paddr req = a \<and>
     req_size req = cc_blkSize cf \<and> getDomainID req = blk_domainID b \<and> req_isSecure req = blk_secure b \<and>
     \<not> req_isHTMCmd req \<and> \<not> req_isNoFill req \<and> \<not> req_isUncacheable req"
  by (cases "blk_secure b")
    (simp_all add: wb_request_def new_request_def setDomainID_def setFlags_def hasPaddr_def hasVaddr_def hasSize_def
      getDomainID_def req_isSecure_def req_isHTMCmd_def req_isNoFill_def req_isUncacheable_def Let_def
      flag_isSet_def flag_set_def request_flag_defs VALID_PADDR_def REQ_VALID_SIZE_def VALID_DOMAIN_ID_def VALID_VADDR_def)

lemma new_packet_wb:
  assumes "hasPaddr req" "hasSize req" "\<not> req_isHTMCmd req"
  shows "\<exists>p. new_packet req k = Inr p \<and> cmd p = k \<and> pkt_req p = req \<and> pkt_addr p = req_paddr req \<and>
    pkt_isSecure p = req_isSecure req \<and> pkt_size p = req_size req \<and> pkt_isSet p VALID_ADDR \<and> pkt_isSet p VALID_SIZE \<and>
    flag_noneSet (pkt_flags p) (STATIC_DATA OR DYNAMIC_DATA)"
  using assms
  by (simp add: new_packet_def Let_def pkt_isSet_def pkt_setFlag_def setMayNotFill_def flag_isSet_def flag_set_def
      flag_noneSet_def packet_flag_defs)

lemma allocate_line:
  assumes "cmd_hasData (cmd p)" "pkt_isSet p VALID_SIZE" "flag_noneSet (pkt_flags p) (STATIC_DATA OR DYNAMIC_DATA)"
  shows "allocate p fresh = Inr ((pkt_setFlag DYNAMIC_DATA p)\<lparr>pkt_data := take (unat (pkt_size p)) fresh\<rparr>)"
  using assms by (simp add: allocate_def getSize_def)

lemma setDataFromBlock_line:
  assumes "cmd p \<noteq> WriteReq" "pkt_isSet p VALID_ADDR" "pkt_isSet p VALID_SIZE" "pkt_isSet p (STATIC_DATA OR DYNAMIC_DATA)"
    "pkt_addr p AND ucast (bs - 1) = 0" "pkt_size p = bs" "length d = unat bs" "length (pkt_data p) = unat bs"
  shows "setDataFromBlock d bs p = Inr (p\<lparr>pkt_data := d\<rparr>)"
  using assms by (simp add: setDataFromBlock_def getOffset_def getAddr_def setData_def getPtr_def isMaskedWrite_def
      getSize_def memcpy_def)

lemma hasSharers_flags:
  "pkt_isSet (setHasSharers p) VALID_ADDR = pkt_isSet p VALID_ADDR"
  "pkt_isSet (setHasSharers p) VALID_SIZE = pkt_isSet p VALID_SIZE"
  "flag_noneSet (pkt_flags (setHasSharers p)) (STATIC_DATA OR DYNAMIC_DATA) =
     flag_noneSet (pkt_flags p) (STATIC_DATA OR DYNAMIC_DATA)"
  by (simp_all add: setHasSharers_def pkt_isSet_setFlag HAS_SHARERS_def VALID_ADDR_def VALID_SIZE_def flag_isSet_def)
    (simp add: flag_noneSet_def pkt_setFlag_def flag_set_def STATIC_DATA_def DYNAMIC_DATA_def bit.conj_disj_distrib2)

lemma take_data_temp:
  assumes tb: "tempBlock c = \<lparr>temp_blk = b, temp_addr = a\<rparr>" and p: "cmd_hasData (cmd p)" "cmd p \<noteq> WriteReq"
      "pkt_isSet p VALID_ADDR" "pkt_isSet p VALID_SIZE" "flag_noneSet (pkt_flags p) (STATIC_DATA OR DYNAMIC_DATA)"
      "pkt_addr p AND ucast (cc_blkSize cf - 1) = 0" "pkt_size p = cc_blkSize cf"
    and len: "length (blk_data b) = unat (cc_blkSize cf)" "unat (cc_blkSize cf) \<le> length (fresh_mem env)"
  shows "\<exists>p' x. take_data cf env p TempBlk c = Inr (p', c\<lparr>tempBlock := \<lparr>temp_blk = b\<lparr>coherence := x\<rparr>, temp_addr = a\<rparr>\<rparr>) \<and>
    pkt_data p' = blk_data b \<and> pkt_addr p' = pkt_addr p \<and> pkt_req p' = pkt_req p \<and> cmd p' = cmd p \<and>
    pkt_isSecure p' = pkt_isSecure p \<and> pkt_size p' = pkt_size p \<and> pkt_isSet p' VALID_ADDR \<and> pkt_isSet p' VALID_SIZE"
proof -
  define p1 where "p1 = (if blk_isSet b WritableBit then p else setHasSharers p)"
  have p1: "cmd p1 = cmd p" "pkt_isSet p1 VALID_ADDR" "pkt_isSet p1 VALID_SIZE" "pkt_addr p1 = pkt_addr p"
    "pkt_size p1 = pkt_size p" "pkt_req p1 = pkt_req p" "pkt_isSecure p1 = pkt_isSecure p"
    "flag_noneSet (pkt_flags p1) (STATIC_DATA OR DYNAMIC_DATA)"
    using p hasSharers_flags [of p] by (simp_all add: p1_def setHasSharers_def)
  define p2 where "p2 = (pkt_setFlag DYNAMIC_DATA p1)\<lparr>pkt_data := take (unat (pkt_size p1)) (fresh_mem env)\<rparr>"
  have al: "allocate p1 (fresh_mem env) = Inr p2"
    unfolding p2_def by (rule allocate_line) (use p p1 in simp_all)
  have set2: "pkt_isSet p2 k \<longleftrightarrow> pkt_isSet p1 k \<or> flag_isSet DYNAMIC_DATA k" for k
    using pkt_isSet_setFlag [of DYNAMIC_DATA p1 k] by (simp add: p2_def pkt_isSet_def)
  have dyn: "flag_isSet DYNAMIC_DATA (STATIC_DATA OR DYNAMIC_DATA)"
    by (simp add: flag_isSet_def STATIC_DATA_def DYNAMIC_DATA_def)
  have sd: "setDataFromBlock (blk_data b) (cc_blkSize cf) p2 = Inr (p2\<lparr>pkt_data := blk_data b\<rparr>)"
    by (rule setDataFromBlock_line) (use p p1 len set2 dyn in \<open>simp_all add: p2_def\<close>)
  let ?b = "clearCoherenceBits DirtyBit (if blk_isSet b WritableBit then clearCoherenceBits WritableBit b else b)"
  have b: "\<exists>x. ?b = b\<lparr>coherence := x\<rparr>" "blk_data ?b = blk_data b" by (auto simp: clearCoherenceBits_def)
  have "take_data cf env p TempBlk c = Inr (p2\<lparr>pkt_data := blk_data b\<rparr>, c\<lparr>tempBlock := \<lparr>temp_blk = ?b, temp_addr = a\<rparr>\<rparr>)"
    unfolding take_data_def Let_def p1_def [symmetric] using al sd b(2) tb by (simp add: p1_def [symmetric])
  moreover have "pkt_isSet (p2\<lparr>pkt_data := blk_data b\<rparr>) k = pkt_isSet p2 k" for k by (simp add: pkt_isSet_def)
  ultimately show ?thesis
    using b(1) p1 set2 by (intro exI [of _ "p2\<lparr>pkt_data := blk_data b\<rparr>"]) (auto simp: p2_def)
qed

text \<open>The packet that carries an evicted line.\<close>

definition carries :: "cache_conf \<Rightarrow> addr \<Rightarrow> cache_blk \<Rightarrow> packet \<Rightarrow> bool" where
  "carries cf a b p \<longleftrightarrow> pkt_addr p = a \<and> pkt_isSecure p = blk_secure b \<and> pkt_domainID p = blk_domainID b \<and>
     pkt_size p = cc_blkSize cf \<and> pkt_isSet p VALID_ADDR \<and> pkt_isSet p VALID_SIZE \<and>
     cmd p = (if blk_isSet b DirtyBit then WritebackDirty else if writebackClean cf then WritebackClean else CleanEvict) \<and>
     (cmd p \<noteq> CleanEvict \<longrightarrow> pkt_data p = blk_data b)"

lemma writeback_temp:
  assumes tb: "tempBlock c = \<lparr>temp_blk = b, temp_addr = a\<rparr>" and b: "blk_valid b" "blk_isSet b DirtyBit \<or> writebackClean cf"
    and ro: "\<not> isReadOnly cf \<or> writebackClean cf" and al: "a AND ucast (cc_blkSize cf - 1) = 0"
    and len: "length (blk_data b) = unat (cc_blkSize cf)" "unat (cc_blkSize cf) \<le> length (fresh_mem env)"
  shows "\<exists>p x f. writebackBlk cf ops env TempBlk c = Inr (p, (upd_stats f c)\<lparr>tempBlock := \<lparr>temp_blk = b\<lparr>coherence := x\<rparr>, temp_addr = a\<rparr>\<rparr>) \<and>
    carries cf a b p"
proof -
  let ?k = "if blk_isSet b DirtyBit then WritebackDirty else WritebackClean"
  let ?f = "\<lambda>s. s\<lparr>num_writebacks := num_writebacks s + 1\<rparr>"
  obtain req where req: "wb_request cf env a b = Inr req" "hasPaddr req" "hasSize req" "req_paddr req = a"
    "req_size req = cc_blkSize cf" "getDomainID req = blk_domainID b" "req_isSecure req = blk_secure b" "\<not> req_isHTMCmd req"
    using wb_request_Inr by blast
  obtain p where p: "new_packet req ?k = Inr p" "cmd p = ?k" "pkt_req p = req" "pkt_addr p = a" "pkt_isSecure p = blk_secure b"
    "pkt_size p = cc_blkSize cf" "pkt_isSet p VALID_ADDR" "pkt_isSet p VALID_SIZE"
    "flag_noneSet (pkt_flags p) (STATIC_DATA OR DYNAMIC_DATA)"
    using new_packet_wb [OF req(2,3,8), of ?k] req by auto
  have k: "cmd_hasData ?k" "?k \<noteq> WriteReq" by (simp_all add: testCmdAttrib_def)
  have "\<exists>p' x. take_data cf env p TempBlk (upd_stats ?f c) = Inr (p', (upd_stats ?f c)\<lparr>tempBlock := \<lparr>temp_blk = b\<lparr>coherence := x\<rparr>, temp_addr = a\<rparr>\<rparr>) \<and>
    pkt_data p' = blk_data b \<and> pkt_addr p' = pkt_addr p \<and> pkt_req p' = pkt_req p \<and> cmd p' = cmd p \<and>
    pkt_isSecure p' = pkt_isSecure p \<and> pkt_size p' = pkt_size p \<and> pkt_isSet p' VALID_ADDR \<and> pkt_isSet p' VALID_SIZE"
    by (rule take_data_temp) (use p k tb al len in simp_all)
  then obtain p' x where t: "take_data cf env p TempBlk (upd_stats ?f c) = Inr (p', (upd_stats ?f c)\<lparr>tempBlock := \<lparr>temp_blk = b\<lparr>coherence := x\<rparr>, temp_addr = a\<rparr>\<rparr>)"
    and p': "pkt_data p' = blk_data b" "pkt_addr p' = pkt_addr p" "pkt_req p' = pkt_req p" "cmd p' = cmd p"
      "pkt_isSecure p' = pkt_isSecure p" "pkt_size p' = pkt_size p" "pkt_isSet p' VALID_ADDR" "pkt_isSet p' VALID_SIZE"
    by blast
  have "writebackBlk cf ops env TempBlk c = Inr (p', (upd_stats ?f c)\<lparr>tempBlock := \<lparr>temp_blk = b\<lparr>coherence := x\<rparr>, temp_addr = a\<rparr>\<rparr>)"
    using tb b ro req(1) p(1) t by (simp add: writebackBlk_def)
  moreover have "carries cf a b p'" using p p' req b by (auto simp: carries_def pkt_domainID_def)
  ultimately show ?thesis by blast
qed

lemma clean_evict_temp:
  assumes tb: "tempBlock c = \<lparr>temp_blk = b, temp_addr = a\<rparr>" and b: "blk_valid b" "\<not> blk_isSet b DirtyBit" "\<not> writebackClean cf"
  shows "\<exists>p. cleanEvictBlk cf ops env TempBlk c = Inr p \<and> carries cf a b p"
proof -
  obtain req where req: "wb_request cf env a b = Inr req" "hasPaddr req" "hasSize req" "req_paddr req = a"
    "req_size req = cc_blkSize cf" "getDomainID req = blk_domainID b" "req_isSecure req = blk_secure b" "\<not> req_isHTMCmd req"
    using wb_request_Inr by blast
  obtain p where p: "new_packet req CleanEvict = Inr p" "cmd p = CleanEvict" "pkt_req p = req" "pkt_addr p = a"
    "pkt_isSecure p = blk_secure b" "pkt_size p = cc_blkSize cf" "pkt_isSet p VALID_ADDR" "pkt_isSet p VALID_SIZE"
    using new_packet_wb [OF req(2,3,8), of CleanEvict] req by auto
  have "allocate p (fresh_mem env) = Inr p" by (simp add: allocate_def p hasRespData_def responseCommand_def testCmdAttrib_def)
  then show ?thesis using tb b req p by (simp add: cleanEvictBlk_def carries_def pkt_domainID_def)
qed

lemma invalidate_temp:
  assumes "tempBlock c = \<lparr>temp_blk = b, temp_addr = a\<rparr>"
    and "length (blk_data b) = unat (cc_blkSize cf)" "blk_tickInserted b = 0"
  shows "\<exists>c2. invalidateBlock cf ops TempBlk c = Inr c2 \<and> c_tags c2 = c_tags c \<and> mshrQueue c2 = mshrQueue c \<and>
    writeBuffer c2 = writeBuffer c \<and> temp_idle cf (tempBlock c2)"
  using assms by (simp add: invalidateBlock_def updateBlockData_def temp_invalidate_def temp_idle_def blk_invalidate_def
      entry_invalidate_def clearCoherenceBits_def and.assoc Let_def)

lemma drop_temp_carries:
  assumes tb: "tempBlock c = \<lparr>temp_blk = b, temp_addr = a\<rparr>" and v: "blk_valid b" and z: "blk_tickInserted b = 0"
    and ro: "isReadOnly cf \<longrightarrow> writebackClean cf \<or> \<not> blk_isSet b DirtyBit" and al: "a AND ucast (cc_blkSize cf - 1) = 0"
    and len: "length (blk_data b) = unat (cc_blkSize cf)" "unat (cc_blkSize cf) \<le> length (fresh_mem env)"
  shows "\<exists>p c'. drop_temp cf ops env (Some TempBlk) (wbs, c) = Inr (wbs @ [p], c') \<and> carries cf a b p \<and> isMayNotFill p \<and>
    c_tags c' = c_tags c \<and> mshrQueue c' = mshrQueue c \<and> writeBuffer c' = writeBuffer c \<and> temp_idle cf (tempBlock c')"
proof -
  have "\<exists>p x f. (if blk_isSet b DirtyBit \<or> writebackClean cf then writebackBlk cf ops env TempBlk c
        else bind_result (cleanEvictBlk cf ops env TempBlk c) (\<lambda>pkt. Inr (pkt, c))) =
      Inr (p, (upd_stats f c)\<lparr>tempBlock := \<lparr>temp_blk = b\<lparr>coherence := x\<rparr>, temp_addr = a\<rparr>\<rparr>) \<and> carries cf a b p"
  proof (cases "blk_isSet b DirtyBit \<or> writebackClean cf")
    case True
    then show ?thesis using writeback_temp [OF tb v True _ al len] ro by auto
  next
    case False
    then obtain p where "cleanEvictBlk cf ops env TempBlk c = Inr p" "carries cf a b p"
      using clean_evict_temp [OF tb v] by blast
    moreover have "(upd_stats (\<lambda>s. s) c)\<lparr>tempBlock := \<lparr>temp_blk = b\<lparr>coherence := coherence b\<rparr>, temp_addr = a\<rparr>\<rparr> = c"
      using tb by (simp add: upd_stats_def)
    ultimately show ?thesis using False
      by (intro exI [of _ p] exI [of _ "coherence b"] exI [of _ "\<lambda>s. s"]) simp
  qed
  then obtain p x f where e: "(if blk_isSet b DirtyBit \<or> writebackClean cf then writebackBlk cf ops env TempBlk c
        else bind_result (cleanEvictBlk cf ops env TempBlk c) (\<lambda>pkt. Inr (pkt, c))) =
      Inr (p, (upd_stats f c)\<lparr>tempBlock := \<lparr>temp_blk = b\<lparr>coherence := x\<rparr>, temp_addr = a\<rparr>\<rparr>)" and p: "carries cf a b p"
    by blast
  obtain c2 where c2: "invalidateBlock cf ops TempBlk ((upd_stats f c)\<lparr>tempBlock := \<lparr>temp_blk = b\<lparr>coherence := x\<rparr>, temp_addr = a\<rparr>\<rparr>) = Inr c2"
    "c_tags c2 = c_tags c" "mshrQueue c2 = mshrQueue c" "writeBuffer c2 = writeBuffer c" "temp_idle cf (tempBlock c2)"
    using invalidate_temp [of "(upd_stats f c)\<lparr>tempBlock := \<lparr>temp_blk = b\<lparr>coherence := x\<rparr>, temp_addr = a\<rparr>\<rparr>" "b\<lparr>coherence := x\<rparr>" a cf ops]
      len z by auto
  have "evict_packet cf ops env TempBlk c = Inr (p, c2)" using e c2(1) tb by (simp add: evict_packet_def)
  then have "drop_temp cf ops env (Some TempBlk) (wbs, c) = Inr (wbs @ [setMayNotFill p], c2)"
    using tb v by (simp add: drop_temp_def evictBlock_def)
  moreover have "carries cf a b (setMayNotFill p)" "isMayNotFill (setMayNotFill p)"
    using p by (simp_all add: carries_def setMayNotFill_def isMayNotFill_def pkt_isSet_setFlag pkt_domainID_def flag_isSet_def MAY_NOT_FILL_def)
  ultimately show ?thesis using c2 by blast
qed

section \<open>A no-fill response leaves the cache as it was\<close>

lemma filled_temp_fields:
  assumes "line_response cf pkt" "temp_idle cf tb"
  shows "blk_valid (temp_blk (filled_temp cf ops env pkt tb))" "blk_tickInserted (temp_blk (filled_temp cf ops env pkt tb)) = 0"
    "blk_domainID (temp_blk (filled_temp cf ops env pkt tb)) = pkt_domainID pkt"
    "blk_secure (temp_blk (filled_temp cf ops env pkt tb)) = pkt_isSecure pkt"
    "blk_data (temp_blk (filled_temp cf ops env pkt tb)) = pkt_data pkt"
    "temp_addr (filled_temp cf ops env pkt tb) = pkt_addr pkt"
    "blk_isSet (temp_blk (filled_temp cf ops env pkt tb)) DirtyBit \<longleftrightarrow> cacheResponding pkt \<and> \<not> hasSharers pkt"
proof -
  have "coherence (temp_blk tb) AND DirtyBit = (coherence (temp_blk tb) AND AllBits) AND DirtyBit"
    by (simp add: coherence_defs and.assoc)
  then have "coherence (temp_blk tb) AND DirtyBit = 0" using assms(2) by (simp add: temp_idle_def)
  then show "blk_isSet (temp_blk (filled_temp cf ops env pkt tb)) DirtyBit \<longleftrightarrow> cacheResponding pkt \<and> \<not> hasSharers pkt"
    by (simp add: filled_temp_def blk_isSet_def bit.conj_disj_distrib2) (simp add: coherence_defs)
qed (use assms in \<open>simp_all add: filled_temp_def temp_idle_def line_response_def\<close>)

definition demo_conf :: cache_conf where
  "demo_conf = \<lparr>cc_blkSize = 4, cacheLevel = 1, nofillEn = True, pfAckEn = True, isReadOnly = False,
     writebackClean = False, mostly_incl = True, numTarget = 8, maxRequestors = 8, fillLatency = 1,
     cc_lookupLatency = 1, dataLatency = 1, forwardLatency = 1, responseLatency = 1, cc_sequentialAccess = False,
     forwardSnoops = False, cc_prefetcher = False, shbInsertSt = False, pfInsertStLd = False, pfInsertMiss = False,
     inRange = (\<lambda>_. True)\<rparr>"

definition demo_env :: cache_env where
  "demo_env = \<lparr>ce_now = 9, clockEdge = (\<lambda>n. 10 + n), fresh_mem = [7, 7, 7, 7], fresh_domain = 0, is_mshr = (\<lambda>_. False),
     mshr_state = id, clockPeriod = 1, snoop_above = id, amo = (\<lambda>_. id)\<rparr>"

definition demo_ops :: "(nat \<Rightarrow> lru_data) tag_ops" where
  "demo_ops = nr_store demo_nr_idx (lru_rp 5) 6"

definition demo_cache :: "(nat \<Rightarrow> lru_data) cache" where
  "demo_cache = \<lparr>c_tags = demo_nr_tags, tempBlock = \<lparr>temp_blk = demo_blk\<lparr>blk_data := [0, 0, 0, 0]\<rparr>, temp_addr = MaxAddr\<rparr>,
     mshrQueue = new_mshr_queue (new_target_list 0 0 True) 2 1 0, writeBuffer = new_write_queue 2 1, blocked = 0, order = 0,
     noTargetMSHR = None, writeAllocator = None,
     c_stats = \<lparr>cacheFills = 0, replacements = 0, unusedPrefetches = 0, num_writebacks = 0, nofillMshrServiced = 0,
       noFillLowerMshr = 0, pfAckHit = 0, demandAckHitNofill = 0, shbMshrCanFill = 0\<rparr>\<rparr>"

definition demo_resp :: packet where
  "demo_resp = (pkt_setFlag (VALID_ADDR OR VALID_SIZE OR DYNAMIC_DATA OR CACHE_RESPONDING)
     (new_packet_blk (setDomainID 9 (new_request 9 0 0x1000 4 NO_FILL 1)) ReadResp 4))\<lparr>pkt_data := [1, 2, 3, 4]\<rparr>"



end
