(* ===== verification/Quiet_Response.thy ===== *)
theory Quiet_Response
  imports Cache_Send No_Fill
begin

text \<open>
  The response to a register that may not fill never touches the tag store: every handler on the way,
  from the fill of the temporary block over the service of the targets to the write-back of the temporary
  block, works on the temporary block and the queues only.
\<close>

section \<open>Handlers that do not touch the tag store\<close>

named_theorems tags_kept

lemma upd_stats_tags [simp]: "c_tags (upd_stats f c) = c_tags c" by (simp add: upd_stats_def)

lemma setBlocked_tags [simp]: "c_tags (setBlocked k c) = c_tags c" by (simp add: setBlocked_def)

lemma clearBlocked_tags [simp]: "c_tags (clearBlocked k c) = c_tags c" by (simp add: clearBlocked_def)

lemma allocateWriteBuffer_tags [tags_kept]:
  "allocateWriteBuffer cf env pkt t c = Inr c' \<Longrightarrow> c_tags c' = c_tags c"
  by (auto simp: allocateWriteBuffer_def bind_result_eq_Inr require_eq_Inr Let_def split: if_splits)

lemma allocateMissBuffer_tags [tags_kept]:
  "allocateMissBuffer cf env pkt t cl c = Inr (h, calls, c') \<Longrightarrow> c_tags c' = c_tags c"
  by (auto simp: allocateMissBuffer_def bind_result_eq_Inr Let_def split: if_splits)

lemma doWriteback_tags: "doWriteback cf env t p c = Inr c' \<Longrightarrow> c_tags c' = c_tags c"
  by (auto simp: doWriteback_def bind_result_eq_Inr require_eq_Inr dest: tags_kept split: if_splits)

lemma doWritebacks_tags [tags_kept]: "doWritebacks cf env wbs t c = Inr c' \<Longrightarrow> c_tags c' = c_tags c"
  unfolding doWritebacks_def
  by (erule fold_result_invariant [where P = "\<lambda>x. c_tags x = c_tags c"]) (auto dest: doWriteback_tags)

section \<open>The temporary block\<close>

lemma updateBlockData_temp [tags_kept]:
  "updateBlockData cf ops TempBlk p c = Inr c' \<Longrightarrow> c_tags c' = c_tags c"
  by (auto simp: updateBlockData_def bind_result_eq_Inr split: option.splits)

lemma invalidateBlock_temp [tags_kept]: "invalidateBlock cf ops TempBlk c = Inr c' \<Longrightarrow> c_tags c' = c_tags c"
  by (auto simp: invalidateBlock_def bind_result_eq_Inr Let_def dest!: tags_kept split: if_splits)

lemma add_bits_temp [tags_kept]: "add_bits k TempBlk c = Inr c' \<Longrightarrow> c_tags c' = c_tags c"
  by (auto simp: add_bits_def bind_result_eq_Inr)

lemma satisfy_write_temp [tags_kept]:
  "satisfy_write cf ops pkt TempBlk b c = Inr (p, c') \<Longrightarrow> c_tags c' = c_tags c"
  by (auto simp: satisfy_write_def bind_result_eq_Inr require_eq_Inr Let_def dest!: tags_kept split: if_splits prod.splits)

lemma base_satisfyRequest_temp [tags_kept]:
  "base_satisfyRequest cf ops env pkt TempBlk c = Inr (p, c') \<Longrightarrow> c_tags c' = c_tags c"
  by (auto simp: base_satisfyRequest_def bind_result_eq_Inr require_eq_Inr Let_def dest!: tags_kept split: if_splits)

lemma satisfyRequest_temp [tags_kept]:
  "satisfyRequest cf ops env dr pd pkt TempBlk c = Inr (p, c') \<Longrightarrow> c_tags c' = c_tags c"
  by (auto simp: satisfyRequest_def bind_result_eq_Inr require_eq_Inr dest!: tags_kept split: if_splits)

lemma maintainClusivity_temp [tags_kept]:
  "maintainClusivity cf ops fc (Some TempBlk) c = Inr c' \<Longrightarrow> c_tags c' = c_tags c"
  "maintainClusivity cf ops fc None c = Inr c' \<Longrightarrow> c_tags c' = c_tags c"
  by (auto simp: maintainClusivity_def dest!: tags_kept split: if_splits)+

lemma writeclean_temp [tags_kept]:
  "writecleanBlk cf ops env d TempBlk c = Inr (p, c') \<Longrightarrow> c_tags c' = c_tags c"
  by (auto simp: writecleanBlk_def take_data_def bind_result_eq_Inr Let_def split: if_splits)

lemma snoop_clean_temp [tags_kept]:
  "snoop_clean cf ops env pkt (Some TempBlk) c = Inr (p, c') \<Longrightarrow> c_tags c' = c_tags c"
  "snoop_clean cf ops env pkt None c = Inr (p, c') \<Longrightarrow> c_tags c' = c_tags c"
  by (auto simp: snoop_clean_def bind_result_eq_Inr dest!: tags_kept split: if_splits)+

lemma snoop_block_temp [tags_kept]:
  "snoop_block cf ops env pkt TempBlk rs nw df pi c = Inr (p, evs, c') \<Longrightarrow> c_tags c' = c_tags c"
  by (auto simp: snoop_block_def bind_result_eq_Inr require_eq_Inr Let_def dest!: tags_kept split: if_splits)

lemma handleSnoop_temp [tags_kept]:
  "handleSnoop cf ops env pkt (Some TempBlk) df pi c = Inr (d, p, evs, c') \<Longrightarrow> c_tags c' = c_tags c"
  "handleSnoop cf ops env pkt None df pi c = Inr (d, p, evs, c') \<Longrightarrow> c_tags c' = c_tags c"
  by (auto simp: handleSnoop_def snoop_invalid_def bind_result_eq_Inr require_eq_Inr dest!: tags_kept split: if_splits)+

lemma serve_from_block_temp [tags_kept]:
  "serve_from_block cf ops env m pkt off TempBlk tgt c = Inr (p, t, c') \<Longrightarrow> c_tags c' = c_tags c"
  by (auto simp: serve_from_block_def count_cmd_def bind_result_eq_Inr require_eq_Inr Let_def dest!: tags_kept split: if_splits)

lemma serve_forward_temp [tags_kept]:
  "serve_forward cf ops env pkt iv rb tgt c = Inr (p, t, c') \<Longrightarrow> rb = None \<or> (\<exists>b. rb = Some (TempBlk, b)) \<Longrightarrow> c_tags c' = c_tags c"
  by (auto simp: serve_forward_def bind_result_eq_Inr dest!: tags_kept split: if_splits)

lemma serve_target_temp [tags_kept]:
  assumes "serve_target cf ops env m pkt off iv rb tgt c = Inr (p, t, c')" "rb = None \<or> (\<exists>b. rb = Some (TempBlk, b))"
  shows "c_tags c' = c_tags c"
  using assms by (auto simp: serve_target_def require_eq_Inr Let_def dest: tags_kept split: if_splits option.splits)

lemma blk_of_temp:
  "blk_of (Some TempBlk) c = Inr rb \<Longrightarrow> rb = None \<or> (\<exists>b. rb = Some (TempBlk, b))"
  "blk_of None c = Inr rb \<Longrightarrow> rb = None \<or> (\<exists>b. rb = Some (TempBlk, b))"
  by (auto simp: blk_of_def split: if_splits)

lemma service_cpu_temp [tags_kept]:
  "service_cpu cf ops env m pkt off iv (Some TempBlk) tgt c = Inr (evs, c') \<Longrightarrow> c_tags c' = c_tags c"
  "service_cpu cf ops env m pkt off iv None tgt c = Inr (evs, c') \<Longrightarrow> c_tags c' = c_tags c"
  by (auto simp: service_cpu_def bind_result_eq_Inr require_eq_Inr dest!: blk_of_temp dest: tags_kept split: if_splits)+

lemma service_target_temp:
  "service_target cf ops env m pkt off iv (Some TempBlk) t (evs, c) = Inr (evs', c') \<Longrightarrow> c_tags c' = c_tags c"
  "service_target cf ops env m pkt off iv None t (evs, c) = Inr (evs', c') \<Longrightarrow> c_tags c' = c_tags c"
  by (auto simp: service_target_def bind_result_eq_Inr require_eq_Inr dest!: tags_kept split: tgt_source.splits)+

lemma after_service_temp [tags_kept]:
  "after_service cf ops m iv (Some TempBlk) c = Inr c' \<Longrightarrow> c_tags c' = c_tags c"
  "after_service cf ops m iv None c = Inr c' \<Longrightarrow> c_tags c' = c_tags c"
  by (auto simp: after_service_def bind_result_eq_Inr dest!: blk_of_temp dest: tags_kept split: if_splits)+

lemma serviceMSHRTargets_temp:
  assumes "serviceMSHRTargets cf ops env m pkt blk c = Inr (evs, m', c')" and blk: "blk = None \<or> blk = Some TempBlk"
  shows "c_tags c' = c_tags c"
proof -
  obtain off iv m1 ts c1 fc c2 where f: "fold_result (service_target cf ops env m1 pkt off iv blk) ts ([], c) = Inr (evs, c1)"
    and "maintainClusivity cf ops fc blk c1 = Inr c2" "after_service cf ops m1 iv blk c2 = Inr c'"
    using assms by (auto simp: serviceMSHRTargets_def bind_result_eq_Inr Let_def)
  moreover have "c_tags (snd (evs, c1)) = c_tags c"
    using f by (rule fold_result_invariant [where P = "\<lambda>x. c_tags (snd x) = c_tags c"])
      (use blk in \<open>auto dest: service_target_temp\<close>)
  ultimately show ?thesis using blk by (auto dest!: tags_kept)
qed

lemma promote_targets_temp [tags_kept]:
  "promote_targets env pkt (Some TempBlk) m c = Inr (m', calls, c') \<Longrightarrow> c_tags c' = c_tags c"
  "promote_targets env pkt None m c = Inr (m', calls, c') \<Longrightarrow> c_tags c' = c_tags c"
  by (auto simp: promote_targets_def bind_result_eq_Inr Let_def dest!: blk_of_temp dest: tags_kept split: if_splits)+

lemma end_mshr_temp [tags_kept]:
  "end_mshr env h m (Some TempBlk) c = Inr c' \<Longrightarrow> c_tags c' = c_tags c"
  "end_mshr env h m None c = Inr c' \<Longrightarrow> c_tags c' = c_tags c"
  by (auto simp: end_mshr_def bind_result_eq_Inr Let_def split: if_splits)+

lemma writeback_temp_tags [tags_kept]: "writebackBlk cf ops env TempBlk c = Inr (p, c') \<Longrightarrow> c_tags c' = c_tags c"
  by (auto simp: writebackBlk_def take_data_def bind_result_eq_Inr require_eq_Inr Let_def split: if_splits)

lemma evict_temp [tags_kept]: "evictBlock cf ops env nf TempBlk (wbs, c) = Inr (wbs', c') \<Longrightarrow> c_tags c' = c_tags c"
  by (auto simp: evictBlock_def evict_packet_def bind_result_eq_Inr require_eq_Inr dest!: tags_kept split: if_splits)

lemma drop_temp_tags [tags_kept]:
  "drop_temp cf ops env r (wbs, c) = Inr (wbs', c') \<Longrightarrow> c_tags c' = c_tags c"
  by (auto simp: drop_temp_def dest!: tags_kept split: if_splits)

section \<open>No-fill responses\<close>

lemma handleFill_temp:
  assumes "handleFill cf ops env pkt None wbs False c = Inr (pkt', r, wbs', c')"
  shows "r = TempBlk \<and> wbs' = wbs \<and> c_tags c' = c_tags c \<and> isNoFillLower pkt'"
proof -
  obtain a s c1 where f: "fill_target cf ops env pkt a s False wbs c = Inr (pkt', r, wbs', c1)"
    and g: "finish_fill cf ops env pkt' a s r c1 = Inr c'"
    using assms by (auto simp: handleFill_def bind_result_eq_Inr require_eq_Inr)
  from f have 1: "r = TempBlk" "wbs' = wbs" "isNoFillLower pkt'" "c_tags c1 = c_tags c"
    by (auto simp: fill_target_def bind_result_eq_Inr require_eq_Inr)
  from g 1 have "c_tags c' = c_tags c1"
    by (auto simp: finish_fill_def bind_result_eq_Inr require_eq_Inr dest!: tags_kept split: if_splits)
  with 1 show ?thesis by simp
qed

lemma resp_fill_temp:
  assumes "resp_fill cf ops env m pkt wbs c = Inr (pkt', blk, wbs', c')"
    and "tl_mayNotFill (targets m)" "\<not> wasWholeLineWrite m \<or> writeAllocator c = None"
    and "\<And>a s. getAddr pkt = Inr a \<Longrightarrow> isSecure pkt = Inr s \<Longrightarrow> to_findBlock ops a s (pkt_domainID pkt) (c_tags c) = Inr None"
  shows "(blk = None \<or> blk = Some TempBlk) \<and> wbs' = wbs \<and> c_tags c' = c_tags c"
proof -
  have na: "\<not> allow_fill m pkt" "\<not> fill_allocates (writeAllocator c) m pkt"
    using assms(2,3) by (auto simp: allow_fill_def fill_allocates_def split: option.splits)
  then show ?thesis using assms(1,4)
    by (auto simp: resp_fill_def bind_result_eq_Inr require_eq_Inr dest!: handleFill_temp split: if_splits)
qed

lemma resp_mshr_no_fill:
  assumes "resp_mshr cf ops env h pkt c = Inr (evs, calls, c')"
    and "tl_mayNotFill (targets (entry_of (mshrQueue c) h))"
    and "\<not> wasWholeLineWrite (entry_of (mshrQueue c) h) \<or> writeAllocator c = None"
    and "\<And>a s. getAddr pkt = Inr a \<Longrightarrow> isSecure pkt = Inr s \<Longrightarrow> to_findBlock ops a s (pkt_domainID pkt) (c_tags c) = Inr None"
  shows "c_tags c' = c_tags c"
proof -
  let ?m = "entry_of (mshrQueue c) h"
  obtain pkt1 blk wbs c1 m1 calls c2 m2 c3 c4 wbs1 c5 t where
    1: "resp_fill cf ops env ?m pkt [] c = Inr (pkt1, blk, wbs, c1)"
    and 2: "promote_targets env pkt1 blk ?m c1 = Inr (m1, calls, c2)"
    and 3: "serviceMSHRTargets cf ops env m1 pkt1 blk c2 = Inr (evs, m2, c3)"
    and 4: "end_mshr env h m2 blk c3 = Inr c4" and 5: "drop_temp cf ops env blk (wbs, c4) = Inr (wbs1, c5)"
    and 6: "doWritebacks cf env wbs1 t c5 = Inr c'"
    using assms(1) by (auto simp: resp_mshr_def count_cmd_def bind_result_eq_Inr require_eq_Inr Let_def)
  from resp_fill_temp [OF 1 assms(2-4)] have b: "blk = None \<or> blk = Some TempBlk" "c_tags c1 = c_tags c" by auto
  with 2 have "c_tags c2 = c_tags c" by (auto dest: tags_kept)
  moreover have "c_tags c3 = c_tags c2" using serviceMSHRTargets_temp [OF 3 b(1)] .
  moreover have "c_tags c4 = c_tags c3" using 4 b(1) by (auto dest: tags_kept)
  moreover have "c_tags c5 = c_tags c4" "c_tags c' = c_tags c5" using 5 6 by (auto dest: tags_kept)
  ultimately show ?thesis by simp
qed

end
