(* ===== verification/Cache_Safety.thy ===== *)
theory Cache_Safety
  imports Quiet_Response
begin

text \<open>
  Loads that must not fill leave no footprint in a cache in no-fill mode, whatever they hit or miss and
  in whatever order requests, responses, acknowledgements and sends follow each other.
\<close>

section \<open>The footprint of a cache\<close>

text \<open>
  What another program can learn by probing: which lines are present, in which domain, and the state of the
  replacement policy.  Data, permissions and counters of a line are not part of it.
\<close>

definition line_id :: "cache_blk \<Rightarrow> bool \<times> addr \<times> addr \<times> bool \<times> domain_id" where
  "line_id b = (blk_valid b, blk_tag b, blk_index_bits b, blk_secure b, blk_domainID b)"

definition footprint :: "'s tags \<Rightarrow> (bool \<times> addr \<times> addr \<times> bool \<times> domain_id) list \<times> 's" where
  "footprint t = (map line_id (blks t), rdata t)"

lemma footprint_put:
  assumes "get_blk t h = Inr b" "line_id b' = line_id b"
  shows "footprint (put_blk h b' t) = footprint t"
proof -
  have "h < length (blks t)" "b = blks t ! h" using assms(1) by (auto simp: get_blk_def require_eq_Inr nth_result_def split: if_splits)
  then show ?thesis using assms(2) by (simp add: footprint_def put_blk_def map_update list_update_same_conv)
qed

lemma footprint_ref:
  assumes "ref_blk c r = Inr b" "line_id b' = line_id b"
  shows "footprint (c_tags (set_ref r b' c)) = footprint (c_tags c)"
  using assms by (cases r) (auto simp: footprint_put)

text \<open>A tag store on which a no-fill access leaves no trace.\<close>

locale quiet_store =
  fixes ops :: "'s tag_ops"
  assumes access_quiet: "to_accessBlock ops a s d True t = Inr (h, lat, t') \<Longrightarrow> footprint t' = footprint t"

lemma finish_access_quiet:
  assumes "finish_access pol False t hit = Inr (h, lat, t')"
  shows "footprint t' = footprint t"
proof (cases hit)
  case None
  then show ?thesis using assms by (auto simp: finish_access_def count_access_def footprint_def Let_def)
next
  case (Some i)
  let ?t = "count_access hit t"
  have f: "footprint ?t = footprint t" by (simp add: footprint_def count_access_def Let_def split: option.splits)
  obtain b where "get_blk ?t i = Inr b" "t' = put_blk i (increaseRefCount b) ?t"
    using assms Some by (auto simp: finish_access_def bind_result_eq_Inr Let_def)
  moreover have "line_id (increaseRefCount b) = line_id b" by (simp add: line_id_def increaseRefCount_def)
  ultimately show ?thesis using footprint_put [of ?t i b "increaseRefCount b"] f by simp
qed

interpretation sa_quiet: quiet_store "sa_store p pol" for p pol
  by unfold_locales (auto simp: sa_store_def sa_accessBlock_domain_def bind_result_eq_Inr intro: finish_access_quiet)

interpretation nr_quiet: quiet_store "nr_store p pol r" for p pol r
  by unfold_locales (auto simp: nr_store_def nrt_accessBlock_domain_def bind_result_eq_Inr intro: finish_access_quiet)

section \<open>Speculative loads\<close>

text \<open>A load that must not fill.\<close>

definition quiet_load :: "packet \<Rightarrow> bool" where
  "quiet_load pkt \<longleftrightarrow> cmd pkt = ReadReq \<and> isMayNotFill pkt \<and> \<not> req_isUncacheable (pkt_req pkt)"

lemma read_attributes:
  "cmd_isRead ReadReq" "\<not> cmd_isWrite ReadReq" "\<not> cmd_isLLSC ReadReq" "\<not> cmd_fromCache ReadReq"
  "\<not> cmd_isEviction ReadReq" "\<not> cmd_isWriteback ReadReq" "\<not> cmd_isSWPrefetch ReadReq" "cmd_isRequest ReadReq"
  "\<not> cmd_needsWritable ReadReq"
  by (simp_all add: testCmdAttrib_def cmd_isWriteback_def)

lemma read_of_block:
  assumes "satisfy_read cf pkt b = Inr (p, b')" "cmd pkt = ReadReq"
  shows "b' = b \<and> cmd p = ReadReq"
  using assms by (auto simp: satisfy_read_def setDataFromBlock_def setData_def bind_result_eq_Inr require_eq_Inr read_attributes)

lemma base_satisfyRequest_load:
  assumes "base_satisfyRequest cf ops env pkt r c = Inr (p, c')" and k: "cmd pkt = ReadReq"
  shows "\<exists>b. ref_blk c r = Inr b \<and> c' = set_ref r b c \<and> cmd p = ReadReq"
proof -
  obtain b where b: "ref_blk c r = Inr b"
    and "bind_result (satisfy_read cf pkt b) (\<lambda>(p, b1). Inr (p, set_ref r b1 c)) = Inr (p, c')"
    using assms(1) unfolding base_satisfyRequest_def k Let_def
    by (simp only: bind_result_eq_Inr require_eq_Inr read_attributes if_True if_False mem_cmd.distinct) blast
  then show ?thesis using read_of_block [OF _ k] by (auto simp: bind_result_eq_Inr)
qed

lemma satisfyRequest_load:
  assumes "satisfyRequest cf ops env dr pd pkt r c = Inr (p, c')" and k: "cmd pkt = ReadReq"
  shows "footprint (c_tags c') = footprint (c_tags c) \<and> cmd p = ReadReq"
proof -
  obtain p1 c1 where s: "base_satisfyRequest cf ops env pkt r c = Inr (p1, c1)" and
    e: "(if cmd_isRead (cmd p1) \<and> cmd_fromCache (cmd p1) then bind_result (getSize p1) (\<lambda>sz. require (sz = cc_blkSize cf) Assert
          (bind_result (ref_blk c1 r) (\<lambda>b. bind_result (pass_state cf dr pd p1 b) (\<lambda>(pkt2, b1). Inr (pkt2, set_ref r b1 c1)))))
        else Inr (p1, c1)) = Inr (p, c')"
    using assms(1) unfolding satisfyRequest_def bind_result_eq_Inr by auto
  from base_satisfyRequest_load [OF s k] obtain b where b: "ref_blk c r = Inr b" "c1 = set_ref r b c" "cmd p1 = ReadReq" by blast
  from e b(3) have "p = p1" "c' = c1" by (simp_all add: read_attributes)
  then show ?thesis using b footprint_ref [OF b(1), of b] by simp
qed

lemma access_request_load:
  assumes a: "access_request cf ops env lat pkt blk c = Inr (okay, lt, p, c')" and k: "cmd pkt = ReadReq"
  shows "footprint (c_tags c') = footprint (c_tags c) \<and> (\<not> okay \<longrightarrow> p = pkt \<and> c' = c)"
proof (cases blk)
  case None
  with a show ?thesis by (auto simp: access_request_def count_cmd_def bind_result_eq_Inr require_eq_Inr k read_attributes)
next
  case (Some r)
  then obtain b where b: "ref_blk c r = Inr b" using a by (auto simp: access_request_def bind_result_eq_Inr)
  define hit where "hit = blk_isSet b ReadableBit"
  have nw: "needsWritable pkt = Inr False" by (simp add: needsWritable_def k read_attributes)
  have
    h: "(if hit then bind_result (calculateAccessLatency cf env (Some b) (headerDelay pkt) lat) (\<lambda>lat.
               bind_result (satisfyRequest cf ops env False False pkt r c) (\<lambda>(pkt1, c1).
               bind_result (maintainClusivity cf ops (cmd_fromCache (cmd pkt1)) (Some r) c1) (\<lambda>c2. Inr (True, lat, pkt1, c2))))
          else bind_result (calculateAccessLatency cf env (Some b) (headerDelay pkt) lat) (\<lambda>lat. Inr (False, lat, pkt, c)))
        = Inr (okay, lt, p, c')"
    using a unfolding access_request_def count_cmd_def Some hit_def by (simp add: b nw k read_attributes require_eq_Inr split: if_splits)
  show ?thesis
  proof (cases hit)
    case True
    with h obtain p1 c1 where s: "satisfyRequest cf ops env False False pkt r c = Inr (p1, c1)"
      and m: "maintainClusivity cf ops (cmd_fromCache (cmd p1)) (Some r) c1 = Inr c'" "okay"
      by (auto simp: bind_result_eq_Inr)
    from satisfyRequest_load [OF s k] have f: "footprint (c_tags c1) = footprint (c_tags c)" "cmd p1 = ReadReq" by auto
    from m(1) f(2) have "c' = c1" by (auto simp: maintainClusivity_def bind_result_eq_Inr read_attributes)
    then show ?thesis using f m(2) by simp
  next
    case False
    with h show ?thesis by (auto simp: bind_result_eq_Inr)
  qed
qed

lemma access_found_load:
  assumes "access_found cf ops env lat pkt blk c = Inr res" and k: "cmd pkt = ReadReq"
  shows "footprint (c_tags (ar_cache res)) = footprint (c_tags c) \<and> ar_wbs res = [] \<and> (\<not> ar_ok res \<longrightarrow> ar_pkt res = pkt)"
proof -
  obtain okay lt p c1 evs where ar: "access_request cf ops env lat pkt blk c = Inr (okay, lt, p, c1)" and
    "res = \<lparr>ar_ok = okay, ar_blk = blk, ar_lat = lt, ar_pkt = p, ar_wbs = [], ar_events = evs, ar_cache = c1\<rparr>"
    using assms(1) by (auto simp: access_found_def bind_result_eq_Inr Let_def k read_attributes)
  then show ?thesis using access_request_load [OF ar k] by auto
qed

lemma access_load:
  assumes q: "quiet_store ops" "quiet_load pkt" and a: "access cf ops env pkt c = Inr res"
  shows "footprint (c_tags (ar_cache res)) = footprint (c_tags c) \<and> ar_wbs res = [] \<and> (\<not> ar_ok res \<longrightarrow> ar_pkt res = pkt)"
proof -
  have k: "cmd pkt = ReadReq" and mn: "isMayNotFill pkt" and "\<not> req_isUncacheable (pkt_req pkt)"
    using q(2) by (simp_all add: quiet_load_def)
  then have a': "base_access cf ops env pkt c = Inr res" using a by (simp add: access_def)
  have ev: "access_eviction pkt c1 = Inr (False, c1)" for c1 by (simp add: access_eviction_def k read_attributes)
  obtain a s h lat t where acc: "to_accessBlock ops a s (pkt_domainID pkt) True (c_tags c) = Inr (h, lat, t)"
    and r: "req_isCacheMaintenance (pkt_req pkt) \<and> ar_cache res = c\<lparr>c_tags := t\<rparr> \<and> ar_wbs res = [] \<and> ar_pkt res = pkt \<or>
      access_found cf ops env lat pkt (map_option TagBlk h) (c\<lparr>c_tags := t\<rparr>) = Inr res"
    using a' mn by (auto simp: base_access_def ev bind_result_eq_Inr require_eq_Inr Let_def split: if_splits)
  from quiet_store.access_quiet [OF q(1) acc] have f: "footprint t = footprint (c_tags c)" .
  from r show ?thesis
  proof
    assume "access_found cf ops env lat pkt (map_option TagBlk h) (c\<lparr>c_tags := t\<rparr>) = Inr res"
    from access_found_load [OF this k] f show ?thesis by simp
  qed (use f in simp)
qed

lemma miss_on_mshr_tags [tags_kept]: "miss_on_mshr cf env pkt h t c = Inr (evs, calls, c') \<Longrightarrow> c_tags c' = c_tags c"
  by (auto simp: miss_on_mshr_def count_cmd_def bind_result_eq_Inr require_eq_Inr Let_def dest: tags_kept split: if_splits)

lemma update_write_mode_tags [tags_kept]: "update_write_mode cf pkt c = Inr c' \<Longrightarrow> c_tags c' = c_tags c"
  by (auto simp: update_write_mode_def bind_result_eq_Inr split: option.splits if_splits)

lemma miss_new_footprint:
  assumes "miss_new cf env pkt blk t c = Inr (evs, calls, c')"
  shows "footprint (c_tags c') = footprint (c_tags c)"
proof (cases "cmd_isEviction (cmd pkt) \<or> cmd pkt = WriteClean")
  case True
  then show ?thesis using assms by (auto simp: miss_new_def count_cmd_def bind_result_eq_Inr require_eq_Inr dest: tags_kept)
next
  case False
  then obtain c1 h c2 where p: "(case blk of None \<Rightarrow> Inr c | Some r \<Rightarrow> bind_result (ref_blk c r) (\<lambda>b.
         if blk_valid b then bind_result (needsWritable pkt) (\<lambda>nw.
              require (nw \<and> \<not> blk_isSet b WritableBit \<or> req_isCacheMaintenance (pkt_req pkt)) Assert
              (Inr (set_ref r (clearCoherenceBits ReadableBit b) c))) else Inr c)) = Inr c1"
    and m: "allocateMissBuffer cf env pkt t (\<not> nofillEn cf) c1 = Inr (h, calls, c2)" "c' = c2"
    using assms unfolding miss_new_def count_cmd_def
    by (auto simp: bind_result_eq_Inr require_eq_Inr Let_def)
  have "footprint (c_tags c1) = footprint (c_tags c)"
    using p by (auto simp: bind_result_eq_Inr require_eq_Inr footprint_ref line_id_def clearCoherenceBits_def split: option.splits if_splits)
  then show ?thesis using m by (auto dest: tags_kept)
qed

lemma base_miss_footprint:
  assumes "base_handleTimingReqMiss cf env pkt mshr blk t c = Inr (evs, calls, c')"
  shows "footprint (c_tags c') = footprint (c_tags c)"
proof -
  obtain c1 where u: "update_write_mode cf pkt c = Inr c1" and
    m: "(case mshr of Some h \<Rightarrow> miss_on_mshr cf env pkt h t c1 | None \<Rightarrow> miss_new cf env pkt blk t c1) = Inr (evs, calls, c')"
    using assms by (auto simp: base_handleTimingReqMiss_def bind_result_eq_Inr)
  have "footprint (c_tags c') = footprint (c_tags c1)"
    using m by (auto dest: tags_kept miss_new_footprint split: option.splits)
  then show ?thesis using update_write_mode_tags [OF u] by simp
qed

lemma clear_prefetched_footprint:
  "clear_prefetched cf blk c = Inr c' \<Longrightarrow> footprint (c_tags c') = footprint (c_tags c)"
  by (auto simp: clear_prefetched_def bind_result_eq_Inr footprint_ref line_id_def split: option.splits if_splits)

lemma load_footprint:
  assumes q: "quiet_store ops" "quiet_load pkt" and r: "recvTimingReq cf ops env pkt c = Inr (evs, calls, c')"
  shows "footprint (c_tags c') = footprint (c_tags c)"
proof -
  have k: "cmd pkt = ReadReq" "\<not> req_isUncacheable (pkt_req pkt)" using q(2) by (simp_all add: quiet_load_def)
  have pr: "promoteWholeLineWrites cf pkt = Inr pkt" by (simp add: promoteWholeLineWrites_def k)
  show ?thesis
  proof (cases "cacheResponding pkt")
    case True
    then show ?thesis using r by (auto simp: recvTimingReq_def pr bind_result_eq_Inr require_eq_Inr)
  next
    case False
    then obtain res c1 t where a: "access cf ops env pkt c = Inr res"
      and w: "doWritebacks cf env (ar_wbs res) t (ar_cache res) = Inr c1"
      and e: "(if ar_ok res
            then bind_result (clear_prefetched cf (ar_blk res) c1) (\<lambda>c2.
                 bind_result (handleTimingReqHit cf env ((ar_pkt res)\<lparr>headerDelay := 0, payloadDelay := 0\<rparr>) (clockEdge env (ar_lat res))) (\<lambda>evs.
                 Inr (ar_events res @ evs, [], c2)))
            else bind_result (handleTimingReqMiss cf env ((ar_pkt res)\<lparr>headerDelay := 0, payloadDelay := 0\<rparr>) (ar_blk res)
                   (clockEdge env (forwardLatency cf) + ucast (headerDelay pkt)) (clockEdge env (ar_lat res)) c1) (\<lambda>(evs, calls, c2).
                 Inr (ar_events res @ evs, calls, c2))) = Inr (evs, calls, c')"
      using r unfolding recvTimingReq_def pr base_recvTimingReq_def Let_def
      by (simp only: bind_result_Inr if_False bind_result_eq_Inr) blast
    note al = access_load [OF q a]
    have "footprint (c_tags c') = footprint (c_tags c1)"
    proof (cases "ar_ok res")
      case True
      with e have "clear_prefetched cf (ar_blk res) c1 = Inr c'" by (auto simp: bind_result_eq_Inr)
      then show ?thesis by (rule clear_prefetched_footprint)
    next
      case False
      with e obtain evs1 ft rt where
        "handleTimingReqMiss cf env ((ar_pkt res)\<lparr>headerDelay := 0, payloadDelay := 0\<rparr>) (ar_blk res) ft rt c1 = Inr (evs1, calls, c')"
        by (auto simp: bind_result_eq_Inr)
      moreover have "ar_pkt res = pkt" using al False by simp
      ultimately obtain mshr where "base_handleTimingReqMiss cf env (pkt\<lparr>headerDelay := 0, payloadDelay := 0\<rparr>) mshr (ar_blk res) ft c1 = Inr (evs1, calls, c')"
        using k by (auto simp: handleTimingReqMiss_def bind_result_eq_Inr read_attributes)
      then show ?thesis by (rule base_miss_footprint)
    qed
    then show ?thesis using doWritebacks_tags [OF w] al by simp
  qed
qed

section \<open>Runs of no-fill loads\<close>

lemma writeclean_footprint:
  assumes "writecleanBlk cf ops env d r c = Inr (p, c')"
  shows "footprint (c_tags c') = footprint (c_tags c)"
proof -
  obtain pkt where "take_data cf env pkt r c = Inr (p, c')"
    using assms by (auto simp: writecleanBlk_def bind_result_eq_Inr Let_def)
  then show ?thesis
    by (auto simp: take_data_def bind_result_eq_Inr Let_def footprint_ref line_id_def clearCoherenceBits_def split: if_splits)
qed

lemma hold_write_tags [tags_kept]: "hold_write cf env h p c = Inr (b, c') \<Longrightarrow> c_tags c' = c_tags c"
  by (auto simp: hold_write_def bind_result_eq_Inr require_eq_Inr Let_def split: option.splits if_splits prod.splits)

lemma mshr_in_service_tags [tags_kept]: "mshr_in_service env h b c = Inr (calls, c') \<Longrightarrow> c_tags c' = c_tags c"
  by (auto simp: mshr_in_service_def bind_result_eq_Inr Let_def split: if_splits)

lemma wb_markInService_tags [tags_kept]: "wb_markInService h c = Inr c' \<Longrightarrow> c_tags c' = c_tags c"
  by (auto simp: wb_markInService_def bind_result_eq_Inr Let_def split: if_splits)

lemma sendWrite_tags: "sendWriteQueuePacket sent h c = Inr (b, evs, c') \<Longrightarrow> c_tags c' = c_tags c"
  by (auto simp: sendWriteQueuePacket_def bind_result_eq_Inr dest: tags_kept split: option.splits)

lemma ack_mshr_tags [simp]: "c_tags (ack_mshr cf d i c) = c_tags c"
  by (simp add: ack_mshr_def Let_def split: prod.split)

lemma recvPfAck_tags: "recvPfAck cf pkt c = Inr c' \<Longrightarrow> c_tags c' = c_tags c"
  by (auto simp: recvPfAck_def bind_result_eq_Inr require_eq_Inr Let_def split: option.splits)

lemma prefetch_hit_tags [simp]: "c_tags (prefetch_hit cf h c) = c_tags c"
  by (simp add: prefetch_hit_def Let_def split: prod.split)

lemma next_prefetch_tags: "next_prefetch cf ops env pkt c = Inr (e, evs, calls, c') \<Longrightarrow> c_tags c' = c_tags c"
  by (auto simp: next_prefetch_def count_cmd_def bind_result_eq_Inr require_eq_Inr dest: tags_kept
      split: option.splits if_splits)

lemma getNext_tags: "getNextQueueEntry cf ops env pf c = Inr (e, evs, calls, c') \<Longrightarrow> c_tags c' = c_tags c"
  by (auto simp: getNextQueueEntry_def bind_result_eq_Inr Let_def dest: next_prefetch_tags split: option.splits if_splits)

lemma packet_accepted_footprint:
  assumes "packet_accepted cf ops env h pkt jb c = Inr (calls, c')"
  shows "footprint (c_tags c') = footprint (c_tags c)"
proof -
  obtain c1 where "mshr_in_service env h (\<not> hasSharers pkt \<and> cacheResponding pkt) c = Inr (calls, c1)"
    and d: "c' = c1 \<or> (\<exists>d r wb c2. writecleanBlk cf ops env d r c1 = Inr (wb, c2) \<and> doWritebacks cf env [wb] 0 c2 = Inr c')"
    using assms by (cases jb) (fastforce simp: packet_accepted_def bind_result_eq_Inr split: if_splits)+
  then have "c_tags c1 = c_tags c" by (auto dest: tags_kept)
  moreover from d have "footprint (c_tags c') = footprint (c_tags c1)"
  proof (elim disjE exE conjE)
    fix d r wb c2
    assume w: "writecleanBlk cf ops env d r c1 = Inr (wb, c2)" "doWritebacks cf env [wb] 0 c2 = Inr c'"
    show ?thesis using writeclean_footprint [OF w(1)] doWritebacks_tags [OF w(2)] by simp
  qed simp
  ultimately show ?thesis by simp
qed

lemma send_miss_footprint:
  assumes "send_miss cf ops env sent h p c = Inr (b, evs, calls, c')"
  shows "footprint (c_tags c') = footprint (c_tags c)"
proof -
  let ?c = "\<lambda>fwd. c\<lparr>mshrQueue := set_entry h ((entry_of (mshrQueue c) h)\<lparr>isForward := fwd\<rparr>) (mshrQueue c)\<rparr>"
  obtain pkt jb fwd where "(case sent pkt of None \<Rightarrow> Inr (True, [TimingReq pkt], [], ?c fwd)
      | Some pkt1 \<Rightarrow> bind_result (packet_accepted cf ops env h pkt1 jb (?c fwd)) (\<lambda>(calls, c2). Inr (False, [TimingReq pkt], calls, c2))) =
      Inr (b, evs, calls, c')"
    using assms unfolding send_miss_def Let_def by (simp only: bind_result_eq_Inr split_paired_Ex prod.case) blast
  then show ?thesis by (cases "sent pkt") (auto simp: bind_result_eq_Inr dest: packet_accepted_footprint)
qed

lemma sendMSHR_footprint:
  assumes "sendMSHRQueuePacket cf ops env sent h c = Inr (b, evs, calls, c')"
  shows "footprint (c_tags c') = footprint (c_tags c)"
proof -
  obtain p held c1 where hw: "hold_write cf env h p c = Inr (held, c1)"
    and e: "(if held then Inr (False, [], [], c1) else send_miss cf ops env sent h p c1) = Inr (b, evs, calls, c')"
    using assms unfolding sendMSHRQueuePacket_def by (auto simp: bind_result_eq_Inr)
  from e have "footprint (c_tags c') = footprint (c_tags c1)" by (auto dest: send_miss_footprint split: if_splits)
  then show ?thesis using hold_write_tags [OF hw] by simp
qed

text \<open>
  The register of a response, its packet without the sender state, and the condition that the line is not in
  the cache and the register may not fill.
\<close>

definition quiet_response :: "'s tag_ops \<Rightarrow> cache_env \<Rightarrow> packet \<Rightarrow> 's cache \<Rightarrow> bool" where
  "quiet_response ops env pkt c \<longleftrightarrow> \<not> cmd_isWrite (cmd pkt) \<and>
     (case senderState pkt of [] \<Rightarrow> False
      | st # rest \<Rightarrow>
          (case own_mshr env st c of None \<Rightarrow> False
           | Some h \<Rightarrow>
               let m = entry_of (mshrQueue c) h
               in tl_mayNotFill (targets m) \<and> (\<not> wasWholeLineWrite m \<or> writeAllocator c = None) \<and>
                  to_findBlock ops (pkt_addr pkt) (pkt_isSecure pkt) (pkt_domainID pkt) (c_tags c) = Inr None))"

lemma response_tags:
  assumes "quiet_response ops env pkt c" "recvTimingResp cf ops env pkt c = Inr (evs, calls, c')"
  shows "c_tags c' = c_tags c"
proof -
  obtain st rest h where s: "senderState pkt = st # rest" "own_mshr env st c = Some h" "\<not> cmd_isWrite (cmd pkt)"
    and m: "tl_mayNotFill (targets (entry_of (mshrQueue c) h))"
      "\<not> wasWholeLineWrite (entry_of (mshrQueue c) h) \<or> writeAllocator c = None"
      "to_findBlock ops (pkt_addr pkt) (pkt_isSecure pkt) (pkt_domainID pkt) (c_tags c) = Inr None"
    using assms(1) by (auto simp: quiet_response_def Let_def split: list.splits option.splits)
  define c1 where "c1 = (if noTargetMSHR c = Some h then (clearBlocked Blocked_NoTargets c)\<lparr>noTargetMSHR := None\<rparr> else c)"
  have c1: "c_tags c1 = c_tags c" "mshrQueue c1 = mshrQueue c" "writeAllocator c1 = writeAllocator c"
    by (simp_all add: c1_def clearBlocked_def)
  have r: "resp_mshr cf ops env h (pkt\<lparr>senderState := rest\<rparr>) c1 = Inr (evs, calls, c')"
    using assms(2) s by (simp add: recvTimingResp_def popSenderState_def require_eq_Inr c1_def)
  have "c_tags c' = c_tags c1"
    by (rule resp_mshr_no_fill [OF r])
      (use m c1 in \<open>auto simp: getAddr_def isSecure_def pkt_isSet_def pkt_domainID_def require_eq_Inr\<close>)
  then show ?thesis using c1 by simp
qed

inductive quiet_run :: "cache_conf \<Rightarrow> 's tag_ops set \<Rightarrow> 's cache \<Rightarrow> 's cache \<Rightarrow> bool" for cf Ops where
  start: "quiet_run cf Ops c c"
| load: "quiet_run cf Ops c c1 \<Longrightarrow> ops \<in> Ops \<Longrightarrow> quiet_load pkt \<Longrightarrow>
    recvTimingReq cf ops env pkt c1 = Inr (evs, calls, c2) \<Longrightarrow> quiet_run cf Ops c c2"
| choose: "quiet_run cf Ops c c1 \<Longrightarrow> ops \<in> Ops \<Longrightarrow>
    getNextQueueEntry cf ops env pf c1 = Inr (e, evs, calls, c2) \<Longrightarrow> quiet_run cf Ops c c2"
| send: "quiet_run cf Ops c c1 \<Longrightarrow> ops \<in> Ops \<Longrightarrow>
    sendMSHRQueuePacket cf ops env sent h c1 = Inr (retry, evs, calls, c2) \<Longrightarrow> quiet_run cf Ops c c2"
| write_out: "quiet_run cf Ops c c1 \<Longrightarrow> sendWriteQueuePacket sent h c1 = Inr (retry, evs, c2) \<Longrightarrow> quiet_run cf Ops c c2"
| acknowledge: "quiet_run cf Ops c c1 \<Longrightarrow> recvPfAck cf pkt c1 = Inr c2 \<Longrightarrow> quiet_run cf Ops c c2"
| response: "quiet_run cf Ops c c1 \<Longrightarrow> ops \<in> Ops \<Longrightarrow> quiet_response ops env pkt c1 \<Longrightarrow>
    recvTimingResp cf ops env pkt c1 = Inr (evs, calls, c2) \<Longrightarrow> quiet_run cf Ops c c2"

lemma quiet_run_footprint:
  assumes "quiet_run cf Ops c c'" "\<And>ops. ops \<in> Ops \<Longrightarrow> quiet_store ops"
  shows "footprint (c_tags c') = footprint (c_tags c)"
  using assms(1)
proof (induction rule: quiet_run.induct)
  case (load c c1 ops pkt env evs calls c2)
  then show ?case using load_footprint [OF assms(2)] by metis
next
  case (choose c c1 ops env pf e evs calls c2)
  then show ?case using getNext_tags by metis
next
  case (send c c1 ops env sent h retry evs calls c2)
  then show ?case using sendMSHR_footprint by metis
next
  case (write_out c c1 sent h retry evs c2)
  then show ?case using sendWrite_tags by metis
next
  case (acknowledge c c1 pkt c2)
  then show ?case using recvPfAck_tags by metis
next
  case (response c c1 ops env pkt evs calls c2)
  then show ?case using response_tags by metis
qed simp

definition demo_load :: packet where
  "demo_load = (case new_packet (setDomainID 9 (new_request 9 0 0x1000 4 (NO_FILL OR DEMAND_FETCH) 1)) ReadReq of
     Inr p \<Rightarrow> (case allocate p [7, 7, 7, 7] of Inr q \<Rightarrow> q | Inl _ \<Rightarrow> p) | Inl _ \<Rightarrow> demo_resp)"

definition demo_run :: "(nat \<Rightarrow> lru_data) cache result" where
  "demo_run =
     bind_result (recvTimingReq demo_conf demo_ops demo_env demo_load demo_cache) (\<lambda>(_, _, c1).
     bind_result (sendMSHRQueuePacket demo_conf demo_ops demo_env Some 0 c1) (\<lambda>(_, _, _, c2).
     bind_result (recvTimingResp demo_conf demo_ops demo_env (demo_resp\<lparr>senderState := [0]\<rparr>) c2) (\<lambda>(evs, _, c3).
     Inr c3)))"

lemma demo_run_ok: "is_ok demo_run"
  by code_simp

text \<open>Claim C3. Loads that must not fill leave no footprint.  In a cache over the random or the
  set-associative store, take any sequence of no-fill loads that hit, miss or join outstanding registers,
  of registers and write-backs being chosen and sent, of acknowledgements, and of responses to registers
  that may not fill for lines that are not in the cache.  Afterwards the same lines are present with the
  same domains, and the replacement state is the same, whatever the draws of the random store were.\<close>

theorem no_fill_loads_leave_no_footprint:
  assumes "quiet_run cf Ops c c'" "Ops \<subseteq> range (nr_store p pol) \<union> {sa_store q pol}"
  shows "footprint (c_tags c') = footprint (c_tags c)"
  by (rule quiet_run_footprint [OF assms(1)])
    (use assms(2) nr_quiet.quiet_store_axioms sa_quiet.quiet_store_axioms in blast)

theorem no_fill_loads_leave_no_footprint_witness:
  "\<exists>c'. demo_run = Inr c' \<and> footprint (c_tags c') = footprint demo_nr_tags"
proof -
  let ?Ops = "range (nr_store demo_nr_idx (lru_rp 5))"
  have o: "demo_ops \<in> ?Ops" by (simp add: demo_ops_def)
  obtain c' where c': "demo_run = Inr c'" using demo_run_ok by (auto simp: is_ok_iff)
  then obtain e1 l1 c1 y e2 l2 c2 e3 l3 where
    1: "recvTimingReq demo_conf demo_ops demo_env demo_load demo_cache = Inr (e1, l1, c1)"
    and 2: "sendMSHRQueuePacket demo_conf demo_ops demo_env Some 0 c1 = Inr (y, e2, l2, c2)"
    and 3: "recvTimingResp demo_conf demo_ops demo_env (demo_resp\<lparr>senderState := [0]\<rparr>) c2 = Inr (e3, l3, c')"
    by (auto simp: demo_run_def bind_result_eq_Inr)
  have "quiet_load demo_load" by code_simp
  then have r1: "quiet_run demo_conf ?Ops demo_cache c1" by (rule quiet_run.load [OF quiet_run.start o _ 1])
  have r2: "quiet_run demo_conf ?Ops demo_cache c2" by (rule quiet_run.send [OF r1 o 2])
  have "case bind_result (recvTimingReq demo_conf demo_ops demo_env demo_load demo_cache) (\<lambda>(_, _, c1).
     sendMSHRQueuePacket demo_conf demo_ops demo_env Some 0 c1) of Inl _ \<Rightarrow> False
     | Inr (_, _, _, c2) \<Rightarrow> quiet_response demo_ops demo_env (demo_resp\<lparr>senderState := [0]\<rparr>) c2"
    by code_simp
  then have "quiet_response demo_ops demo_env (demo_resp\<lparr>senderState := [0]\<rparr>) c2" by (simp add: 1 2)
  then have "quiet_run demo_conf ?Ops demo_cache c'" by (rule quiet_run.response [OF r2 o _ 3])
  from no_fill_loads_leave_no_footprint [OF this, of demo_nr_idx "lru_rp 5" demo_index] c' show ?thesis
    by (auto simp: demo_cache_def)
qed

end
