(* ===== verification/Cache_Levels.thy ===== *)
theory Cache_Levels
  imports Cache_Safety
begin

text \<open>
  Two behaviours that span the levels of a hierarchy: write-backs that must not fill pass a level
  unchanged, and the acknowledgement of a demand access does not reach the register it is meant for.
\<close>

section \<open>Write-backs of lines that were not filled\<close>

lemma writeback_attributes:
  "cmd_isRequest WritebackDirty" "cmd_isWrite WritebackDirty" "cmd_isEviction WritebackDirty" "cmd_isWriteback WritebackDirty"
  "\<not> cmd_isSWPrefetch WritebackDirty"
  "cmd_isRequest WriteClean" "cmd_isWrite WriteClean" "\<not> cmd_isEviction WriteClean" "\<not> cmd_isWriteback WriteClean"
  "\<not> cmd_isSWPrefetch WriteClean"
  by (simp_all add: testCmdAttrib_def cmd_isWriteback_def)

lemma find_other_queues [simp]:
  "wb_findMatch a s d (c\<lparr>c_tags := t\<rparr>) = wb_findMatch a s d c" "mq_findMatch a s d (c\<lparr>c_tags := t\<rparr>) = mq_findMatch a s d c"
  by (simp_all add: wb_findMatch_def mq_findMatch_def)

text \<open>A write-back or clean write of a whole line that must not be filled.\<close>

definition no_fill_write :: "cache_conf \<Rightarrow> packet \<Rightarrow> bool" where
  "no_fill_write cf pkt \<longleftrightarrow>
     (cmd pkt = WritebackDirty \<or> cmd pkt = WriteClean) \<and> isMayNotFill pkt \<and> \<not> cacheResponding pkt \<and>
     pkt_isSet pkt VALID_ADDR \<and> pkt_isSet pkt VALID_SIZE \<and> pkt_size pkt = cc_blkSize cf \<and>
     \<not> req_isUncacheable (pkt_req pkt) \<and> \<not> req_isCacheMaintenance (pkt_req pkt) \<and>
     unat (req_requestorId (pkt_req pkt)) < maxRequestors cf"

lemma no_fill_write_access:
  assumes w: "no_fill_write cf pkt" and cf: "nofillEn cf" "\<not> isReadOnly cf" and env: "clockPeriod env \<noteq> 0"
    and miss: "to_accessBlock ops (pkt_addr pkt) (pkt_isSecure pkt) (pkt_domainID pkt) True (c_tags c) = Inr (None, lat, t)"
    and wb: "wb_findMatch (pkt_addr pkt) (pkt_isSecure pkt) (pkt_domainID pkt) c = Inr None"
  shows "\<exists>lt. access cf ops env pkt c = Inr \<lparr>ar_ok = False, ar_blk = None, ar_lat = lt, ar_pkt = pkt, ar_wbs = [],
    ar_events = access_notify cf pkt, ar_cache = c\<lparr>c_tags := t\<rparr>\<rparr>"
proof -
  obtain lt where lt: "calculateTagOnlyLatency env (headerDelay pkt) lat = Inr lt"
    using env by (auto simp: calculateTagOnlyLatency_def ticksToCycles_def divCeil_def Let_def)
  have ev: "access_eviction pkt (c\<lparr>c_tags := t\<rparr>) = Inr (False, c\<lparr>c_tags := t\<rparr>)"
    using w wb by (auto simp: no_fill_write_def access_eviction_def getAddr_def isSecure_def writeback_attributes)
  have "access_found cf ops env lat pkt None (c\<lparr>c_tags := t\<rparr>) = Inr \<lparr>ar_ok = False, ar_blk = None, ar_lat = lt, ar_pkt = pkt,
      ar_wbs = [], ar_events = access_notify cf pkt, ar_cache = c\<lparr>c_tags := t\<rparr>\<rparr>"
    using w cf by (auto simp: no_fill_write_def access_found_def lt access_writeback_def access_writeclean_def access_block_def
        count_cmd_def getSize_def writeback_attributes Let_def)
  then show ?thesis
    using w cf miss ev by (auto simp: no_fill_write_def access_def base_access_def getAddr_def isSecure_def writeback_attributes Let_def)
qed

text \<open>Claim C5. A dirty write-back or clean write marked not to fill passes a no-fill cache that does not
  hold the line and has no register or write-back for it.  Nothing is allocated, no line is displaced, and
  lines and replacement state are as before; the packet, with its mark, goes to the write buffer on its way
  to the level below.\<close>

theorem no_fill_writeback_passes:
  assumes "ops = nr_store p pol r \<or> ops = sa_store q pol" and "no_fill_write cf pkt" "nofillEn cf" "\<not> isReadOnly cf"
    and "clockPeriod env \<noteq> 0" "writeAllocator c = None"
    and "to_accessBlock ops (pkt_addr pkt) (pkt_isSecure pkt) (pkt_domainID pkt) True (c_tags c) = Inr (None, lat, t)"
    and "wb_findMatch (pkt_addr pkt) (pkt_isSecure pkt) (pkt_domainID pkt) c = Inr None"
    and "getBlockAddr pkt (cc_blkSize cf) = Inr ba" "mq_findMatch ba (pkt_isSecure pkt) (pkt_domainID pkt) c = Inr None"
  shows "footprint t = footprint (c_tags c) \<and> recvTimingReq cf ops env pkt c =
      bind_result (allocateWriteBuffer cf env (pkt\<lparr>headerDelay := 0, payloadDelay := 0\<rparr>)
          (clockEdge env (forwardLatency cf) + ucast (headerDelay pkt)) (c\<lparr>c_tags := t\<rparr>))
        (\<lambda>c2. Inr (access_notify cf pkt, [], c2))"
proof
  have "quiet_store ops" using assms(1) nr_quiet.quiet_store_axioms sa_quiet.quiet_store_axioms by blast
  from quiet_store.access_quiet [OF this assms(7)] show "footprint t = footprint (c_tags c)" .
  note w = assms(2) [unfolded no_fill_write_def]
  let ?p = "pkt\<lparr>headerDelay := 0, payloadDelay := 0\<rparr>" and ?c = "c\<lparr>c_tags := t\<rparr>"
  from no_fill_write_access [OF assms(2-5,7,8)] obtain lt where a: "access cf ops env pkt c = Inr \<lparr>ar_ok = False, ar_blk = None,
    ar_lat = lt, ar_pkt = pkt, ar_wbs = [], ar_events = access_notify cf pkt, ar_cache = ?c\<rparr>" by blast
  have g: "getBlockAddr ?p (cc_blkSize cf) = Inr ba" "isSecure ?p = Inr (pkt_isSecure pkt)" "pkt_domainID ?p = pkt_domainID pkt"
    using assms(9) w by (simp_all add: getBlockAddr_def getAddr_def isSecure_def pkt_isSet_def pkt_domainID_def)
  have m: "handleTimingReqMiss cf env ?p None ft rt ?c =
      bind_result (allocateWriteBuffer cf env ?p ft ?c) (\<lambda>c1. Inr ([], [], c1))" for ft rt
    using w assms(6,10) by (auto simp: handleTimingReqMiss_def g base_handleTimingReqMiss_def update_write_mode_def miss_new_def
        count_cmd_def writeback_attributes)
  let ?A = "allocateWriteBuffer cf env ?p (clockEdge env (forwardLatency cf) + ucast (headerDelay pkt)) ?c"
  have "recvTimingReq cf ops env pkt c = base_recvTimingReq cf ops env pkt c"
    using w by (auto simp: recvTimingReq_def promoteWholeLineWrites_def)
  then show "recvTimingReq cf ops env pkt c = bind_result ?A (\<lambda>c2. Inr (access_notify cf pkt, [], c2))"
    by (cases ?A) (simp_all add: base_recvTimingReq_def a doWritebacks_def m)
qed

definition demo_writeback :: packet where
  "demo_writeback = (pkt_setFlag (VALID_ADDR OR VALID_SIZE OR DYNAMIC_DATA)
     (setMayNotFill (new_packet_blk (setDomainID 9 (new_request 9 0 0x1000 4 NO_FILL 1)) WritebackDirty 4)))\<lparr>pkt_data := [1, 2, 3, 4]\<rparr>"

theorem no_fill_writeback_passes_witness:
  "\<exists>c2. recvTimingReq demo_conf demo_ops demo_env demo_writeback demo_cache = Inr ([], [], c2) \<and>
     footprint (c_tags c2) = footprint demo_nr_tags"
proof -
  let ?find = "to_accessBlock demo_ops (pkt_addr demo_writeback) (pkt_isSecure demo_writeback) (pkt_domainID demo_writeback) True"
    and ?put = "allocateWriteBuffer demo_conf demo_env (demo_writeback\<lparr>headerDelay := 0, payloadDelay := 0\<rparr>)
          (clockEdge demo_env (forwardLatency demo_conf) + ucast (headerDelay demo_writeback))"
  have w: "no_fill_write demo_conf demo_writeback" "getBlockAddr demo_writeback (cc_blkSize demo_conf) = Inr 0x1000"
    "access_notify demo_conf demo_writeback = []"
    "wb_findMatch (pkt_addr demo_writeback) (pkt_isSecure demo_writeback) (pkt_domainID demo_writeback) demo_cache = Inr None"
    "mq_findMatch 0x1000 (pkt_isSecure demo_writeback) (pkt_domainID demo_writeback) demo_cache = Inr None"
    by code_simp+
  have "case ?find demo_nr_tags of Inr (None, lat, t) \<Rightarrow> is_ok (?put (demo_cache\<lparr>c_tags := t\<rparr>)) | _ \<Rightarrow> False"
    by code_simp
  then obtain lat t c2 where a: "?find demo_nr_tags = Inr (None, lat, t)" and b: "?put (demo_cache\<lparr>c_tags := t\<rparr>) = Inr c2"
    by (auto simp: is_ok_iff split: sum.splits prod.splits option.splits)
  have c: "nofillEn demo_conf" "\<not> isReadOnly demo_conf" "clockPeriod demo_env \<noteq> 0" "writeAllocator demo_cache = None"
    "c_tags demo_cache = demo_nr_tags"
    by (simp_all add: demo_conf_def demo_env_def demo_cache_def)
  have "c_tags c2 = t" using b by (auto dest: tags_kept)
  then show ?thesis
    using no_fill_writeback_passes [OF disjI1 [OF demo_ops_def] w(1) c(1-4) a [folded c(5)] w(4,2,5)] b w(3) c(5) by auto
qed

section \<open>Acknowledgements of demand accesses\<close>

text \<open>The registers of a miss queue hold block addresses and have targets.\<close>

definition block_registers :: "u32 \<Rightarrow> 's cache \<Rightarrow> bool" where
  "block_registers blkSize c \<longleftrightarrow> (\<forall>h\<in>set (allocatedList (mshrQueue c)). h < length (entries (mshrQueue c)) \<and>
     target_seq (entry_of (mshrQueue c) h) \<noteq> [] \<and> qe_blkAddr (entry_of (mshrQueue c) h) AND ucast (blkSize - 1) = 0)"

lemma find_entry_skip: "(\<And>h. h \<in> set l \<Longrightarrow> m h = Inr False) \<Longrightarrow> find_entry m l = Inr None"
  by (induction l) simp_all

lemma find_entry_first:
  assumes "\<And>h. h \<in> set l \<Longrightarrow> is_ok (m h)" "i \<in> set l" "m i = Inr True"
  obtains j where "find_entry m l = Inr (Some j)" "j \<in> set l" "m j = Inr True"
proof -
  from find_entry_total [of l m, OF assms(1)] obtain r where r: "find_entry m l = Inr r" by (auto simp: is_ok_iff)
  moreover have "r \<noteq> None" using find_entry_None [of m l i] assms(2,3) r by auto
  ultimately show ?thesis using that find_entry_Some [of m l] by blast
qed

lemma unaligned_not_found:
  assumes "block_registers bs c" "a AND ucast (bs - 1) \<noteq> 0"
  shows "mq_findMatch a s d c = Inr None"
  unfolding mq_findMatch_def findMatch_domain_def
  by (rule find_entry_skip) (use assms in \<open>auto simp: block_registers_def mshr_matchBlockAddr_domain_def\<close>)

lemma ack_withdraws:
  assumes "i < length (entries (mshrQueue c))" "pfAckEn cf" "tl_allocOnFill (targets (entry_of (mshrQueue c) i))"
  shows "\<not> tl_mayNotFill (targets (entry_of (mshrQueue (ack_mshr cf d i c)) i))"
  using assms by (auto simp: ack_mshr_def mshr_updateMayNotFill_def tl_updateMayNotFill_def upd_stats_def set_entry_def
      Let_def)

text \<open>Claim C12. The acknowledgement of a demand load is lost unless the load is block-aligned.  A first-level
  demand load that may fill and joins a no-fill register sends its own packet as the acknowledgement.  The
  level below compares the address of that packet with the block addresses of its registers: if the load
  is not aligned to a block, nothing there changes, and the register keeps its no-fill mark.  The same
  packet with the block's address finds a register of the block and withdraws the mark.\<close>

theorem demand_ack_lost:
  fixes pkt :: packet and cf2 :: cache_conf
  defines "ba \<equiv> pkt_addr pkt AND NOT (ucast (cc_blkSize cf2 - 1))"
  assumes "cmd pkt = ReadReq" "isDemandFetch pkt" "\<not> isMayNotFill pkt" "pkt_isSet pkt VALID_ADDR"
    and "cacheLevel cf1 = 1" "tl_mayNotFill (targets (entry_of (mshrQueue c1) h))"
    and joined: "miss_on_mshr cf1 env pkt h t c1 = Inr (evs, calls, c1')"
    and unaligned: "pkt_addr pkt AND ucast (cc_blkSize cf2 - 1) \<noteq> 0"
    and below: "block_registers (cc_blkSize cf2) c2" "pfAckEn cf2"
      "i \<in> set (allocatedList (mshrQueue c2))" "\<not> qe_isUncacheable (entry_of (mshrQueue c2) i)"
      "mshr_matchBlockAddr_domain (entry_of (mshrQueue c2) i) ba (pkt_isSecure pkt) (pkt_domainID pkt) = Inr True"
    and fills: "\<forall>j\<in>set (allocatedList (mshrQueue c2)). tl_allocOnFill (targets (entry_of (mshrQueue c2) j))"
  shows "evs = [PfAck pkt] \<and> recvPfAck cf2 pkt c2 = Inr c2 \<and>
    (\<exists>j c2'. recvPfAck cf2 (pkt\<lparr>pkt_addr := ba\<rparr>) c2 = Inr c2' \<and> qe_blkAddr (entry_of (mshrQueue c2) j) = ba \<and>
      \<not> tl_mayNotFill (targets (entry_of (mshrQueue c2') j)))"
proof (intro conjI)
  let ?m = "\<lambda>j. if qe_isUncacheable (entry_of (mshrQueue c2) j) then Inr False
    else mshr_matchBlockAddr_domain (entry_of (mshrQueue c2) j) ba (pkt_isSecure pkt) (pkt_domainID pkt)"
  let ?q = "pkt\<lparr>pkt_addr := ba\<rparr>"
  show "evs = [PfAck pkt]"
    using joined assms(2-4,6,7)
    by (auto simp: miss_on_mshr_def count_cmd_def bind_result_eq_Inr require_eq_Inr Let_def read_attributes)
  show "recvPfAck cf2 pkt c2 = Inr c2"
    using assms(3,5) unaligned_not_found [OF below(1) unaligned]
    by (simp add: recvPfAck_def getAddr_def isSecure_def getBlockAddr_def)
  have "is_ok (?m j)" if "j \<in> set (allocatedList (mshrQueue c2))" for j
    using below(1) that by (auto simp: block_registers_def mshr_matchBlockAddr_domain_def)
  moreover have "?m i = Inr True" using below by simp
  ultimately obtain j where j: "find_entry ?m (allocatedList (mshrQueue c2)) = Inr (Some j)"
    "j \<in> set (allocatedList (mshrQueue c2))" "?m j = Inr True"
    using find_entry_first [of "allocatedList (mshrQueue c2)" ?m i] below(3) by blast
  have "mq_findMatch ba (pkt_isSecure pkt) (pkt_domainID pkt) c2 = Inr (Some j)"
    using j(1) by (simp add: mq_findMatch_def findMatch_domain_def)
  then have "recvPfAck cf2 ?q c2 = Inr (ack_mshr cf2 True j c2)"
    using assms(3,5) by (simp add: recvPfAck_def getAddr_def isSecure_def getBlockAddr_def isDemandFetch_def pkt_isSet_def pkt_domainID_def)
  moreover have "qe_blkAddr (entry_of (mshrQueue c2) j) = ba"
    using j(3) by (auto simp: mshr_matchBlockAddr_domain_def require_eq_Inr split: if_splits)
  moreover have "\<not> tl_mayNotFill (targets (entry_of (mshrQueue (ack_mshr cf2 True j c2)) j))"
    by (rule ack_withdraws) (use below j(2) fills in \<open>auto simp: block_registers_def\<close>)
  ultimately show "\<exists>j c2'. recvPfAck cf2 ?q c2 = Inr c2' \<and> qe_blkAddr (entry_of (mshrQueue c2) j) = ba \<and>
      \<not> tl_mayNotFill (targets (entry_of (mshrQueue c2') j))" by blast
qed

definition demo_demand :: packet where
  "demo_demand = (case new_packet (setDomainID 9 (new_request 9 0 0x1002 1 DEMAND_FETCH 1)) ReadReq of
     Inr p \<Rightarrow> (case allocate p [7] of Inr q \<Rightarrow> q | Inl _ \<Rightarrow> p) | Inl _ \<Rightarrow> demo_resp)"

text \<open>A cache with one register, which waits for the line of the no-fill load.\<close>

definition demo_waiting :: "(nat \<Rightarrow> lru_data) cache" where
  "demo_waiting = (case recvTimingReq demo_conf demo_ops demo_env demo_load demo_cache of
     Inr (_, _, c) \<Rightarrow> c | Inl _ \<Rightarrow> demo_cache)"

theorem demand_ack_lost_witness:
  "\<exists>calls c1'. miss_on_mshr demo_conf demo_env demo_demand 0 0 demo_waiting = Inr ([PfAck demo_demand], calls, c1') \<and>
     recvPfAck demo_conf demo_demand demo_waiting = Inr demo_waiting"
proof -
  have "(\<lambda>c q. is_ok (miss_on_mshr demo_conf demo_env q 0 0 c) \<and> tl_mayNotFill (targets (entry_of (mshrQueue c) 0)) \<and>
      block_registers (cc_blkSize demo_conf) c \<and> 0 \<in> set (allocatedList (mshrQueue c)) \<and>
      \<not> qe_isUncacheable (entry_of (mshrQueue c) 0) \<and>
      mshr_matchBlockAddr_domain (entry_of (mshrQueue c) 0) (pkt_addr q AND NOT (ucast (cc_blkSize demo_conf - 1)))
        (pkt_isSecure q) (pkt_domainID q) = Inr True \<and>
      (\<forall>j\<in>set (allocatedList (mshrQueue c)). tl_allocOnFill (targets (entry_of (mshrQueue c) j)))) demo_waiting demo_demand"
    by code_simp
  then obtain evs calls c1' where m: "miss_on_mshr demo_conf demo_env demo_demand 0 0 demo_waiting = Inr (evs, calls, c1')"
    and b: "tl_mayNotFill (targets (entry_of (mshrQueue demo_waiting) 0))"
      "block_registers (cc_blkSize demo_conf) demo_waiting" "0 \<in> set (allocatedList (mshrQueue demo_waiting))"
      "\<not> qe_isUncacheable (entry_of (mshrQueue demo_waiting) 0)"
      "mshr_matchBlockAddr_domain (entry_of (mshrQueue demo_waiting) 0) (pkt_addr demo_demand AND NOT (ucast (cc_blkSize demo_conf - 1)))
         (pkt_isSecure demo_demand) (pkt_domainID demo_demand) = Inr True"
      "\<forall>j\<in>set (allocatedList (mshrQueue demo_waiting)). tl_allocOnFill (targets (entry_of (mshrQueue demo_waiting) j))"
    by (auto simp: is_ok_iff)
  have p: "cmd demo_demand = ReadReq" "isDemandFetch demo_demand" "\<not> isMayNotFill demo_demand" "pkt_isSet demo_demand VALID_ADDR"
    "cacheLevel demo_conf = 1" "pkt_addr demo_demand AND ucast (cc_blkSize demo_conf - 1) \<noteq> 0" "pfAckEn demo_conf"
    by code_simp+
  show ?thesis using demand_ack_lost [OF p(1-5) b(1) m p(6) b(2) p(7) b(3-6)] m by simp
qed

end
