(* ===== verification/Prefetch.thy ===== *)
theory Prefetch
  imports Packet_Data
begin

text \<open>
  The base class of the prefetchers (\<^verbatim>\<open>mem/cache/prefetch/base.hh\<close>, \<^verbatim>\<open>base.cc\<close>): the summary of an
  access a prefetcher is given, address arithmetic on blocks and pages, which accesses are observed,
  and the two entry points that call the virtual \<^verbatim>\<open>notify\<close>. The questions a prefetcher asks its cache
  are the record \<open>cache_view\<close>; the state is the record \<open>pf_base\<close>, which the prefetchers extend.
\<close>

section \<open>Environment\<close>

text \<open>
  What an operation reads from the simulator around it: the current tick, the clock period, the
  contents of freshly allocated memory and of an uninitialised \<^verbatim>\<open>domainID\<close>.
\<close>

record sim_env =
  env_now :: tick
  env_clockPeriod :: tick
  env_indeterminate :: domain_id
  env_fresh :: "u8 list"

record cache_view =
  cv_inCache :: "addr \<Rightarrow> bool \<Rightarrow> domain_id \<Rightarrow> bool result"
  cv_inMissQueue :: "addr \<Rightarrow> bool \<Rightarrow> domain_id \<Rightarrow> bool result"
  cv_hasBeenPrefetched :: "addr \<Rightarrow> bool \<Rightarrow> domain_id \<Rightarrow> bool result"
  cv_coalesce :: bool
  cv_blkSize :: u32

section \<open>Access summaries\<close>

record pf_info =
  pfi_address :: addr
  pfi_pc :: addr
  pfi_requestorId :: "16 word"
  pfi_validPC :: bool
  pfi_secure :: bool
  pfi_size :: u32
  pfi_write :: bool
  pfi_paddress :: addr
  pfi_cacheMiss :: bool
  pfi_domainID :: domain_id
  pfi_data :: "u8 list option"

definition pfi_copyData :: "packet \<Rightarrow> addr \<Rightarrow> u32 \<Rightarrow> u8 list result" where
  "pfi_copyData pkt paddr sz =
     bind_result (getAddr pkt) (\<lambda>a. bind_result (getConstPtr pkt) (\<lambda>src.
     let off = unat (paddr - a)
     in require (off + unat sz \<le> length src) Undefined (Inr (take (unat sz) (drop off src)))))"

definition new_prefetchInfo :: "packet \<Rightarrow> addr \<Rightarrow> bool \<Rightarrow> pf_info result" where
  "new_prefetchInfo pkt a miss =
     (let r = pkt_req pkt; wr = cmd_isWrite (cmd pkt)
      in bind_result (isSecure pkt) (\<lambda>sec. bind_result (req_getSize r) (\<lambda>sz.
         bind_result (getPaddr r) (\<lambda>paddr.
         bind_result (if \<not> wr \<and> miss then Inr None
                      else bind_result (pfi_copyData pkt paddr sz) (\<lambda>bytes. Inr (Some bytes))) (\<lambda>d.
         Inr \<lparr>pfi_address = a, pfi_pc = (if hasPC r then req_pc r else 0),
              pfi_requestorId = req_requestorId r, pfi_validPC = hasPC r, pfi_secure = sec,
              pfi_size = sz, pfi_write = wr, pfi_paddress = paddr, pfi_cacheMiss = miss,
              pfi_domainID = pkt_domainID pkt, pfi_data = d\<rparr>)))))"

definition derive_prefetchInfo :: "pf_info \<Rightarrow> addr \<Rightarrow> pf_info" where
  "derive_prefetchInfo pfi a = pfi\<lparr>pfi_address := a, pfi_data := None\<rparr>"

definition pfi_getPC :: "pf_info \<Rightarrow> addr result" where
  "pfi_getPC pfi = require (pfi_validPC pfi) Assert (Inr (pfi_pc pfi))"

definition sameAddr :: "pf_info \<Rightarrow> pf_info \<Rightarrow> bool" where
  "sameAddr x y \<longleftrightarrow> pfi_address x = pfi_address y \<and> pfi_secure x = pfi_secure y"

section \<open>State\<close>

record pf_base =
  pf_hasCache :: bool
  pf_blkSize :: u32
  pf_lBlkSize :: nat
  onMiss :: bool
  onRead :: bool
  onWrite :: bool
  onData :: bool
  onInst :: bool
  pf_requestorId :: "16 word"
  pageBytes :: addr
  prefetchOnAccess :: bool
  useVirtualAddresses :: bool
  pfIssued :: nat
  issuedPrefetches :: "64 word"
  usefulPrefetches :: "64 word"
  pf_hasTlb :: bool

definition new_pf_base ::
  "u32 \<Rightarrow> bool \<times> bool \<times> bool \<times> bool \<times> bool \<Rightarrow> 16 word \<Rightarrow> addr \<Rightarrow> bool \<Rightarrow> bool \<Rightarrow> pf_base result" where
  "new_pf_base block_size on rid page on_access use_virtual =
     (case on of (miss, rd, wr, dat, ins) \<Rightarrow>
        bind_result (floorLog2 4 (ucast block_size)) (\<lambda>l.
        Inr \<lparr>pf_hasCache = False, pf_blkSize = block_size, pf_lBlkSize = l, onMiss = miss,
             onRead = rd, onWrite = wr, onData = dat, onInst = ins, pf_requestorId = rid,
             pageBytes = page, prefetchOnAccess = on_access, useVirtualAddresses = use_virtual,
             pfIssued = 0, issuedPrefetches = 0, usefulPrefetches = 0, pf_hasTlb = False\<rparr>))"

definition setCache :: "cache_view \<Rightarrow> 'z pf_base_scheme \<Rightarrow> 'z pf_base_scheme result" where
  "setCache cv s = require (\<not> pf_hasCache s) Assert
     (bind_result (floorLog2 4 (ucast (cv_blkSize cv))) (\<lambda>l.
      Inr (s\<lparr>pf_hasCache := True, pf_blkSize := cv_blkSize cv, pf_lBlkSize := l\<rparr>)))"

definition addTLB :: "'z pf_base_scheme \<Rightarrow> 'z pf_base_scheme result" where
  "addTLB s = require (\<not> pf_hasTlb s) Fatal (Inr (s\<lparr>pf_hasTlb := True\<rparr>))"

section \<open>Observed accesses\<close>

definition observeAccess :: "'z pf_base_scheme \<Rightarrow> packet \<Rightarrow> bool \<Rightarrow> bool" where
  "observeAccess s pkt miss =
     (let fetch = req_isInstFetch (pkt_req pkt); rd = cmd_isRead (cmd pkt); inv = cmd_isInvalidate (cmd pkt)
      in if \<not> miss \<and> \<not> prefetchOnAccess s then False
         else if req_isUncacheable (pkt_req pkt) then False
         else if fetch \<and> \<not> onInst s then False
         else if \<not> fetch \<and> \<not> onData s then False
         else if \<not> fetch \<and> rd \<and> \<not> onRead s then False
         else if \<not> fetch \<and> \<not> rd \<and> \<not> onWrite s then False
         else if \<not> fetch \<and> \<not> rd \<and> inv then False
         else if cmd pkt = CleanEvict then False
         else if onMiss s then miss
         else True)"

text \<open>The questions to the cache dereference the pointer that \<^verbatim>\<open>setCache\<close> stored.\<close>

definition pf_inCache :: "cache_view \<Rightarrow> 'z pf_base_scheme \<Rightarrow> addr \<Rightarrow> bool \<Rightarrow> domain_id \<Rightarrow> bool result" where
  "pf_inCache cv s a sec d = require (pf_hasCache s) Undefined (cv_inCache cv a sec d)"

definition pf_inMissQueue :: "cache_view \<Rightarrow> 'z pf_base_scheme \<Rightarrow> addr \<Rightarrow> bool \<Rightarrow> domain_id \<Rightarrow> bool result" where
  "pf_inMissQueue cv s a sec d = require (pf_hasCache s) Undefined (cv_inMissQueue cv a sec d)"

definition pf_hasBeenPrefetched ::
  "cache_view \<Rightarrow> 'z pf_base_scheme \<Rightarrow> addr \<Rightarrow> bool \<Rightarrow> domain_id \<Rightarrow> bool result" where
  "pf_hasBeenPrefetched cv s a sec d = require (pf_hasCache s) Undefined (cv_hasBeenPrefetched cv a sec d)"

section \<open>Blocks and pages\<close>

definition samePage :: "'z pf_base_scheme \<Rightarrow> addr \<Rightarrow> addr \<Rightarrow> bool result" where
  "samePage s a b =
     bind_result (roundDown a (pageBytes s)) (\<lambda>x. bind_result (roundDown b (pageBytes s)) (\<lambda>y.
     Inr (x = y)))"

definition blockAddress :: "'z pf_base_scheme \<Rightarrow> addr \<Rightarrow> addr" where
  "blockAddress s a = a AND NOT (ucast (pf_blkSize s) - 1)"

definition blockIndex :: "'z pf_base_scheme \<Rightarrow> addr \<Rightarrow> addr" where
  "blockIndex s a = drop_bit (pf_lBlkSize s) a"

definition pageAddress :: "'z pf_base_scheme \<Rightarrow> addr \<Rightarrow> addr result" where
  "pageAddress s a = roundDown a (pageBytes s)"

definition pageOffset :: "'z pf_base_scheme \<Rightarrow> addr \<Rightarrow> addr" where
  "pageOffset s a = a AND (pageBytes s - 1)"

definition pageIthBlockAddress :: "'z pf_base_scheme \<Rightarrow> addr \<Rightarrow> u32 \<Rightarrow> addr" where
  "pageIthBlockAddress s page i = page + ucast (push_bit (pf_lBlkSize s) i)"

section \<open>Entry points\<close>

definition pf_skips :: "cache_view \<Rightarrow> 'z pf_base_scheme \<Rightarrow> packet \<Rightarrow> bool" where
  "pf_skips cv s pkt \<longleftrightarrow> cmd_isSWPrefetch (cmd pkt) \<or> req_isCacheMaintenance (pkt_req pkt) \<or>
     cmd_isWrite (cmd pkt) \<and> pf_hasCache s \<and> cv_coalesce cv"

definition count_useful :: "cache_view \<Rightarrow> packet \<Rightarrow> 'z pf_base_scheme \<Rightarrow> 'z pf_base_scheme result" where
  "count_useful cv pkt s =
     bind_result (getAddr pkt) (\<lambda>a. bind_result (isSecure pkt) (\<lambda>sec.
     bind_result (pf_hasBeenPrefetched cv s a sec (pkt_domainID pkt)) (\<lambda>useful.
     Inr (if useful then s\<lparr>usefulPrefetches := usefulPrefetches s + 1\<rparr> else s))))"

definition probeNotify ::
  "cache_view \<Rightarrow> (packet \<Rightarrow> pf_info \<Rightarrow> 'z pf_base_scheme \<Rightarrow> 'z pf_base_scheme result) \<Rightarrow>
   packet \<Rightarrow> bool \<Rightarrow> 'z pf_base_scheme \<Rightarrow> 'z pf_base_scheme result" where
  "probeNotify cv ntfy pkt miss s =
     (if pf_skips cv s pkt then Inr s
      else require (hasPaddr (pkt_req pkt)) Panic
        (bind_result (count_useful cv pkt s) (\<lambda>s1.
         if \<not> observeAccess s1 pkt miss then Inr s1
         else if useVirtualAddresses s1 \<and> hasVaddr (pkt_req pkt)
         then bind_result (getVaddr (pkt_req pkt)) (\<lambda>va.
              bind_result (new_prefetchInfo pkt va miss) (\<lambda>pfi. ntfy pkt pfi s1))
         else if \<not> useVirtualAddresses s1
         then bind_result (getPaddr (pkt_req pkt)) (\<lambda>pa.
              bind_result (new_prefetchInfo pkt pa miss) (\<lambda>pfi. ntfy pkt pfi s1))
         else Inr s1)))"

definition directNotify ::
  "cache_view \<Rightarrow> (packet \<Rightarrow> pf_info \<Rightarrow> 'z pf_base_scheme \<Rightarrow> 'z pf_base_scheme result) \<Rightarrow>
   packet \<Rightarrow> 'z pf_base_scheme \<Rightarrow> 'z pf_base_scheme result" where
  "directNotify cv ntfy pkt s =
     (if pf_skips cv s pkt then Inr s
      else require (hasPaddr (pkt_req pkt)) Panic
        (bind_result (count_useful cv pkt s) (\<lambda>s1.
         require (\<not> useVirtualAddresses s1) Panic
           (bind_result (getPaddr (pkt_req pkt)) (\<lambda>pa.
            bind_result (new_prefetchInfo pkt pa True) (\<lambda>pfi. ntfy pkt pfi s1))))))"

text \<open>A listener forwards a fill to \<^verbatim>\<open>notifyFill\<close> and every other event to \<^verbatim>\<open>probeNotify\<close>.\<close>

definition listener_notify ::
  "(packet \<Rightarrow> 's \<Rightarrow> 's result) \<Rightarrow> (packet \<Rightarrow> bool \<Rightarrow> 's \<Rightarrow> 's result) \<Rightarrow> bool \<Rightarrow> bool \<Rightarrow>
   packet \<Rightarrow> 's \<Rightarrow> 's result" where
  "listener_notify notifyFill probe isFill miss pkt s =
     (if isFill then notifyFill pkt s else probe pkt miss s)"

end
