(* ===== verification/Queued_Prefetch.thy ===== *)
theory Queued_Prefetch
  imports Prefetch "HOL-Library.Multiset"
begin

text \<open>
  The queued prefetchers (\<^verbatim>\<open>mem/cache/prefetch/queued.hh\<close>, \<^verbatim>\<open>queued.cc\<close>). A prefetch waits in one of
  two priority lists, with its packet made or with a translation missing. A list node has an identity
  that the translation hardware keeps as a pointer; it is the field \<open>dp_node\<close>, and a swap of two
  nodes exchanges everything else.
\<close>

section \<open>State\<close>

record deferred =
  dp_node :: nat
  dp_pfInfo :: pf_info
  dp_tick :: tick
  dp_pkt :: "packet option"
  dp_priority :: int
  dp_translationRequest :: "request option"
  dp_tc :: "int option"
  dp_ongoing :: bool

record queued = pf_base +
  pfq :: "deferred list"
  pfqMissing :: "deferred list"
  nextNode :: nat
  queueSize :: u32
  pf_latency :: "64 word"
  queueSquash :: bool
  queueFilter :: bool
  cacheSnoop :: bool
  tagPrefetch :: bool
  throttleControlPct :: u32
  pfIdentified :: nat
  pfBufferHit :: nat
  pfInCache :: nat
  pfRemovedFull :: nat
  pfSpanPage :: nat

definition new_deferred :: "pf_info \<Rightarrow> tick \<Rightarrow> int \<Rightarrow> deferred" where
  "new_deferred pfi t prio = \<lparr>dp_node = 0, dp_pfInfo = pfi, dp_tick = t, dp_pkt = None,
     dp_priority = prio, dp_translationRequest = None, dp_tc = None, dp_ongoing = False\<rparr>"

definition createPkt :: "sim_env \<Rightarrow> addr \<Rightarrow> u32 \<Rightarrow> 16 word \<Rightarrow> bool \<Rightarrow> tick \<Rightarrow> deferred \<Rightarrow> deferred result" where
  "createPkt env paddr blk_size rid tag_prefetch t dp =
     (let pfi = dp_pfInfo dp;
          r0 = new_request (env_indeterminate env) (env_now env) paddr blk_size 0 rid
      in bind_result (if pfi_secure pfi then setFlags SECURE r0 else Inr r0) (\<lambda>r1.
         let r2 = (setDomainID (pfi_domainID pfi) r1)\<lparr>req_taskId := TaskId_Prefetcher\<rparr>
         in bind_result (new_packet r2 HardPFReq) (\<lambda>p0. bind_result (allocate p0 (env_fresh env)) (\<lambda>p1.
            bind_result (if tag_prefetch \<and> pfi_validPC pfi
                         then bind_result (pfi_getPC pfi) (\<lambda>pc. Inr (p1\<lparr>pkt_req := setPC pc (pkt_req p1)\<rparr>))
                         else Inr p1) (\<lambda>p2.
            Inr (dp\<lparr>dp_pkt := Some p2, dp_tick := t\<rparr>))))))"

section \<open>The priority lists\<close>

text \<open>
  \<^verbatim>\<open>addToQueue\<close>: a full list first loses the first of the entries at its end that share a priority.
  The insertion position is found from the end: \<open>insert_scan k\<close> is the iterator after the loop has
  stepped back to position \<open>k\<close>.
\<close>

fun evict_scan :: "nat \<Rightarrow> nat \<Rightarrow> deferred list \<Rightarrow> nat" where
  "evict_scan 0 it q = it"
| "evict_scan (Suc prev) it q =
     (if dp_priority (q ! prev) = dp_priority (q ! it) then evict_scan prev prev q else it)"

definition erase_at :: "nat \<Rightarrow> 'a list \<Rightarrow> 'a list" where
  "erase_at i q = take i q @ drop (Suc i) q"

definition insert_at :: "nat \<Rightarrow> 'a \<Rightarrow> 'a list \<Rightarrow> 'a list" where
  "insert_at i x q = take i q @ x # drop i q"

fun insert_scan :: "nat \<Rightarrow> deferred \<Rightarrow> deferred list \<Rightarrow> nat" where
  "insert_scan 0 dpp q = 0"
| "insert_scan (Suc k) dpp q =
     (if dp_priority dpp > dp_priority (q ! Suc k) then insert_scan k dpp q else Suc k)"

definition insert_pos :: "deferred \<Rightarrow> deferred list \<Rightarrow> nat" where
  "insert_pos dpp q =
     (if q = [] then 0
      else let it = insert_scan (length q - 1) dpp q
           in if it = 0 \<and> dp_priority dpp \<le> dp_priority (q ! 0) then 1 else it)"

definition evict_full :: "u32 \<Rightarrow> deferred list \<Rightarrow> (bool \<times> deferred list) result" where
  "evict_full sz q =
     (if length q = unat sz
      then require (q \<noteq> []) Panic (require (length q \<noteq> 1) Panic
             (Inr (True, erase_at (evict_scan (length q - 1) (length q - 1) q) q)))
      else Inr (False, q))"

definition addToQueue :: "u32 \<Rightarrow> deferred \<Rightarrow> deferred list \<Rightarrow> (bool \<times> deferred list) result" where
  "addToQueue sz dpp q =
     bind_result (evict_full sz q) (\<lambda>(removed, q1). Inr (removed, insert_at (insert_pos dpp q1) dpp q1))"

definition count_removed :: "bool \<Rightarrow> 'z queued_scheme \<Rightarrow> 'z queued_scheme" where
  "count_removed removed s = s\<lparr>pfRemovedFull := pfRemovedFull s + (if removed then 1 else 0), nextNode := nextNode s + 1\<rparr>"

definition add_pfq :: "deferred \<Rightarrow> 'z queued_scheme \<Rightarrow> 'z queued_scheme result" where
  "add_pfq dpp s =
     bind_result (addToQueue (queueSize s) (dpp\<lparr>dp_node := nextNode s\<rparr>) (pfq s)) (\<lambda>(removed, q).
     Inr (count_removed removed s\<lparr>pfq := q\<rparr>))"

definition add_pfqMissing :: "deferred \<Rightarrow> 'z queued_scheme \<Rightarrow> 'z queued_scheme result" where
  "add_pfqMissing dpp s =
     bind_result (addToQueue (queueSize s) (dpp\<lparr>dp_node := nextNode s\<rparr>) (pfqMissing s)) (\<lambda>(removed, q).
     Inr (count_removed removed s\<lparr>pfqMissing := q\<rparr>))"

text \<open>
  \<^verbatim>\<open>alreadyInQueue\<close>: the search loop advances its iterator once more after the match, so the entry
  whose priority is raised, \<open>search_end\<close>, is the one behind the match. A raised entry is swapped
  towards the front.
\<close>

fun search_end :: "pf_info \<Rightarrow> deferred list \<Rightarrow> nat" where
  "search_end pfi [] = 0"
| "search_end pfi (x # q) = (if sameAddr (dp_pfInfo x) pfi then 1 else Suc (search_end pfi q))"

definition queue_has :: "pf_info \<Rightarrow> deferred list \<Rightarrow> bool" where
  "queue_has pfi q \<longleftrightarrow> list_ex (\<lambda>x. sameAddr (dp_pfInfo x) pfi) q"

definition swap_nodes :: "nat \<Rightarrow> nat \<Rightarrow> deferred list \<Rightarrow> deferred list" where
  "swap_nodes i j q = q[i := (q ! j)\<lparr>dp_node := dp_node (q ! i)\<rparr>, j := (q ! i)\<lparr>dp_node := dp_node (q ! j)\<rparr>]"

fun bubble_up :: "nat \<Rightarrow> nat \<Rightarrow> deferred list \<Rightarrow> deferred list" where
  "bubble_up 0 it q = q"
| "bubble_up (Suc prev) it q =
     (if dp_priority (q ! it) > dp_priority (q ! prev) then bubble_up prev prev (swap_nodes it prev q)
      else bubble_up prev it q)"

definition alreadyInQueue :: "pf_info \<Rightarrow> int \<Rightarrow> deferred list \<Rightarrow> bool \<times> bool \<times> deferred list" where
  "alreadyInQueue pfi prio q =
     (let it = search_end pfi q
      in (queue_has pfi q, it < length q,
          if it < length q \<and> dp_priority (q ! it) < prio
          then bubble_up it it (q[it := (q ! it)\<lparr>dp_priority := prio\<rparr>]) else q))"

definition filter_pfq :: "pf_info \<Rightarrow> int \<Rightarrow> 'z queued_scheme \<Rightarrow> bool \<times> 'z queued_scheme" where
  "filter_pfq pfi prio s =
     (case alreadyInQueue pfi prio (pfq s) of (found, hit, q) \<Rightarrow>
       (found, s\<lparr>pfq := q, pfBufferHit := pfBufferHit s + (if hit then 1 else 0)\<rparr>))"

definition filter_pfqMissing :: "pf_info \<Rightarrow> int \<Rightarrow> 'z queued_scheme \<Rightarrow> bool \<times> 'z queued_scheme" where
  "filter_pfqMissing pfi prio s =
     (case alreadyInQueue pfi prio (pfqMissing s) of (found, hit, q) \<Rightarrow>
       (found, s\<lparr>pfqMissing := q, pfBufferHit := pfBufferHit s + (if hit then 1 else 0)\<rparr>))"

text \<open>The filter at the start of \<^verbatim>\<open>insert\<close>: the second list is searched only if the first has no match.\<close>

definition queue_filter :: "pf_info \<Rightarrow> int \<Rightarrow> 'z queued_scheme \<Rightarrow> bool \<times> 'z queued_scheme" where
  "queue_filter pfi prio s =
     (if queueFilter s
      then case filter_pfq pfi prio s of (found, s1) \<Rightarrow>
             if found then (True, s1) else filter_pfqMissing pfi prio s1
      else (False, s))"

definition snoop_hit :: "cache_view \<Rightarrow> 'z queued_scheme \<Rightarrow> addr \<Rightarrow> pf_info \<Rightarrow> bool result" where
  "snoop_hit cv s paddr pfi =
     (if cacheSnoop s
      then bind_result (pf_inCache cv s paddr (pfi_secure pfi) (pfi_domainID pfi)) (\<lambda>b.
           if b then Inr True else pf_inMissQueue cv s paddr (pfi_secure pfi) (pfi_domainID pfi))
      else Inr False)"

definition make_pkt :: "sim_env \<Rightarrow> 'z queued_scheme \<Rightarrow> addr \<Rightarrow> deferred \<Rightarrow> deferred result" where
  "make_pkt env s paddr dp =
     createPkt env paddr (pf_blkSize s) (pf_requestorId s) (tagPrefetch s)
       (env_now env + env_clockPeriod env * pf_latency s) dp"

section \<open>Insertion\<close>

definition createPrefetchRequest :: "sim_env \<Rightarrow> 'z queued_scheme \<Rightarrow> addr \<Rightarrow> pf_info \<Rightarrow> packet \<Rightarrow> request result" where
  "createPrefetchRequest env s a pfi pkt =
     require (hasPaddr (pkt_req pkt) \<or> hasVaddr (pkt_req pkt)) Assert
     (bind_result (pfi_getPC pfi) (\<lambda>pc. bind_result (contextId (pkt_req pkt)) (\<lambda>cid.
     bind_result (setFlags PREFETCH (new_request_virt (env_indeterminate env) (env_now env) a (pf_blkSize s)
       (req_flags (pkt_req pkt)) (pf_requestorId s) pc cid)) (\<lambda>r.
     Inr (setDomainID (pfi_domainID pfi) r)))))"

text \<open>
  Where \<^verbatim>\<open>insert\<close> sends a candidate: to a known physical address, to a translation, or nowhere.
\<close>

datatype pf_target = TargetPA addr | TargetTranslation request | TargetNone

definition strided :: "bool \<Rightarrow> addr \<Rightarrow> addr \<Rightarrow> addr" where
  "strided positive a stride = (if positive then a + stride else a - stride)"

definition pf_target_of :: "sim_env \<Rightarrow> 'z queued_scheme \<Rightarrow> packet \<Rightarrow> pf_info \<Rightarrow> pf_target result" where
  "pf_target_of env s pkt pfi =
     bind_result (if useVirtualAddresses s then getVaddr (pkt_req pkt) else getPaddr (pkt_req pkt)) (\<lambda>orig.
     let a = pfi_address pfi; positive = orig \<le> a; stride = (if positive then a - orig else orig - a)
     in bind_result (samePage s orig a) (\<lambda>same.
        if same
        then if useVirtualAddresses s
             then bind_result (getPaddr (pkt_req pkt)) (\<lambda>pa. Inr (TargetPA (strided positive pa stride)))
             else Inr (TargetPA a)
        else if \<not> hasContextId (pkt_req pkt) then Inr TargetNone
        else if useVirtualAddresses s
        then bind_result (createPrefetchRequest env s a pfi pkt) (\<lambda>r. Inr (TargetTranslation r))
        else if hasVaddr (pkt_req pkt)
        then bind_result (getVaddr (pkt_req pkt)) (\<lambda>va.
             bind_result (createPrefetchRequest env s (strided positive va stride) pfi pkt) (\<lambda>r.
             Inr (TargetTranslation r)))
        else Inr TargetNone))"

definition q_insert ::
  "cache_view \<Rightarrow> sim_env \<Rightarrow> packet \<Rightarrow> pf_info \<Rightarrow> int \<Rightarrow> 'z queued_scheme \<Rightarrow> 'z queued_scheme result" where
  "q_insert cv env pkt pfi prio s0 =
     (case queue_filter pfi prio s0 of (found, s) \<Rightarrow>
      if found then Inr s
      else bind_result (pf_target_of env s pkt pfi) (\<lambda>tgt.
        case tgt of
          TargetNone \<Rightarrow> Inr s
        | TargetPA pa \<Rightarrow>
            bind_result (snoop_hit cv s pa pfi) (\<lambda>hit.
            if hit then Inr (s\<lparr>pfInCache := pfInCache s + 1\<rparr>)
            else bind_result (make_pkt env s pa (new_deferred pfi 0 prio)) (\<lambda>dp. add_pfq dp s))
        | TargetTranslation r \<Rightarrow>
            bind_result (contextId r) (\<lambda>cid.
            add_pfqMissing ((new_deferred pfi 0 prio)\<lparr>dp_translationRequest := Some r, dp_tc := Some cid\<rparr>) s)))"

section \<open>Notification\<close>

definition getMaxPermittedPrefetches :: "'z queued_scheme \<Rightarrow> 64 word \<Rightarrow> 64 word" where
  "getMaxPermittedPrefetches s n =
     (if 0 < n \<and> 0 < issuedPrefetches s
      then let throttle_pfs = (n * ucast (throttleControlPct s)) div 100;
               min_pfs = (if n - throttle_pfs = 0 then 1 else n - throttle_pfs)
           in min_pfs + (n - min_pfs) * usefulPrefetches s div issuedPrefetches s
      else n)"

definition squash :: "pf_info \<Rightarrow> 'z queued_scheme \<Rightarrow> 'z queued_scheme" where
  "squash pfi s =
     (if queueSquash s
      then s\<lparr>pfq := filter (\<lambda>dp. \<not> (pfi_address (dp_pfInfo dp) = blockAddress s (pfi_address pfi) \<and>
                                  pfi_secure (dp_pfInfo dp) = pfi_secure pfi)) (pfq s)\<rparr>
      else s)"

fun notify_loop ::
  "(pf_info \<Rightarrow> int \<Rightarrow> 'z queued_scheme \<Rightarrow> 'z queued_scheme result) \<Rightarrow> pf_info \<Rightarrow> 64 word \<Rightarrow> 64 word \<Rightarrow>
   (addr \<times> int) list \<Rightarrow> 'z queued_scheme \<Rightarrow> 'z queued_scheme result" where
  "notify_loop ins pfi max_pfs num_pfs [] s = Inr s"
| "notify_loop ins pfi max_pfs num_pfs (ap # rest) s =
     (let a = blockAddress s (fst ap)
      in bind_result (samePage s a (pfi_address pfi)) (\<lambda>same.
         let s1 = (if same then s else s\<lparr>pfSpanPage := pfSpanPage s + 1\<rparr>)
         in if pf_hasTlb s \<or> same
            then bind_result (ins (derive_prefetchInfo pfi a) (snd ap) (s1\<lparr>pfIdentified := pfIdentified s1 + 1\<rparr>)) (\<lambda>s2.
                 if num_pfs + 1 = max_pfs then Inr s2
                 else notify_loop ins pfi max_pfs (num_pfs + 1) rest s2)
            else notify_loop ins pfi max_pfs num_pfs rest s1))"

definition q_notify ::
  "('z queued_scheme \<Rightarrow> pf_info \<Rightarrow> (addr \<times> int) list result) \<Rightarrow>
   (packet \<Rightarrow> pf_info \<Rightarrow> int \<Rightarrow> 'z queued_scheme \<Rightarrow> 'z queued_scheme result) \<Rightarrow>
   packet \<Rightarrow> pf_info \<Rightarrow> 'z queued_scheme \<Rightarrow> 'z queued_scheme result" where
  "q_notify calculate ins pkt pfi s =
     (let s1 = squash pfi s
      in bind_result (calculate s1 pfi) (\<lambda>addresses.
         notify_loop (ins pkt) pfi (getMaxPermittedPrefetches s1 (of_nat (length addresses))) 0 addresses s1))"

section \<open>Translation and issue\<close>

text \<open>
  \<open>tlb\<close> is the translation hardware: for a request it either ends the translation inside the call
  (\<open>Some\<close> of whether it failed and of the translated request) or calls \<^verbatim>\<open>finish\<close> later (\<open>None\<close>).
\<close>

fun find_node :: "nat \<Rightarrow> deferred list \<Rightarrow> nat option" where
  "find_node n [] = None"
| "find_node n (x # q) = (if dp_node x = n then Some 0 else map_option Suc (find_node n q))"

definition translationComplete ::
  "cache_view \<Rightarrow> sim_env \<Rightarrow> nat \<Rightarrow> bool \<Rightarrow> 'z queued_scheme \<Rightarrow> 'z queued_scheme result" where
  "translationComplete cv env node failed s =
     (case find_node node (pfqMissing s) of
        None \<Rightarrow> Inl Assert
      | Some i \<Rightarrow>
          let dp = pfqMissing s ! i
          in bind_result
               (if failed then Inr s
                else case dp_translationRequest dp of
                       None \<Rightarrow> Inl Undefined
                     | Some r \<Rightarrow> bind_result (getPaddr r) (\<lambda>pa.
                         bind_result (snoop_hit cv s pa (dp_pfInfo dp)) (\<lambda>hit.
                         if hit then Inr (s\<lparr>pfInCache := pfInCache s + 1\<rparr>)
                         else bind_result (make_pkt env s pa dp) (\<lambda>dp'. add_pfq dp' s)))) (\<lambda>s1.
             Inr (s1\<lparr>pfqMissing := erase_at i (pfqMissing s1)\<rparr>)))"

definition q_finish ::
  "cache_view \<Rightarrow> sim_env \<Rightarrow> nat \<Rightarrow> bool \<times> request \<Rightarrow> 'z queued_scheme \<Rightarrow> 'z queued_scheme result" where
  "q_finish cv env node res s =
     (case find_node node (pfqMissing s) of
        None \<Rightarrow> Inl Undefined
      | Some i \<Rightarrow>
          let dp = pfqMissing s ! i
          in require (dp_ongoing dp) Assert
               (translationComplete cv env node (fst res)
                  (s\<lparr>pfqMissing := (pfqMissing s)[i := dp\<lparr>dp_ongoing := False,
                        dp_translationRequest := Some (snd res)\<rparr>]\<rparr>)))"

definition startTranslation ::
  "cache_view \<Rightarrow> sim_env \<Rightarrow> (request \<Rightarrow> (bool \<times> request) option) \<Rightarrow> nat \<Rightarrow>
   'z queued_scheme \<Rightarrow> 'z queued_scheme result" where
  "startTranslation cv env tlb node s =
     (case find_node node (pfqMissing s) of
        None \<Rightarrow> Inl Undefined
      | Some i \<Rightarrow>
          let dp = pfqMissing s ! i
          in case dp_translationRequest dp of
               None \<Rightarrow> Inl Assert
             | Some r \<Rightarrow>
                 if dp_ongoing dp then Inr s
                 else require (pf_hasTlb s) Undefined
                   (let s1 = s\<lparr>pfqMissing := (pfqMissing s)[i := dp\<lparr>dp_ongoing := True\<rparr>]\<rparr>
                    in case tlb r of None \<Rightarrow> Inr s1 | Some res \<Rightarrow> q_finish cv env node res s1))"

definition processMissingTranslations ::
  "cache_view \<Rightarrow> sim_env \<Rightarrow> (request \<Rightarrow> (bool \<times> request) option) \<Rightarrow> u32 \<Rightarrow>
   'z queued_scheme \<Rightarrow> 'z queued_scheme result" where
  "processMissingTranslations cv env tlb most s =
     fold_result (startTranslation cv env tlb) (take (unat most) (map dp_node (pfqMissing s))) s"

definition q_getPacket ::
  "cache_view \<Rightarrow> sim_env \<Rightarrow> (request \<Rightarrow> (bool \<times> request) option) \<Rightarrow>
   'z queued_scheme \<Rightarrow> (packet option \<times> 'z queued_scheme) result" where
  "q_getPacket cv env tlb s =
     bind_result (if pfq s = [] then processMissingTranslations cv env tlb (queueSize s) s else Inr s) (\<lambda>s1.
     case pfq s1 of
       [] \<Rightarrow> Inr (None, s1)
     | dp # rest \<Rightarrow>
         let s2 = s1\<lparr>pfq := rest, pfIssued := pfIssued s1 + 1, issuedPrefetches := issuedPrefetches s1 + 1\<rparr>
         in case dp_pkt dp of
              None \<Rightarrow> Inl Assert
            | Some pkt \<Rightarrow>
                bind_result (processMissingTranslations cv env tlb (queueSize s - of_nat (length rest)) s2) (\<lambda>s3.
                Inr (Some pkt, s3)))"

definition q_nextPrefetchReadyTime :: "sim_env \<Rightarrow> 'z queued_scheme \<Rightarrow> tick result" where
  "q_nextPrefetchReadyTime env s =
     (case pfq s of
        [] \<Rightarrow> Inr MaxTick
      | dp # _ \<Rightarrow>
          if dp_tick dp < env_now env
          then require (env_clockPeriod env \<noteq> 0) Undefined
                 (Inr (env_now env - env_now env mod env_clockPeriod env + env_clockPeriod env))
          else Inr (dp_tick dp))"

section \<open>A concrete prefetcher\<close>

definition demo_pfi :: pf_info where
  "demo_pfi = \<lparr>pfi_address = 0x2000, pfi_pc = 0, pfi_requestorId = 0, pfi_validPC = False, pfi_secure = False,
     pfi_size = 8, pfi_write = False, pfi_paddress = 0x2000, pfi_cacheMiss = True, pfi_domainID = 5, pfi_data = None\<rparr>"

definition demo_entry :: "int \<Rightarrow> deferred" where
  "demo_entry prio = new_deferred demo_pfi 0 prio"

definition demo_queued :: queued where
  "demo_queued = \<lparr>pf_hasCache = True, pf_blkSize = 64, pf_lBlkSize = 6, onMiss = False, onRead = True, onWrite = True,
     onData = True, onInst = True, pf_requestorId = 3, pageBytes = 0x1000, prefetchOnAccess = False,
     useVirtualAddresses = False, pfIssued = 0, issuedPrefetches = 0, usefulPrefetches = 0, pf_hasTlb = False,
     pfq = [], pfqMissing = [], nextNode = 0, queueSize = 4, pf_latency = 1, queueSquash = True, queueFilter = True,
     cacheSnoop = False, tagPrefetch = False, throttleControlPct = 0, pfIdentified = 0, pfBufferHit = 0,
     pfInCache = 0, pfRemovedFull = 0, pfSpanPage = 0\<rparr>"

definition demo_view :: cache_view where
  "demo_view = \<lparr>cv_inCache = (\<lambda>_ _ _. Inr False), cv_inMissQueue = (\<lambda>_ _ _. Inr False),
     cv_hasBeenPrefetched = (\<lambda>_ _ _. Inr False), cv_coalesce = False, cv_blkSize = 64\<rparr>"

definition demo_env :: sim_env where
  "demo_env = \<lparr>env_now = 100, env_clockPeriod = 10, env_indeterminate = 77, env_fresh = replicate 64 0\<rparr>"

definition demo_pf_packet :: packet where
  "demo_pf_packet = demo_read\<lparr>pkt_req := setDomainID 5 (new_request 77 0 0x2000 8 0 0)\<rparr>"

section \<open>Facts about the lists\<close>

lemma length_insert_at [simp]: "i \<le> length q \<Longrightarrow> length (insert_at i x q) = Suc (length q)"
  by (simp add: insert_at_def)

lemma set_insert_at [simp]: "set (insert_at i x q) = insert x (set q)"
  by (simp add: insert_at_def) (metis append_take_drop_id set_append)

lemma mset_insert_at [simp]: "mset (insert_at i x q) = add_mset x (mset q)"
  by (simp add: insert_at_def) (metis append_take_drop_id mset_append)

lemma length_erase_at [simp]: "i < length q \<Longrightarrow> length (erase_at i q) = length q - 1"
  by (simp add: erase_at_def)

lemma mset_erase_at: "i < length q \<Longrightarrow> mset q = add_mset (q ! i) (mset (erase_at i q))"
  by (simp add: erase_at_def) (metis id_take_nth_drop mset.simps(2) mset_append union_mset_add_mset_right)

lemma set_erase_at: "set (erase_at i q) \<subseteq> set q"
  by (auto simp: erase_at_def dest: in_set_takeD in_set_dropD)

lemma length_swap_nodes [simp]: "length (swap_nodes i j q) = length q"
  by (simp add: swap_nodes_def)

lemma length_bubble_up [simp]: "length (bubble_up k it q) = length q"
  by (induction k it q rule: bubble_up.induct) simp_all

lemma length_alreadyInQueue [simp]: "length (snd (snd (alreadyInQueue pfi prio q))) = length q"
  by (simp add: alreadyInQueue_def Let_def)

lemma swap_nodes_all:
  assumes "\<And>x n. P (x\<lparr>dp_node := n\<rparr>) = P x" "list_all P q" "i < length q" "j < length q"
  shows "list_all P (swap_nodes i j q)"
  using assms by (simp add: swap_nodes_def list_all_length nth_list_update)

lemma bubble_up_all:
  assumes "\<And>x n. P (x\<lparr>dp_node := n\<rparr>) = P x"
  shows "list_all P q \<Longrightarrow> it < length q \<Longrightarrow> k \<le> it \<Longrightarrow> list_all P (bubble_up k it q)"
  by (induction k it q rule: bubble_up.induct) (simp_all add: swap_nodes_all [OF assms])

lemma alreadyInQueue_all:
  assumes "\<And>x n. P (x\<lparr>dp_node := n\<rparr>) = P x" "\<And>x n. P (x\<lparr>dp_priority := n\<rparr>) = P x" "list_all P q"
  shows "list_all P (snd (snd (alreadyInQueue pfi prio q)))"
proof -
  have "list_all P (bubble_up i i (q[i := (q ! i)\<lparr>dp_priority := prio\<rparr>]))" if "i < length q" for i
  proof (rule bubble_up_all [OF assms(1)])
    show "list_all P (q[i := (q ! i)\<lparr>dp_priority := prio\<rparr>])"
      using assms(2,3) that by (simp add: list_all_length nth_list_update)
  qed (simp_all add: that)
  then show ?thesis using assms(3) by (simp add: alreadyInQueue_def Let_def)
qed

text \<open>Priorities do not rise from the front to the back of a list.\<close>

abbreviation by_priority :: "deferred list \<Rightarrow> bool" where
  "by_priority \<equiv> sorted_wrt (\<lambda>x y. dp_priority y \<le> dp_priority x)"

lemma evict_scan_bounds: "k \<le> it \<Longrightarrow> evict_scan k it q \<le> it"
proof (induction k arbitrary: it)
  case (Suc k)
  from Suc.IH [of k] Suc.prems have "evict_scan k k q \<le> it" by simp
  then show ?case by simp
qed simp

lemma evict_scan_priority: "dp_priority (q ! evict_scan k it q) = dp_priority (q ! it)"
  by (induction k it q rule: evict_scan.induct) simp_all

lemma insert_scan_bounds: "insert_scan k dpp q \<le> k"
  by (induction k dpp q rule: insert_scan.induct) (simp_all add: le_SucI)

lemma insert_pos_bounds: "insert_pos dpp q \<le> length q"
proof (cases "q = []")
  case False
  then have "insert_scan (length q - 1) dpp q \<le> length q - 1" "1 \<le> length q"
    by (simp_all add: insert_scan_bounds Suc_leI)
  then show ?thesis using False by (auto simp: insert_pos_def Let_def)
qed (simp add: insert_pos_def)

lemma by_priority_last:
  assumes "by_priority q" "y \<in> set q"
  shows "dp_priority (last q) \<le> dp_priority y"
  using assms by (induction q) auto

lemma evict_full_cases:
  assumes "evict_full sz q = Inr (removed, q1)"
  obtains "\<not> removed" "length q \<noteq> unat sz" "q1 = q"
  | i where "removed" "length q = unat sz" "2 \<le> length q" "i < length q" "q1 = erase_at i q"
      "dp_priority (q ! i) = dp_priority (last q)"
proof (cases "length q = unat sz")
  case True
  let ?i = "evict_scan (length q - 1) (length q - 1) q"
  from assms have "require (q \<noteq> []) Panic (require (length q \<noteq> 1) Panic
      (Inr (True, erase_at ?i q))) = Inr (removed, q1)"
    unfolding evict_full_def if_P [OF True] .
  then have r: "removed" and q: "q \<noteq> []" "length q \<noteq> 1" and q1: "q1 = erase_at ?i q"
    unfolding require_eq_Inr sum.inject prod.inject by blast+
  from q have "2 \<le> length q" by (cases q) (auto simp: Suc_le_eq)
  moreover have "?i < length q" using evict_scan_bounds [of "length q - 1" "length q - 1" q] q(1)
    by (cases q) auto
  moreover have "dp_priority (q ! ?i) = dp_priority (last q)"
    using q(1) by (simp add: evict_scan_priority last_conv_nth)
  ultimately show ?thesis by (intro that(2) [of ?i] r True q1)
next
  case False
  from assms have "\<not> removed" "q1 = q" unfolding evict_full_def if_not_P [OF False] by simp_all
  then show ?thesis using False by (intro that(1))
qed

lemma addToQueue_all:
  assumes "addToQueue sz dpp q = Inr (removed, q')" "list_all P q" "P dpp"
  shows "list_all P q'"
proof -
  from assms(1) obtain q1 where e: "evict_full sz q = Inr (removed, q1)"
    and q': "q' = insert_at (insert_pos dpp q1) dpp q1"
    by (auto simp: addToQueue_def result_simps)
  from e have "set q1 \<subseteq> set q" by (cases rule: evict_full_cases) (auto dest: subsetD [OF set_erase_at])
  then show ?thesis using q' assms(2,3) by (auto simp: list_all_iff)
qed

lemma addToQueue_length:
  assumes "addToQueue sz dpp q = Inr (removed, q')" "length q \<le> unat sz"
  shows "length q' \<le> unat sz"
proof -
  from assms(1) obtain q1 where e: "evict_full sz q = Inr (removed, q1)"
    and q': "q' = insert_at (insert_pos dpp q1) dpp q1"
    by (auto simp: addToQueue_def result_simps)
  from e have "Suc (length q1) \<le> unat sz" using assms(2) by (cases rule: evict_full_cases) auto
  then show ?thesis by (simp add: q' insert_pos_bounds)
qed

text \<open>Claim C30. Adding a prefetch to a list never makes the list longer than the queue size and never
  panics with room for two. Below the limit nothing is lost; at the limit exactly one entry leaves,
  and when the list is ordered by priority no entry has a lower priority than the one that leaves.\<close>
theorem add_to_queue_bounded:
  assumes "2 \<le> unat sz" "length q \<le> unat sz"
  shows "\<exists>removed q'. addToQueue sz dpp q = Inr (removed, q') \<and> length q' \<le> unat sz \<and>
    (removed \<longleftrightarrow> length q = unat sz) \<and>
    (\<not> removed \<longrightarrow> mset q' = add_mset dpp (mset q)) \<and>
    (removed \<longrightarrow> (\<exists>x \<in> set q. add_mset x (mset q') = add_mset dpp (mset q) \<and>
       (by_priority q \<longrightarrow> (\<forall>y \<in> set q. dp_priority x \<le> dp_priority y))))"
proof -
  have "\<exists>removed q1. evict_full sz q = Inr (removed, q1)"
    using assms by (cases q) (auto simp: evict_full_def)
  then obtain removed q1 where e: "evict_full sz q = Inr (removed, q1)" by blast
  define q' where "q' = insert_at (insert_pos dpp q1) dpp q1"
  have add: "addToQueue sz dpp q = Inr (removed, q')" by (simp add: addToQueue_def e q'_def)
  from e show ?thesis
  proof (cases rule: evict_full_cases)
    case 1
    then show ?thesis using add addToQueue_length [OF add assms(2)] by (auto simp: q'_def)
  next
    case (2 i)
    have "add_mset (q ! i) (mset q') = add_mset dpp (mset q)"
      using mset_erase_at [OF 2(4)] by (simp add: q'_def 2(5))
    moreover have "\<forall>y \<in> set q. by_priority q \<longrightarrow> dp_priority (q ! i) \<le> dp_priority y"
      using by_priority_last 2(6) by metis
    ultimately have "\<exists>x \<in> set q. add_mset x (mset q') = add_mset dpp (mset q) \<and>
       (by_priority q \<longrightarrow> (\<forall>y \<in> set q. dp_priority x \<le> dp_priority y))"
      using nth_mem [OF 2(4)] by blast
    then show ?thesis using add addToQueue_length [OF add assms(2)] 2(1,2) by blast
  qed
qed

theorem add_to_queue_bounded_witness:
  "2 \<le> unat (2 :: u32) \<and> (\<exists>removed q'. addToQueue 2 (demo_entry 7) [demo_entry 9, demo_entry 3] = Inr (removed, q') \<and>
     removed \<and> length q' \<le> 2)"
  using add_to_queue_bounded [of 2 "[demo_entry 9, demo_entry 3]" "demo_entry 7"] by auto


section \<open>Packets in the queue\<close>

lemma plain_flags: "\<not> flag_isSet (flag_set 0 0) NO_FILL" "\<not> flag_isSet (flag_set (flag_set 0 0) SECURE) NO_FILL"
  "\<not> flag_isSet (flag_set 0 0) SECURE" "flag_isSet (flag_set (flag_set 0 0) SECURE) SECURE"
  by (simp_all add: flag_isSet_def flag_set_def NO_FILL_def SECURE_def)

lemma hasPaddr_new_request [simp]: "hasPaddr (new_request i now a sz f rid)"
  by (simp add: hasPaddr_def new_request_def flag_isSet_def flag_set_def VALID_PADDR_def REQ_VALID_SIZE_def)

lemma hasPaddr_setDomainID [simp]: "hasPaddr r \<Longrightarrow> hasPaddr (setDomainID d r\<lparr>req_taskId := t\<rparr>)"
  by (auto simp: hasPaddr_def setDomainID_def flag_isSet_def flag_set_def word_zero_iff_bits bit_and_iff bit_or_iff)

lemma prefetch_request:
  assumes "(if sec then setFlags SECURE (new_request i now a sz 0 rid) else Inr (new_request i now a sz 0 rid)) = Inr r"
  shows "hasPaddr r" "req_paddr r = a" "req_isSecure r = sec" "\<not> req_isNoFill r"
proof -
  let ?r0 = "new_request i now a sz 0 rid"
  have r: "r = (if sec then ?r0\<lparr>req_flags := flag_set (req_flags ?r0) SECURE\<rparr> else ?r0)"
    using assms by (auto simp: setFlags_def split: if_splits)
  have p: "req_private r = req_private ?r0" "req_paddr r = req_paddr ?r0" by (simp_all add: r)
  have f: "req_flags ?r0 = flag_set 0 0" "req_paddr ?r0 = a" by (simp_all add: new_request_def)
  show "hasPaddr r" using hasPaddr_new_request [of i now a sz 0 rid] unfolding hasPaddr_def p(1) .
  show "req_paddr r = a" by (simp add: p f)
  show "req_isSecure r = sec" "\<not> req_isNoFill r"
    by (simp_all add: r req_isSecure_def req_isNoFill_def f plain_flags)
qed

lemma createPkt_packet:
  assumes "createPkt env paddr blk_size rid tag t dp = Inr dp'"
  shows "\<exists>p. dp_pkt dp' = Some p \<and> cmd p = HardPFReq \<and> pkt_domainID p = pfi_domainID (dp_pfInfo dp) \<and>
      pkt_addr p = paddr \<and> pkt_isSecure p = pfi_secure (dp_pfInfo dp) \<and> \<not> isMayNotFill p"
    and "dp_pfInfo dp' = dp_pfInfo dp" "dp_priority dp' = dp_priority dp" "dp_node dp' = dp_node dp"
proof -
  let ?pfi = "dp_pfInfo dp" and ?r0 = "new_request (env_indeterminate env) (env_now env) paddr blk_size 0 rid"
  from assms obtain r1 p0 p1 p2 where r1: "(if pfi_secure ?pfi then setFlags SECURE ?r0 else Inr ?r0) = Inr r1"
    and p0: "new_packet (setDomainID (pfi_domainID ?pfi) r1\<lparr>req_taskId := TaskId_Prefetcher\<rparr>) HardPFReq = Inr p0"
    and p1: "allocate p0 (env_fresh env) = Inr p1"
    and c: "(if tag \<and> pfi_validPC ?pfi
        then bind_result (pfi_getPC ?pfi) (\<lambda>pc. Inr (p1\<lparr>pkt_req := setPC pc (pkt_req p1)\<rparr>)) else Inr p1) = Inr p2"
    and dp': "dp\<lparr>dp_pkt := Some p2, dp_tick := t\<rparr> = dp'"
    unfolding createPkt_def Let_def bind_result_eq_Inr sum.inject by blast
  from c have p2: "p2 = p1 \<or> (\<exists>pc. p2 = p1\<lparr>pkt_req := setPC pc (pkt_req p1)\<rparr>)"
    by (auto simp: bind_result_eq_Inr split: if_splits)
  note r = prefetch_request [OF r1]
  then have r2: "req_isNoFill (setDomainID d r1\<lparr>req_taskId := t\<rparr>) = False"
    "req_isSecure (setDomainID d r1\<lparr>req_taskId := t\<rparr>) = pfi_secure ?pfi" for d t
    by (simp_all add: req_isNoFill_def req_isSecure_def setDomainID_def)
  have "isMayNotFill (p\<lparr>pkt_req := x\<rparr>) = isMayNotFill p" for p x by (simp add: fill_bits)
  then show "\<exists>p. dp_pkt dp' = Some p \<and> cmd p = HardPFReq \<and> pkt_domainID p = pfi_domainID ?pfi \<and>
      pkt_addr p = paddr \<and> pkt_isSecure p = pfi_secure ?pfi \<and> \<not> isMayNotFill p"
    using p2 new_packet_fields [OF p0] allocate_fields [OF p1] fill_bits_allocate [OF p1] r r2
    by (auto simp: dp' [symmetric] pkt_domainID_def getDomainID_def setPC_def) (simp_all add: setDomainID_def)
  show "dp_pfInfo dp' = ?pfi" "dp_priority dp' = dp_priority dp" "dp_node dp' = dp_node dp"
    by (simp_all add: dp' [symmetric])
qed

text \<open>
  An entry with a packet carries a hardware prefetch that may fill, in the domain and secure space
  of its summary. \<open>queue_inv D\<close> says this of the first list, that every waiting entry has a domain in
  \<open>D\<close>, and that both lists respect the limit.
\<close>

definition dp_ready :: "domain_id set \<Rightarrow> deferred \<Rightarrow> bool" where
  "dp_ready D dp \<longleftrightarrow> pfi_domainID (dp_pfInfo dp) \<in> D \<and>
     (\<exists>p. dp_pkt dp = Some p \<and> cmd p = HardPFReq \<and> pkt_domainID p = pfi_domainID (dp_pfInfo dp) \<and>
          pkt_isSecure p = pfi_secure (dp_pfInfo dp) \<and> \<not> isMayNotFill p)"

definition dp_waiting :: "domain_id set \<Rightarrow> deferred \<Rightarrow> bool" where
  "dp_waiting D dp \<longleftrightarrow> pfi_domainID (dp_pfInfo dp) \<in> D"

definition queue_inv :: "domain_id set \<Rightarrow> 'z queued_scheme \<Rightarrow> bool" where
  "queue_inv D s \<longleftrightarrow> length (pfq s) \<le> unat (queueSize s) \<and> length (pfqMissing s) \<le> unat (queueSize s) \<and>
     list_all (dp_ready D) (pfq s) \<and> list_all (dp_waiting D) (pfqMissing s)"

lemma dp_ready_update [simp]:
  "dp_ready D (dp\<lparr>dp_node := n\<rparr>) = dp_ready D dp" "dp_ready D (dp\<lparr>dp_priority := x\<rparr>) = dp_ready D dp"
  "dp_waiting D (dp\<lparr>dp_node := n\<rparr>) = dp_waiting D dp" "dp_waiting D (dp\<lparr>dp_priority := x\<rparr>) = dp_waiting D dp"
  "dp_waiting D (dp\<lparr>dp_ongoing := b\<rparr>) = dp_waiting D dp"
  "dp_waiting D (dp\<lparr>dp_translationRequest := r, dp_tc := t\<rparr>) = dp_waiting D dp"
  "dp_waiting D (dp\<lparr>dp_translationRequest := r, dp_ongoing := b\<rparr>) = dp_waiting D dp"
  "dp_waiting D (new_deferred pfi 0 prio) = (pfi_domainID pfi \<in> D)"
  by (simp_all add: dp_ready_def dp_waiting_def new_deferred_def)

lemma queue_inv_counters [simp]:
  "queue_inv D (s\<lparr>pfInCache := n\<rparr>) = queue_inv D s" "queue_inv D (s\<lparr>pfSpanPage := n\<rparr>) = queue_inv D s"
  "queue_inv D (s\<lparr>pfIdentified := n\<rparr>) = queue_inv D s"
  by (simp_all add: queue_inv_def)

lemma queue_inv_mono: "D \<subseteq> E \<Longrightarrow> queue_inv D s \<Longrightarrow> queue_inv E s"
  by (auto simp: queue_inv_def list_all_iff dp_ready_def dp_waiting_def)

lemma add_pfq_inv: "add_pfq dp s = Inr s' \<Longrightarrow> queue_inv D s \<Longrightarrow> dp_ready D dp \<Longrightarrow> queue_inv D s'"
  by (auto simp: add_pfq_def result_simps count_removed_def queue_inv_def
      intro: addToQueue_length addToQueue_all)

lemma add_pfqMissing_inv:
  "add_pfqMissing dp s = Inr s' \<Longrightarrow> queue_inv D s \<Longrightarrow> dp_waiting D dp \<Longrightarrow> queue_inv D s'"
  by (auto simp: add_pfqMissing_def result_simps count_removed_def queue_inv_def
      intro: addToQueue_length addToQueue_all)

lemma alreadyInQueue_entries:
  assumes "alreadyInQueue pfi prio q = (f, h, q')"
  shows "length q' = length q" "list_all (dp_ready D) q \<Longrightarrow> list_all (dp_ready D) q'"
    "list_all (dp_waiting D) q \<Longrightarrow> list_all (dp_waiting D) q'"
proof -
  have e: "q' = snd (snd (alreadyInQueue pfi prio q))" by (simp add: assms)
  show "length q' = length q" by (simp add: e)
  show "list_all (dp_ready D) q \<Longrightarrow> list_all (dp_ready D) q'"
    unfolding e by (rule alreadyInQueue_all) simp_all
  show "list_all (dp_waiting D) q \<Longrightarrow> list_all (dp_waiting D) q'"
    unfolding e by (rule alreadyInQueue_all) simp_all
qed

lemma filter_pfq_inv: "filter_pfq pfi prio s = (f, s') \<Longrightarrow> queue_inv D s \<Longrightarrow> queue_inv D s'"
  by (auto simp: filter_pfq_def queue_inv_def alreadyInQueue_entries split: prod.splits)

lemma filter_pfqMissing_inv: "filter_pfqMissing pfi prio s = (f, s') \<Longrightarrow> queue_inv D s \<Longrightarrow> queue_inv D s'"
  by (auto simp: filter_pfqMissing_def queue_inv_def alreadyInQueue_entries split: prod.splits)

lemma queue_filter_inv: "queue_filter pfi prio s = (f, s') \<Longrightarrow> queue_inv D s \<Longrightarrow> queue_inv D s'"
  by (auto simp: queue_filter_def split: if_splits prod.splits intro: filter_pfq_inv filter_pfqMissing_inv)

lemma make_pkt_ready:
  "make_pkt env s pa dp = Inr dp' \<Longrightarrow> pfi_domainID (dp_pfInfo dp) \<in> D \<Longrightarrow> dp_ready D dp'"
  unfolding make_pkt_def dp_ready_def using createPkt_packet(1,2) by metis

lemma queue_packet_inv:
  assumes "bind_result (make_pkt env s pa (new_deferred pfi 0 prio)) (\<lambda>dp. add_pfq dp s) = Inr s'"
    and "queue_inv D s" "pfi_domainID pfi \<in> D"
  shows "queue_inv D s'"
proof -
  from assms(1) obtain dp where "make_pkt env s pa (new_deferred pfi 0 prio) = Inr dp" "add_pfq dp s = Inr s'"
    by (auto simp: bind_result_eq_Inr)
  moreover have "pfi_domainID (dp_pfInfo (new_deferred pfi 0 prio)) \<in> D" using assms(3) by (simp add: new_deferred_def)
  ultimately show ?thesis using assms(2) by (blast intro: add_pfq_inv make_pkt_ready)
qed

lemma queue_unless_hit_inv:
  assumes "(if hit then Inr (s\<lparr>pfInCache := pfInCache s + 1\<rparr>)
    else bind_result (make_pkt env s pa (new_deferred pfi 0 prio)) (\<lambda>dp. add_pfq dp s)) = Inr s'"
    and "queue_inv D s" "pfi_domainID pfi \<in> D"
  shows "queue_inv D s'"
proof (cases hit)
  case True
  with assms(1) have "s' = s\<lparr>pfInCache := pfInCache s + 1\<rparr>" by simp
  then show ?thesis using assms(2) by simp
next
  case False
  with assms(1) have "bind_result (make_pkt env s pa (new_deferred pfi 0 prio)) (\<lambda>dp. add_pfq dp s) = Inr s'" by simp
  then show ?thesis using assms(2,3) by (rule queue_packet_inv)
qed

lemma q_insert_inv:
  assumes "q_insert cv env pkt pfi prio s = Inr s'" "queue_inv D s" "pfi_domainID pfi \<in> D"
  shows "queue_inv D s'"
proof -
  obtain f s1 where f: "queue_filter pfi prio s = (f, s1)" by (cases "queue_filter pfi prio s")
  have inv: "queue_inv D s1" by (rule queue_filter_inv [OF f assms(2)])
  show ?thesis
  proof (cases f)
    case True
    with assms(1) f inv show ?thesis by (simp add: q_insert_def)
  next
    case False
    with assms(1) f obtain tgt where "pf_target_of env s1 pkt pfi = Inr tgt"
      and t: "(case tgt of TargetNone \<Rightarrow> Inr s1
        | TargetPA pa \<Rightarrow> bind_result (snoop_hit cv s1 pa pfi) (\<lambda>hit.
            if hit then Inr (s1\<lparr>pfInCache := pfInCache s1 + 1\<rparr>)
            else bind_result (make_pkt env s1 pa (new_deferred pfi 0 prio)) (\<lambda>dp. add_pfq dp s1))
        | TargetTranslation r \<Rightarrow> bind_result (contextId r) (\<lambda>cid. add_pfqMissing
            ((new_deferred pfi 0 prio)\<lparr>dp_translationRequest := Some r, dp_tc := Some cid\<rparr>) s1)) = Inr s'"
      by (simp only: q_insert_def bind_result_eq_Inr prod.case if_False) blast
    show ?thesis
    proof (cases tgt)
      case (TargetPA pa)
      with t obtain hit where "(if hit then Inr (s1\<lparr>pfInCache := pfInCache s1 + 1\<rparr>)
          else bind_result (make_pkt env s1 pa (new_deferred pfi 0 prio)) (\<lambda>dp. add_pfq dp s1)) = Inr s'"
        by (simp only: pf_target.case bind_result_eq_Inr [of "snoop_hit _ _ _ _"]) blast
      then show ?thesis using inv assms(3) by (rule queue_unless_hit_inv)
    next
      case (TargetTranslation r)
      with t obtain cid where "add_pfqMissing ((new_deferred pfi 0 prio)\<lparr>dp_translationRequest := Some r,
          dp_tc := Some cid\<rparr>) s1 = Inr s'"
        by (auto simp: bind_result_eq_Inr)
      then show ?thesis using inv by (rule add_pfqMissing_inv) (simp add: assms(3))
    qed (use t inv in simp)
  qed
qed

lemma notify_loop_inv:
  assumes ins: "\<And>pfi prio s s'. ins pfi prio s = Inr s' \<Longrightarrow> queue_inv D s \<Longrightarrow> pfi_domainID pfi \<in> D \<Longrightarrow> queue_inv D s'"
  shows "notify_loop ins pfi m n as s = Inr s' \<Longrightarrow> queue_inv D s \<Longrightarrow> pfi_domainID pfi \<in> D \<Longrightarrow> queue_inv D s'"
proof (induction as arbitrary: n s)
  case (Cons ap as)
  from Cons.prems(1) obtain same s1 where
    s1: "s1 = (if same then s else s\<lparr>pfSpanPage := pfSpanPage s + 1\<rparr>)" and
    rest: "(if pf_hasTlb s \<or> same
       then bind_result (ins (derive_prefetchInfo pfi (blockAddress s (fst ap))) (snd ap)
              (s1\<lparr>pfIdentified := pfIdentified s1 + 1\<rparr>)) (\<lambda>s2.
            if n + 1 = m then Inr s2 else notify_loop ins pfi m (n + 1) as s2)
       else notify_loop ins pfi m n as s1) = Inr s'"
    by (auto simp: Let_def bind_result_eq_Inr [of "samePage _ _ _"])
  have inv: "queue_inv D (s1\<lparr>pfIdentified := k\<rparr>)" "queue_inv D s1" for k using Cons.prems(2) by (simp_all add: s1)
  show ?case
  proof (cases "pf_hasTlb s \<or> same")
    case True
    with rest obtain s2 where i: "ins (derive_prefetchInfo pfi (blockAddress s (fst ap))) (snd ap)
        (s1\<lparr>pfIdentified := pfIdentified s1 + 1\<rparr>) = Inr s2"
      and r: "(if n + 1 = m then Inr s2 else notify_loop ins pfi m (n + 1) as s2) = Inr s'"
      by (simp only: if_True bind_result_eq_Inr) blast
    have "queue_inv D s2" by (rule ins [OF i inv(1)]) (simp add: derive_prefetchInfo_def Cons.prems(3))
    then show ?thesis using r Cons.IH [of "n + 1" s2] Cons.prems(3) by (auto split: if_splits)
  next
    case False
    with rest Cons.IH [of n s1] inv(2) Cons.prems(3) show ?thesis by simp
  qed
qed simp

lemma q_notify_inv:
  assumes "q_notify calc ins pkt pfi s = Inr s'" "queue_inv D s" "pfi_domainID pfi \<in> D"
    and ins: "\<And>pfi prio s s'. ins pkt pfi prio s = Inr s' \<Longrightarrow> queue_inv D s \<Longrightarrow> pfi_domainID pfi \<in> D \<Longrightarrow> queue_inv D s'"
  shows "queue_inv D s'"
proof -
  have "queue_inv D (squash pfi s)"
    using assms(2) by (auto simp: squash_def queue_inv_def list_all_iff intro: order_trans [OF length_filter_le])
  with assms(1,3) ins show ?thesis
    by (auto simp: q_notify_def Let_def bind_result_eq_Inr intro: notify_loop_inv [of "ins pkt"])
qed

lemma find_node_bound: "find_node n q = Some i \<Longrightarrow> i < length q \<and> dp_node (q ! i) = n"
  by (induction q arbitrary: i) (auto split: if_splits)

lemma missing_update_inv:
  assumes "queue_inv D s" "i < length (pfqMissing s)"
    and "pfi_domainID (dp_pfInfo dp) = pfi_domainID (dp_pfInfo (pfqMissing s ! i))"
  shows "queue_inv D (s\<lparr>pfqMissing := (pfqMissing s)[i := dp]\<rparr>)"
  using assms by (auto simp: queue_inv_def list_all_length nth_list_update dp_waiting_def)

lemma missing_erase_inv: "queue_inv D s \<Longrightarrow> queue_inv D (s\<lparr>pfqMissing := erase_at i (pfqMissing s)\<rparr>)"
  by (auto simp: queue_inv_def list_all_iff dest: subsetD [OF set_erase_at]) (simp add: erase_at_def)

lemma translated_inv:
  assumes "bind_result (getPaddr r) (\<lambda>pa. bind_result (snoop_hit cv s pa (dp_pfInfo dp)) (\<lambda>hit.
      if hit then Inr (s\<lparr>pfInCache := pfInCache s + 1\<rparr>)
      else bind_result (make_pkt env s pa dp) (\<lambda>dp'. add_pfq dp' s))) = Inr s1"
    and "queue_inv D s" "pfi_domainID (dp_pfInfo dp) \<in> D"
  shows "queue_inv D s1"
proof -
  from assms(1) obtain pa hit where h: "(if hit then Inr (s\<lparr>pfInCache := pfInCache s + 1\<rparr>)
      else bind_result (make_pkt env s pa dp) (\<lambda>dp'. add_pfq dp' s)) = Inr s1"
    by (simp only: bind_result_eq_Inr [of "getPaddr _"] bind_result_eq_Inr [of "snoop_hit _ _ _ _"]) blast
  show ?thesis
  proof (cases hit)
    case True
    with h have "s1 = s\<lparr>pfInCache := pfInCache s + 1\<rparr>" by simp
    then show ?thesis using assms(2) by simp
  next
    case False
    with h have "bind_result (make_pkt env s pa dp) (\<lambda>dp'. add_pfq dp' s) = Inr s1" by simp
    then obtain dp' where "make_pkt env s pa dp = Inr dp'" "add_pfq dp' s = Inr s1"
      unfolding bind_result_eq_Inr by blast
    then show ?thesis using assms(2,3) by (blast intro: add_pfq_inv make_pkt_ready)
  qed
qed

lemma translationComplete_inv:
  assumes "translationComplete cv env node failed s = Inr s'" "queue_inv D s"
  shows "queue_inv D s'"
proof (cases "find_node node (pfqMissing s)")
  case None
  with assms(1) show ?thesis by (simp add: translationComplete_def)
next
  case (Some i)
  let ?dp = "pfqMissing s ! i"
  have dom: "pfi_domainID (dp_pfInfo ?dp) \<in> D"
    using assms(2) find_node_bound [OF Some] by (auto simp: queue_inv_def list_all_length dp_waiting_def)
  from assms(1) Some obtain s1 where
    s1: "(if failed then Inr s
          else case dp_translationRequest ?dp of None \<Rightarrow> Inl Undefined
            | Some r \<Rightarrow> bind_result (getPaddr r) (\<lambda>pa. bind_result (snoop_hit cv s pa (dp_pfInfo ?dp)) (\<lambda>hit.
                if hit then Inr (s\<lparr>pfInCache := pfInCache s + 1\<rparr>)
                else bind_result (make_pkt env s pa ?dp) (\<lambda>dp'. add_pfq dp' s)))) = Inr s1"
    and s': "Inr (s1\<lparr>pfqMissing := erase_at i (pfqMissing s1)\<rparr>) = Inr s'"
    unfolding translationComplete_def Let_def Some option.case
    by (simp only: bind_result_eq_Inr [of "if failed then _ else _"]) blast
  have "queue_inv D s1"
  proof (cases failed)
    case True
    with s1 assms(2) show ?thesis by simp
  next
    case False
    with s1 assms(2) dom show ?thesis
      by (cases "dp_translationRequest ?dp") (simp, simp only: if_False option.case translated_inv)
  qed
  then show ?thesis using s' missing_erase_inv [of D s1 i] by simp
qed

lemma q_finish_inv:
  assumes "q_finish cv env node res s = Inr s'" "queue_inv D s"
  shows "queue_inv D s'"
proof -
  from assms(1) obtain i where i: "find_node node (pfqMissing s) = Some i"
    and c: "translationComplete cv env node (fst res) (s\<lparr>pfqMissing := (pfqMissing s)[i :=
      (pfqMissing s ! i)\<lparr>dp_ongoing := False, dp_translationRequest := Some (snd res)\<rparr>]\<rparr>) = Inr s'"
    by (auto simp: q_finish_def Let_def require_eq_Inr split: option.splits)
  show ?thesis by (rule translationComplete_inv [OF c missing_update_inv])
    (use assms(2) find_node_bound [OF i] in simp_all)
qed

lemma startTranslation_inv:
  assumes "startTranslation cv env tlb node s = Inr s'" "queue_inv D s"
  shows "queue_inv D s'"
proof (cases "find_node node (pfqMissing s)")
  case None
  with assms(1) show ?thesis by (simp add: startTranslation_def)
next
  case (Some i)
  let ?dp = "pfqMissing s ! i"
  let ?s1 = "s\<lparr>pfqMissing := (pfqMissing s)[i := ?dp\<lparr>dp_ongoing := True\<rparr>]\<rparr>"
  have inv: "queue_inv D ?s1" by (rule missing_update_inv) (use assms(2) find_node_bound [OF Some] in simp_all)
  from assms(1) obtain r where "dp_translationRequest ?dp = Some r"
    by (cases "dp_translationRequest ?dp") (simp_all add: startTranslation_def Some)
  with assms(1) have s': "(if dp_ongoing ?dp then Inr s else require (pf_hasTlb s) Undefined
      (case tlb r of None \<Rightarrow> Inr ?s1 | Some res \<Rightarrow> q_finish cv env node res ?s1)) = Inr s'"
    by (simp only: startTranslation_def Some option.case Let_def)
  show ?thesis
  proof (cases "dp_ongoing ?dp")
    case True
    with s' assms(2) show ?thesis by simp
  next
    case False
    with s' have "(case tlb r of None \<Rightarrow> Inr ?s1 | Some res \<Rightarrow> q_finish cv env node res ?s1) = Inr s'"
      by (simp only: if_False require_eq_Inr)
    with inv show ?thesis by (cases "tlb r") (simp, simp only: option.case q_finish_inv)
  qed
qed

lemma processMissingTranslations_inv:
  "processMissingTranslations cv env tlb m s = Inr s' \<Longrightarrow> queue_inv D s \<Longrightarrow> queue_inv D s'"
  unfolding processMissingTranslations_def by (erule fold_result_invariant) (auto intro: startTranslation_inv)

lemma q_getPacket_inv:
  assumes "q_getPacket cv env tlb s = Inr (po, s')" "queue_inv D s"
  shows "queue_inv D s'"
    and "po = Some p \<Longrightarrow> cmd p = HardPFReq \<and> pkt_domainID p \<in> D \<and> \<not> isMayNotFill p"
proof -
  from assms(1) obtain s1 where
    s1: "(if pfq s = [] then processMissingTranslations cv env tlb (queueSize s) s else Inr s) = Inr s1"
    and r: "(case pfq s1 of [] \<Rightarrow> Inr (None, s1)
     | dp # rest \<Rightarrow>
         case dp_pkt dp of None \<Rightarrow> Inl Assert
         | Some pkt \<Rightarrow> bind_result (processMissingTranslations cv env tlb (queueSize s - of_nat (length rest))
               (s1\<lparr>pfq := rest, pfIssued := pfIssued s1 + 1, issuedPrefetches := issuedPrefetches s1 + 1\<rparr>)) (\<lambda>s3.
             Inr (Some pkt, s3))) = Inr (po, s')"
    by (simp only: q_getPacket_def Let_def bind_result_eq_Inr [of "if _ then _ else _"]) blast
  have inv: "queue_inv D s1" using s1 assms(2) by (auto split: if_splits intro: processMissingTranslations_inv)
  have "queue_inv D s' \<and> (po = Some p \<longrightarrow> cmd p = HardPFReq \<and> pkt_domainID p \<in> D \<and> \<not> isMayNotFill p)"
  proof (cases "pfq s1")
    case Nil
    with r inv show ?thesis by simp
  next
    case (Cons dp rest)
    with r obtain pkt where p: "dp_pkt dp = Some pkt" "po = Some pkt" and m:
      "processMissingTranslations cv env tlb (queueSize s - of_nat (length rest))
        (s1\<lparr>pfq := rest, pfIssued := pfIssued s1 + 1, issuedPrefetches := issuedPrefetches s1 + 1\<rparr>) = Inr s'"
      by (auto simp: bind_result_eq_Inr split: option.splits)
    have "dp_ready D dp" "queue_inv D (s1\<lparr>pfq := rest, pfIssued := pfIssued s1 + 1,
        issuedPrefetches := issuedPrefetches s1 + 1\<rparr>)"
      using inv Cons by (simp_all add: queue_inv_def)
    with p show ?thesis using processMissingTranslations_inv [OF m] by (auto simp: dp_ready_def)
  qed
  then show "queue_inv D s'" "po = Some p \<Longrightarrow> cmd p = HardPFReq \<and> pkt_domainID p \<in> D \<and> \<not> isMayNotFill p"
    by blast+
qed

section \<open>Reachable prefetchers\<close>

text \<open>
  \<open>queue_run s D\<close>: the prefetcher can be in state \<open>s\<close> after notifications in the domains \<open>D\<close>, packets
  issued and translations finished in any order, with any cache, any clock and any translation
  hardware, and with any \<^verbatim>\<open>calculatePrefetch\<close>.
\<close>

inductive queue_run :: "'z queued_scheme \<Rightarrow> domain_id set \<Rightarrow> bool" where
  start: "pfq s = [] \<Longrightarrow> pfqMissing s = [] \<Longrightarrow> queue_run s {}"
| notified: "queue_run s D \<Longrightarrow> q_notify calc (q_insert cv env) pkt pfi s = Inr s' \<Longrightarrow>
    queue_run s' (insert (pfi_domainID pfi) D)"
| issued: "queue_run s D \<Longrightarrow> q_getPacket cv env tlb s = Inr (po, s') \<Longrightarrow> queue_run s' D"
| translated: "queue_run s D \<Longrightarrow> q_finish cv env node res s = Inr s' \<Longrightarrow> queue_run s' D"

lemma queue_run_inv: "queue_run s D \<Longrightarrow> queue_inv D s"
proof (induction rule: queue_run.induct)
  case (notified s D calc cv env pkt pfi s')
  have "queue_inv (insert (pfi_domainID pfi) D) s"
    by (rule queue_inv_mono [OF _ notified.IH]) auto
  with notified.hyps(2) show ?case by (rule q_notify_inv) (auto intro: q_insert_inv)
next
  case (start s)
  then show ?case by (simp add: queue_inv_def)
qed (blast intro: q_getPacket_inv(1) q_finish_inv)+

text \<open>Claim C7. In every reachable state of a queued prefetcher both lists respect the queue size, and
  a packet it issues is a hardware prefetch that is allowed to fill and belongs to the domain of an
  access it was notified of: the prefetcher never mixes domains and never fails the assertion that
  a queued entry has a packet.\<close>
theorem queued_prefetch_domains:
  assumes "queue_run s D"
  shows "length (pfq s) \<le> unat (queueSize s) \<and> length (pfqMissing s) \<le> unat (queueSize s) \<and>
    (\<forall>dp \<in> set (pfq s). \<exists>p. dp_pkt dp = Some p \<and> pkt_domainID p = pfi_domainID (dp_pfInfo dp)) \<and>
    (q_getPacket cv env tlb s = Inr (Some p, s') \<longrightarrow>
       cmd p = HardPFReq \<and> pkt_domainID p \<in> D \<and> \<not> isMayNotFill p)"
proof -
  note inv = queue_run_inv [OF assms]
  then show ?thesis using q_getPacket_inv(2) [OF _ inv, of cv env tlb "Some p" s' p]
    by (auto simp: queue_inv_def list_all_iff dp_ready_def)
qed

theorem queued_prefetch_domains_witness:
  "\<exists>s p s'. queue_run s {5} \<and> q_notify (\<lambda>_ pfi. Inr [(pfi_address pfi + 64, 0)]) (q_insert demo_view demo_env)
      demo_pf_packet demo_pfi demo_queued = Inr s \<and>
     q_getPacket demo_view demo_env (\<lambda>_. None) s = Inr (Some p, s') \<and> pkt_addr p = 0x2040 \<and> pkt_domainID p \<in> {5}"
proof -
  let ?n = "q_notify (\<lambda>_ pfi. Inr [(pfi_address pfi + 64, 0)]) (q_insert demo_view demo_env) demo_pf_packet demo_pfi demo_queued"
  have "case ?n of Inl _ \<Rightarrow> False | Inr s \<Rightarrow> (case q_getPacket demo_view demo_env (\<lambda>_. None) s of
      Inl _ \<Rightarrow> False | Inr (po, s') \<Rightarrow> (case po of None \<Rightarrow> False | Some p \<Rightarrow> pkt_addr p = 0x2040))"
    by code_simp
  then obtain s p s' where n: "?n = Inr s"
    and g: "q_getPacket demo_view demo_env (\<lambda>_. None) s = Inr (Some p, s')" "pkt_addr p = 0x2040"
    by (auto split: sum.splits option.splits)
  have "queue_run s (insert (pfi_domainID demo_pfi) {})"
    by (rule queue_run.notified [OF queue_run.start n]) (simp_all add: demo_queued_def)
  then have r: "queue_run s {5}" by (simp add: demo_pfi_def)
  from queued_prefetch_domains [OF r, of demo_view demo_env "\<lambda>_. None" p s'] g r n show ?thesis by blast
qed

end
