(* ===== verification/Random_Fill.thy ===== *)
theory Random_Fill
  imports Queued_Prefetch
begin

text \<open>
  The random-fill prefetcher (\<^verbatim>\<open>mem/cache/prefetch/random_fill.hh\<close>, \<^verbatim>\<open>random_fill.cc\<close>): instead of the
  block that missed, blocks at random distances from it are fetched into the cache. It extends the
  queued prefetcher with its own \<^verbatim>\<open>calculatePrefetch\<close> and \<^verbatim>\<open>insert\<close>.
\<close>

section \<open>Random fill\<close>

record random_fill = queued +
  lowRange :: int
  highRange :: int
  degree :: int

definition check_range :: "int \<Rightarrow> int \<Rightarrow> 'a \<Rightarrow> 'a result" where
  "check_range low high rf =
     require (\<not> (low < -32 \<or> low > 32)) Panic (require (\<not> (high < -32 \<or> high > 32)) Panic (Inr rf))"

definition new_random_fill :: "random_fill \<Rightarrow> random_fill result" where
  "new_random_fill rf = check_range (lowRange rf) (highRange rf) rf"

definition rf_insert ::
  "cache_view \<Rightarrow> sim_env \<Rightarrow> packet \<Rightarrow> pf_info \<Rightarrow> int \<Rightarrow> 'z queued_scheme \<Rightarrow> 'z queued_scheme result" where
  "rf_insert cv env pkt pfi prio s0 =
     (case queue_filter pfi prio s0 of (found, s) \<Rightarrow>
      if found then Inr s
      else require (\<not> useVirtualAddresses s) Panic
        (bind_result (getPaddr (pkt_req pkt)) (\<lambda>orig.
         let target = pfi_address pfi
         in bind_result (samePage s orig target) (\<lambda>same. require same Panic
            (bind_result (snoop_hit cv s target pfi) (\<lambda>hit.
             if hit then Inr (s\<lparr>pfInCache := pfInCache s + 1\<rparr>)
             else bind_result (make_pkt env s target (new_deferred pfi 0 prio)) (\<lambda>dp. add_pfq dp s)))))))"

text \<open>The offset is an \<^verbatim>\<open>int\<close>: it is shifted in 32 bits and sign-extended when added to the address.\<close>

definition rf_addr :: "'z pf_base_scheme \<Rightarrow> addr \<Rightarrow> int \<Rightarrow> addr" where
  "rf_addr s blk_addr off = blk_addr + scast (push_bit (pf_lBlkSize s) (word_of_int off :: 32 word))"

definition rf_candidate :: "'z pf_base_scheme \<Rightarrow> addr \<Rightarrow> int \<Rightarrow> addr result" where
  "rf_candidate s blk_addr off =
     (let new_addr = rf_addr s blk_addr off
      in bind_result (samePage s blk_addr new_addr) (\<lambda>same.
         if same then Inr new_addr
         else let new_addr = rf_addr s blk_addr (- off)
              in bind_result (samePage s blk_addr new_addr) (\<lambda>same. require same Panic
                 (require (new_addr = blockAddress s new_addr) Panic (Inr new_addr)))))"

text \<open>\<open>draws\<close> are the values of \<^verbatim>\<open>random_mt.random<int>(lowRange, highRange)\<close>, one per degree.\<close>

definition rf_calculatePrefetch :: "(nat \<Rightarrow> int) \<Rightarrow> 'z random_fill_scheme \<Rightarrow> pf_info \<Rightarrow> (addr \<times> int) list result" where
  "rf_calculatePrefetch draws s pfi =
     fold_result (\<lambda>d addresses.
       bind_result (rf_candidate s (blockAddress s (pfi_address pfi)) (draws d)) (\<lambda>a.
       Inr (addresses @ [(a, 0)]))) [0..<nat (degree s)] []"

definition rf_notify ::
  "cache_view \<Rightarrow> sim_env \<Rightarrow> (nat \<Rightarrow> int) \<Rightarrow> packet \<Rightarrow> pf_info \<Rightarrow> 'z random_fill_scheme \<Rightarrow>
   'z random_fill_scheme result" where
  "rf_notify cv env draws = q_notify (rf_calculatePrefetch draws) (rf_insert cv env)"

section \<open>Address arithmetic\<close>

text \<open>Blocks and pages are powers of two, a page holds at least 64 blocks.\<close>

definition rf_geometry :: "nat \<Rightarrow> nat \<Rightarrow> 'z pf_base_scheme \<Rightarrow> bool" where
  "rf_geometry l p s \<longleftrightarrow> pf_blkSize s = 2 ^ l \<and> pf_lBlkSize s = l \<and> pageBytes s = 2 ^ p \<and>
     l \<le> 25 \<and> l + 6 \<le> p \<and> p < 64"

lemma mask_zero_div:
  "v AND NOT (mask p) = w AND NOT (mask p) \<longleftrightarrow> uint v div 2 ^ p = uint w div 2 ^ p" for v w :: addr
proof -
  have "v AND NOT (mask p) = w AND NOT (mask p) \<longleftrightarrow> unat (v AND NOT (mask p)) = unat (w AND NOT (mask p))"
    by (simp add: word_unat_eq_iff)
  also have "\<dots> \<longleftrightarrow> unat v div 2 ^ p = unat w div 2 ^ p"
    unfolding unat_and_not_mask minus_mod_eq_mult_div by simp
  also have "\<dots> \<longleftrightarrow> int (unat v div 2 ^ p) = int (unat w div 2 ^ p)" by (simp only: of_nat_eq_iff)
  finally show ?thesis by (simp add: zdiv_int)
qed

lemma samePage_div:
  "rf_geometry l p s \<Longrightarrow> samePage s a b = Inr (uint a div 2 ^ p = uint b div 2 ^ p)"
  by (simp add: samePage_def rf_geometry_def roundDown_power mask_zero_div)

lemma blockAddress_uint:
  assumes "rf_geometry l p s"
  shows "uint (blockAddress s a) = uint a - uint a mod 2 ^ l"
proof -
  have l: "l < 32" using assms by (simp add: rf_geometry_def)
  have "(ucast (2 ^ l :: u32) :: addr) = 2 ^ l"
    by (rule bit_word_eqI) (use l in \<open>auto simp: bit_unsigned_iff bit_exp_iff\<close>)
  then have "blockAddress s a = a AND NOT (mask l)"
    using assms by (simp add: blockAddress_def rf_geometry_def mask_eq_exp_minus_1)
  then have "uint (blockAddress s a) = int (unat a - unat a mod 2 ^ l)"
    by (simp add: unat_and_not_mask [symmetric])
  then show ?thesis by (simp add: of_nat_diff zmod_int)
qed

lemma blockAddress_aligned:
  "rf_geometry l p s \<Longrightarrow> blockAddress s a = a \<longleftrightarrow> uint a mod 2 ^ l = 0"
  by (simp add: word_uint_eq_iff blockAddress_uint)

lemma rf_addr_uint:
  assumes "rf_geometry l p s" "- 32 \<le> off" "off \<le> 32"
  shows "uint (rf_addr s blk off) = (uint blk + off * 2 ^ l) mod 2 ^ 64"
proof -
  have l: "l \<le> 25" "pf_lBlkSize s = l" using assms(1) by (simp_all add: rf_geometry_def)
  have "(2 :: int) ^ l \<le> 2 ^ 25" by (rule power_increasing) (simp_all add: l)
  moreover have "0 \<le> (2 :: int) ^ l" by simp
  ultimately have "\<bar>off * 2 ^ l\<bar> \<le> 32 * 2 ^ 25"
    unfolding abs_mult using assms(2,3) by (intro mult_mono) simp_all
  then have b: "- (2 ^ 31) \<le> off * 2 ^ l" "off * 2 ^ l < 2 ^ 31" by simp_all
  have "push_bit l (word_of_int off :: u32) = word_of_int (off * 2 ^ l)" by (simp add: push_bit_eq_mult)
  moreover have "sint (word_of_int (off * 2 ^ l) :: u32) = off * 2 ^ l"
    by (subst sint_sbintrunc') (use b in \<open>simp add: signed_take_bit_int_eq_self_iff\<close>)
  ultimately have "scast (push_bit l (word_of_int off :: u32)) = (word_of_int (off * 2 ^ l) :: addr)"
    by (simp only: scast_eq)
  moreover have "uint (blk + word_of_int k) = (uint blk + k) mod 2 ^ 64" for k
    by (simp only: uint_word_ariths uint_word_of_int) (simp add: mod_add_right_eq)
  ultimately show ?thesis by (simp only: rf_addr_def l(2))
qed

text \<open>
  Adding a distance of at most half a page to an address changes the page by at most one, also when
  the address wraps around.
\<close>

lemma page_step:
  fixes a d N M :: int
  assumes "0 \<le> a" "a < M * N" "2 \<le> M" "0 < N" "2 * \<bar>d\<bar> \<le> N"
  shows "((a + d) mod (M * N)) div N = a div N \<longleftrightarrow> 0 \<le> a mod N + d \<and> a mod N + d < N"
    and "0 \<le> a mod N + d \<Longrightarrow> a mod N + d < N \<Longrightarrow> (a + d) mod (M * N) = a + d"
proof -
  define P i k where "P = a div N" and "i = a mod N" and "k = (i + d) div N"
  have i: "0 \<le> i" "i < N" using assms(4) by (simp_all add: i_def)
  have a: "a = P * N + i" by (simp add: P_def i_def)
  have "P * N < M * N" using a i assms(2) by linarith
  then have P: "P < M" using assms(4) by simp
  have P0: "0 \<le> P" using assms(1,4) by (simp add: P_def pos_imp_zdiv_nonneg_iff)
  have x: "(a + d) div N = P + k"
  proof -
    have "a + d = (i + d) + P * N" by (simp add: a)
    then show ?thesis using assms(4) by (simp only: k_def) (simp add: div_mult_self1)
  qed
  have "(a + d) mod (N * M) = N * ((a + d) div N mod M) + (a + d) mod N"
    using assms(3) by (intro zmod_zmult2_eq) simp
  then have "((a + d) mod (M * N)) div N = (P + k) mod M"
    using assms(4) by (simp add: x mult.commute)
  moreover have k0: "k = 0 \<longleftrightarrow> 0 \<le> i + d \<and> i + d < N"
    unfolding k_def zdiv_eq_0_iff using assms(4) by auto
  moreover have "(P + k) mod M = P \<longleftrightarrow> k = 0"
  proof -
    have "k = -1" if "i + d < 0" unfolding k_def
      by (rule int_div_pos_eq [of _ _ _ "i + d + N"]) (use that i assms(5) in auto)
    moreover have "k = 1" if "N \<le> i + d" unfolding k_def
      by (rule int_div_pos_eq [of _ _ _ "i + d - N"]) (use that i assms(4,5) in auto)
    moreover have "(P + 1) mod M \<noteq> P" "(P - 1) mod M \<noteq> P"
    proof -
      show "(P + 1) mod M \<noteq> P"
      proof (cases "P + 1 = M")
        case False
        then show ?thesis using P P0 by (simp add: mod_pos_pos_trivial)
      qed (use assms(3) in auto)
      show "(P - 1) mod M \<noteq> P"
      proof (cases "P = 0")
        case True
        then show ?thesis using assms(3) by (simp add: zmod_minus1)
      qed (use P P0 in \<open>simp add: mod_pos_pos_trivial\<close>)
    qed
    ultimately show ?thesis using k0 P P0 by (cases "i + d < 0"; cases "N \<le> i + d") (auto simp: mod_pos_pos_trivial)
  qed
  ultimately show "((a + d) mod (M * N)) div N = a div N \<longleftrightarrow> 0 \<le> a mod N + d \<and> a mod N + d < N"
    by (simp add: P_def i_def)
  assume h0: "0 \<le> a mod N + d" "a mod N + d < N"
  then have h: "0 \<le> i + d" "i + d < N" by (simp_all add: i_def)
  have "0 \<le> P * N" using P0 assms(4) by simp
  then have "0 \<le> a + d" using a h by linarith
  moreover have "a + d < M * N"
  proof -
    have "(P + 1) * N \<le> M * N" using P assms(4) by (intro mult_right_mono) simp_all
    then have "P * N + N \<le> M * N" by (simp add: algebra_simps)
    then show ?thesis using a h by linarith
  qed
  ultimately show "(a + d) mod (M * N) = a + d" by (rule mod_pos_pos_trivial)
qed

lemma rf_addr_page:
  fixes blk :: addr
  assumes g: "rf_geometry l p s" and o: "- 32 \<le> off" "off \<le> 32"
  defines "i \<equiv> uint blk mod 2 ^ p" and "d \<equiv> off * 2 ^ l"
  shows "samePage s blk (rf_addr s blk off) = Inr (0 \<le> i + d \<and> i + d < 2 ^ p)"
    and "0 \<le> i + d \<Longrightarrow> i + d < 2 ^ p \<Longrightarrow> uint (rf_addr s blk off) = uint blk + d"
proof -
  have p: "l + 6 \<le> p" "p < 64" using g by (simp_all add: rf_geometry_def)
  have M: "(2 :: int) ^ 64 = 2 ^ (64 - p) * 2 ^ p" using p(2) by (simp add: power_add [symmetric])
  have m: "2 \<le> (2 :: int) ^ (64 - p)" using p(2) self_le_power [of "2 :: int" "64 - p"] by simp
  have "2 * \<bar>d\<bar> \<le> 2 * (32 * 2 ^ l)" using o by (simp add: d_def abs_mult abs_le_iff)
  also have "\<dots> = 2 ^ (l + 6)" by (simp add: power_add)
  also have "\<dots> \<le> (2 :: int) ^ p" by (rule power_increasing) (use p in simp_all)
  finally have d: "2 * \<bar>d\<bar> \<le> 2 ^ p" .
  have blk: "0 \<le> uint blk" "uint blk < 2 ^ (64 - p) * 2 ^ p"
    using uint_lt2p [of blk] unfolding M [symmetric] by simp_all
  have N: "0 < (2 :: int) ^ p" by simp
  note step = page_step [OF blk m N d, folded M i_def]
  have u: "uint (rf_addr s blk off) = (uint blk + d) mod 2 ^ 64"
    unfolding d_def by (rule rf_addr_uint [OF g o])
  show "samePage s blk (rf_addr s blk off) = Inr (0 \<le> i + d \<and> i + d < 2 ^ p)"
    unfolding samePage_div [OF g] u step(1) [symmetric] sum.inject by (rule eq_commute)
  show "0 \<le> i + d \<Longrightarrow> i + d < 2 ^ p \<Longrightarrow> uint (rf_addr s blk off) = uint blk + d"
    unfolding u by (rule step(2))
qed

text \<open>What a candidate is: a block of the trigger's page at most 32 blocks away.\<close>

definition rf_near :: "nat \<Rightarrow> nat \<Rightarrow> addr \<Rightarrow> addr \<Rightarrow> bool" where
  "rf_near l p blk a \<longleftrightarrow> (\<exists>e. - 32 \<le> e \<and> e \<le> 32 \<and> uint a = uint blk + e * 2 ^ l) \<and>
     uint a div 2 ^ p = uint blk div 2 ^ p"

lemma rf_candidate_near:
  assumes g: "rf_geometry l p s" and o: "- 32 \<le> off" "off \<le> 32" and al: "uint blk mod 2 ^ l = 0"
  shows "\<exists>a. rf_candidate s blk off = Inr a \<and> rf_near l p blk a \<and> uint a mod 2 ^ l = 0"
proof -
  define i d where "i = uint blk mod 2 ^ p" and "d = off * 2 ^ l"
  have near: "rf_near l p blk a \<and> uint a mod 2 ^ l = 0"
    if "samePage s blk a = Inr True" "uint a = uint blk + e * 2 ^ l" "- 32 \<le> e" "e \<le> 32" for a e
  proof -
    have "uint a div 2 ^ p = uint blk div 2 ^ p" using that(1) by (simp add: samePage_div [OF g])
    moreover have "uint a mod 2 ^ l = 0" unfolding that(2) using al by simp
    ultimately show ?thesis unfolding rf_near_def using that(2-4) by blast
  qed
  have page_ok: "samePage s blk (rf_addr s blk e) = Inr True" "uint (rf_addr s blk e) = uint blk + e * 2 ^ l"
    if "- 32 \<le> e" "e \<le> 32" "0 \<le> i + e * 2 ^ l \<and> i + e * 2 ^ l < 2 ^ p" for e
  proof -
    show "samePage s blk (rf_addr s blk e) = Inr True"
      unfolding rf_addr_page(1) [OF g that(1,2)] using that(3) by (simp only: i_def simp_thms)
    show "uint (rf_addr s blk e) = uint blk + e * 2 ^ l"
      by (rule rf_addr_page(2) [OF g that(1,2)]) (use that(3) in \<open>simp_all only: i_def\<close>)
  qed
  show ?thesis
  proof (cases "0 \<le> i + d \<and> i + d < 2 ^ p")
    case True
    note f = page_ok [OF o True [unfolded d_def]]
    have "rf_candidate s blk off = Inr (rf_addr s blk off)"
      unfolding rf_candidate_def Let_def f(1) bind_result_Inr if_True ..
    then show ?thesis using near [OF f o] by (intro exI [of _ "rf_addr s blk off"] conjI) simp_all
  next
    case False
    have "32 * 2 ^ l * 2 \<le> (2 :: int) ^ p"
    proof -
      have "32 * 2 ^ l * 2 = (2 :: int) ^ (l + 6)" by (simp add: power_add)
      also have "\<dots> \<le> 2 ^ p" by (rule power_increasing) (use g in \<open>simp_all add: rf_geometry_def\<close>)
      finally show ?thesis .
    qed
    moreover have "\<bar>d\<bar> \<le> 32 * 2 ^ l" using o by (simp add: d_def abs_mult abs_le_iff)
    moreover have "0 \<le> i" "i < 2 ^ p" by (simp_all add: i_def)
    ultimately have flip: "0 \<le> i + (- off) * 2 ^ l \<and> i + (- off) * 2 ^ l < 2 ^ p" using False
      unfolding mult_minus_left d_def [symmetric] by linarith
    have o': "- 32 \<le> - off" "- off \<le> 32" using o by simp_all
    note f = page_ok [OF o' flip]
    have n: "rf_near l p blk (rf_addr s blk (- off)) \<and> uint (rf_addr s blk (- off)) mod 2 ^ l = 0"
      by (rule near [OF f o'])
    have "samePage s blk (rf_addr s blk off) = Inr False"
      unfolding rf_addr_page(1) [OF g o] using False by (simp add: i_def d_def)
    moreover have "blockAddress s (rf_addr s blk (- off)) = rf_addr s blk (- off)"
      using n by (simp add: blockAddress_aligned [OF g])
    ultimately have "rf_candidate s blk off = Inr (rf_addr s blk (- off))"
      unfolding rf_candidate_def Let_def by (simp only: f(1) bind_result_Inr if_False require_True simp_thms)
    then show ?thesis using n by (intro exI [of _ "rf_addr s blk (- off)"] conjI) simp_all
  qed
qed

section \<open>Notification\<close>

lemma rf_candidates:
  assumes "rf_geometry l p s" "uint blk mod 2 ^ l = 0" "\<forall>d \<in> set ds. - 32 \<le> draws d \<and> draws d \<le> 32"
  shows "\<exists>as. fold_result (\<lambda>d addresses. bind_result (rf_candidate s blk (draws d)) (\<lambda>a.
        Inr (addresses @ [(a, 0)]))) ds acc = Inr (acc @ as) \<and> length as = length ds \<and>
      (\<forall>(a, prio) \<in> set as. prio = (0 :: int) \<and> rf_near l p blk a \<and> uint a mod 2 ^ l = 0)"
  using assms(3)
proof (induction ds arbitrary: acc)
  case (Cons d ds)
  then obtain a where a: "rf_candidate s blk (draws d) = Inr a" "rf_near l p blk a" "uint a mod 2 ^ l = 0"
    using rf_candidate_near [OF assms(1) _ _ assms(2), of "draws d"] by auto
  from Cons.IH [of "acc @ [(a, 0)]"] Cons.prems obtain as where
    "fold_result (\<lambda>d addresses. bind_result (rf_candidate s blk (draws d)) (\<lambda>a.
        Inr (addresses @ [(a, 0)]))) ds (acc @ [(a, 0)]) = Inr ((acc @ [(a, 0)]) @ as)" "length as = length ds"
    "\<forall>(a, prio) \<in> set as. prio = 0 \<and> rf_near l p blk a \<and> uint a mod 2 ^ l = 0" by auto
  then show ?case using a by (intro exI [of _ "(a, 0) # as"]) simp
qed simp

lemma rf_calculate_near:
  assumes "rf_geometry l p s" "\<forall>d < nat (degree s). - 32 \<le> draws d \<and> draws d \<le> 32"
  shows "\<exists>as. rf_calculatePrefetch draws s pfi = Inr as \<and> length as = nat (degree s) \<and>
    (\<forall>(a, prio) \<in> set as. prio = 0 \<and> rf_near l p (blockAddress s (pfi_address pfi)) a \<and> uint a mod 2 ^ l = 0)"
proof -
  have al: "uint (blockAddress s (pfi_address pfi)) mod 2 ^ l = 0"
    unfolding blockAddress_uint [OF assms(1)] by (simp add: mod_diff_left_eq [symmetric] minus_mod_eq_mult_div)
  from rf_candidates [OF assms(1) al, of "[0..<nat (degree s)]" draws "[]"] assms(2) show ?thesis
    unfolding rf_calculatePrefetch_def by auto
qed

lemma prefetch_packet_total:
  assumes "\<not> req_isHTMCmd r" "\<not> req_isNoFill r" "hasSize r" "hasPaddr r"
  shows "\<exists>p0 p. new_packet r HardPFReq = Inr p0 \<and> allocate p0 fresh = Inr p"
proof -
  from assms obtain p0 where p0: "new_packet r HardPFReq = Inr p0" "pkt_flags p0 = VALID_ADDR OR VALID_SIZE"
    by (simp add: new_packet_def Let_def pkt_setFlag_def flag_set_def)
  have "\<exists>p. allocate p0 fresh = Inr p"
    by (simp add: allocate_def getSize_def pkt_isSet_def p0(2) flag_noneSet_def flag_isSet_def VALID_ADDR_def
        VALID_SIZE_def STATIC_DATA_def DYNAMIC_DATA_def)
  then show ?thesis using p0(1) by blast
qed

lemma prefetch_request_flags:
  assumes "f \<in> {0, SECURE}"
  shows "\<not> req_isHTMCmd (setDomainID d (new_request i now a sz 0 rid\<lparr>req_flags := f\<rparr>)\<lparr>req_taskId := t\<rparr>)"
    "\<not> req_isNoFill (setDomainID d (new_request i now a sz 0 rid\<lparr>req_flags := f\<rparr>)\<lparr>req_taskId := t\<rparr>)"
    "hasSize (setDomainID d (new_request i now a sz 0 rid\<lparr>req_flags := f\<rparr>)\<lparr>req_taskId := t\<rparr>)"
    "hasPaddr (setDomainID d (new_request i now a sz 0 rid\<lparr>req_flags := f\<rparr>)\<lparr>req_taskId := t\<rparr>)"
    "req_isSecure (setDomainID d (new_request i now a sz 0 rid\<lparr>req_flags := f\<rparr>)\<lparr>req_taskId := t\<rparr>) \<longleftrightarrow> f = SECURE"
    "\<not> req_isDemandFetch (setDomainID d (new_request i now a sz 0 rid\<lparr>req_flags := f\<rparr>)\<lparr>req_taskId := t\<rparr>)"
  using assms
  by (auto simp: setDomainID_def new_request_def req_isHTMCmd_def req_isNoFill_def hasSize_def req_isSecure_def
      hasPaddr_def flag_isSet_def flag_set_def SECURE_def HTM_START_def HTM_COMMIT_def HTM_CANCEL_def HTM_ABORT_def
      NO_FILL_def REQ_VALID_SIZE_def VALID_PADDR_def VALID_DOMAIN_ID_def req_isDemandFetch_def DEMAND_FETCH_def)

lemma secure_request:
  "(if sec then setFlags SECURE (new_request i now a sz 0 rid) else Inr (new_request i now a sz 0 rid)) =
   Inr (new_request i now a sz 0 rid\<lparr>req_flags := if sec then SECURE else 0\<rparr>)"
  by (simp add: setFlags_def) (simp add: new_request_def flag_set_def)

lemma createPkt_total: "\<exists>dp'. createPkt env paddr blk_size rid tag t dp = Inr dp'"
proof -
  have f: "(if pfi_secure (dp_pfInfo dp) then SECURE else 0) \<in> {0, SECURE}" by simp
  from prefetch_packet_total [OF prefetch_request_flags(1-4) [OF f]] obtain p0 p1 where
    "new_packet (setDomainID (pfi_domainID (dp_pfInfo dp))
       (new_request (env_indeterminate env) (env_now env) paddr blk_size 0 rid
        \<lparr>req_flags := if pfi_secure (dp_pfInfo dp) then SECURE else 0\<rparr>)\<lparr>req_taskId := TaskId_Prefetcher\<rparr>) HardPFReq = Inr p0"
    "allocate p0 (env_fresh env) = Inr p1" by blast
  then show ?thesis by (simp add: createPkt_def Let_def secure_request pfi_getPC_def)
qed

lemma addToQueue_total: "2 \<le> unat sz \<Longrightarrow> \<exists>removed q'. addToQueue sz dpp q = Inr (removed, q')"
  by (cases q) (auto simp: addToQueue_def evict_full_def)

text \<open>
  \<open>rf_state l p P\<close>: the geometry, a cache to ask, room in the queue, and \<open>P\<close> of every queued entry.
  \<open>P\<close> must not depend on the identity and the priority of an entry, which the filter changes.
\<close>

definition rf_state :: "nat \<Rightarrow> nat \<Rightarrow> (deferred \<Rightarrow> bool) \<Rightarrow> 'z queued_scheme \<Rightarrow> bool" where
  "rf_state l p P s \<longleftrightarrow> rf_geometry l p s \<and> \<not> useVirtualAddresses s \<and> pf_hasCache s \<and>
     2 \<le> unat (queueSize s) \<and> list_all P (pfq s)"

definition cv_total :: "cache_view \<Rightarrow> bool" where
  "cv_total cv \<longleftrightarrow> (\<forall>a sec d. is_ok (cv_inCache cv a sec d) \<and> is_ok (cv_inMissQueue cv a sec d))"

lemma rf_state_counters [simp]:
  "rf_state l p P (s\<lparr>pfInCache := n\<rparr>) = rf_state l p P s" "rf_state l p P (s\<lparr>pfSpanPage := n\<rparr>) = rf_state l p P s"
  "rf_state l p P (s\<lparr>pfIdentified := n\<rparr>) = rf_state l p P s"
  "rf_state l p P (s\<lparr>pfqMissing := q, pfBufferHit := n\<rparr>) = rf_state l p P s"
  by (simp_all add: rf_state_def rf_geometry_def)

lemma rf_state_filter:
  assumes "\<And>x n. P (x\<lparr>dp_node := n\<rparr>) = P x" "\<And>x n. P (x\<lparr>dp_priority := n\<rparr>) = P x" "rf_state l p P s"
  shows "rf_state l p P (snd (queue_filter pfi prio s))"
proof -
  obtain f h q' where q': "alreadyInQueue pfi prio (pfq s) = (f, h, q')" by (cases "alreadyInQueue pfi prio (pfq s)")
  have "list_all P (pfq s)" using assms(3) by (simp add: rf_state_def)
  from alreadyInQueue_all [where P = P, OF assms(1,2) this, of pfi prio] have "list_all P q'" by (simp add: q')
  then have st: "rf_state l p P (snd (filter_pfq pfi prio s))"
    using assms(3) by (simp add: filter_pfq_def q' rf_state_def rf_geometry_def)
  have "rf_state l p P (snd (filter_pfqMissing pfi prio t)) = rf_state l p P t" for t :: "'a queued_scheme"
    by (simp add: filter_pfqMissing_def split: prod.splits)
  note missing = this [of "snd (filter_pfq pfi prio s)"]
  obtain g s1 where s1: "filter_pfq pfi prio s = (g, s1)" by (cases "filter_pfq pfi prio s")
  have "snd (queue_filter pfi prio s) \<in> {s, s1, snd (filter_pfqMissing pfi prio s1)}"
    by (simp add: queue_filter_def s1)
  then show ?thesis using assms(3) st missing by (auto simp: s1)
qed

lemma snoop_hit_total:
  assumes "pf_hasCache s" "cv_total cv"
  shows "\<exists>hit. snoop_hit cv s a pfi = Inr hit"
proof -
  from assms(2) obtain b c where "cv_inCache cv a (pfi_secure pfi) (pfi_domainID pfi) = Inr b"
    "cv_inMissQueue cv a (pfi_secure pfi) (pfi_domainID pfi) = Inr c"
    unfolding cv_total_def is_ok_iff by blast
  then show ?thesis using assms(1)
    by (intro exI [of _ "cacheSnoop s \<and> (b \<or> c)"]) (simp add: snoop_hit_def pf_inCache_def pf_inMissQueue_def)
qed

lemma add_pfq_state:
  assumes "rf_state l p P s" "P (dp\<lparr>dp_node := nextNode s\<rparr>)"
  shows "\<exists>s'. add_pfq dp s = Inr s' \<and> rf_state l p P s'"
proof -
  from assms(1) have "2 \<le> unat (queueSize s)" by (simp add: rf_state_def)
  then obtain r q' where q: "addToQueue (queueSize s) (dp\<lparr>dp_node := nextNode s\<rparr>) (pfq s) = Inr (r, q')"
    using addToQueue_total by blast
  have "list_all P q'" by (rule addToQueue_all [OF q]) (use assms in \<open>simp_all add: rf_state_def\<close>)
  then show ?thesis using assms(1) by (simp add: add_pfq_def q count_removed_def rf_state_def rf_geometry_def)
qed

lemma rf_insert_step:
  assumes st: "rf_state l p P s" and cv: "cv_total cv"
    and req: "hasPaddr (pkt_req pkt)" "uint (req_paddr (pkt_req pkt)) div 2 ^ p = uint (pfi_address pfi) div 2 ^ p"
    and P: "\<And>x n. P (x\<lparr>dp_node := n\<rparr>) = P x" "\<And>x n. P (x\<lparr>dp_priority := n\<rparr>) = P x"
    and new: "\<And>dp pk. dp_pfInfo dp = pfi \<Longrightarrow> dp_pkt dp = Some pk \<Longrightarrow> cmd pk = HardPFReq \<Longrightarrow>
      pkt_addr pk = pfi_address pfi \<Longrightarrow> pkt_domainID pk = pfi_domainID pfi \<Longrightarrow> \<not> isMayNotFill pk \<Longrightarrow> P dp"
  shows "\<exists>s'. rf_insert cv env pkt pfi prio s = Inr s' \<and> rf_state l p P s'"
proof -
  obtain found s1 where f: "queue_filter pfi prio s = (found, s1)" by (cases "queue_filter pfi prio s")
  have s1: "rf_state l p P s1" using rf_state_filter [OF P st, of pfi prio] by (simp add: f)
  then have s1': "rf_geometry l p s1" "\<not> useVirtualAddresses s1" "pf_hasCache s1" by (simp_all add: rf_state_def)
  obtain hit where hit: "snoop_hit cv s1 (pfi_address pfi) pfi = Inr hit"
    using snoop_hit_total [OF s1'(3) cv] by blast
  obtain dp where dp: "make_pkt env s1 (pfi_address pfi) (new_deferred pfi 0 prio) = Inr dp"
    unfolding make_pkt_def using createPkt_total by blast
  from createPkt_packet(1,2) [OF dp [unfolded make_pkt_def]] obtain pk where
    "dp_pkt dp = Some pk" "cmd pk = HardPFReq" "pkt_addr pk = pfi_address pfi" "pkt_domainID pk = pfi_domainID pfi"
    "\<not> isMayNotFill pk" "dp_pfInfo dp = pfi" by (auto simp: new_deferred_def)
  then have "P dp" by (intro new)
  then obtain s2 where s2: "add_pfq dp s1 = Inr s2" "rf_state l p P s2" using add_pfq_state [OF s1, of dp] P(1) by auto
  have "rf_insert cv env pkt pfi prio s = (if found then Inr s1 else if hit then Inr (s1\<lparr>pfInCache := pfInCache s1 + 1\<rparr>)
      else Inr s2)"
    using req s1'(2) hit dp s2(1) samePage_div [OF s1'(1)]
    by (simp add: rf_insert_def f getPaddr_def Let_def)
  then show ?thesis using s1 s2(2) by auto
qed

lemma notify_loop_step:
  assumes "rf_state l p P s"
    and "\<forall>(a, prio) \<in> set as. uint a mod 2 ^ l = 0 \<and> uint a div 2 ^ p = uint (pfi_address pfi) div 2 ^ p"
    and ins: "\<And>s a prio. rf_state l p P s \<Longrightarrow> (a, prio) \<in> set as \<Longrightarrow>
      \<exists>s'. ins (derive_prefetchInfo pfi a) prio s = Inr s' \<and> rf_state l p P s'"
  shows "\<exists>s'. notify_loop ins pfi m n as s = Inr s' \<and> rf_state l p P s'"
  using assms
proof (induction as arbitrary: n s)
  case (Cons ap as)
  obtain a prio where ap: "ap = (a, prio)" by (cases ap)
  have g: "rf_geometry l p s" using Cons.prems(1) by (simp add: rf_state_def)
  have b: "blockAddress s a = a" using Cons.prems(2) by (simp add: ap blockAddress_aligned [OF g])
  have same: "samePage s a (pfi_address pfi) = Inr True"
    using Cons.prems(2) by (simp add: ap samePage_div [OF g])
  obtain s2 where s2: "ins (derive_prefetchInfo pfi a) prio (s\<lparr>pfIdentified := pfIdentified s + 1\<rparr>) = Inr s2"
    "rf_state l p P s2"
    using Cons.prems(3) [of "s\<lparr>pfIdentified := pfIdentified s + 1\<rparr>" a prio] Cons.prems(1) ap by auto
  obtain s3 where "notify_loop ins pfi m (n + 1) as s2 = Inr s3" "rf_state l p P s3"
    using Cons.IH [OF s2(2), of "n + 1"] Cons.prems(2,3) by auto
  then show ?case using s2 by (simp add: ap b same)
qed simp


definition demo_fill_pf :: random_fill where
  "demo_fill_pf = queued.extend demo_queued \<lparr>lowRange = -32, highRange = 32, degree = 2\<rparr>"


end
