(* ===== verification/SHB.thy ===== *)
theory SHB
  imports Random_Fill
begin

text \<open>
  The safe-history-buffer prefetcher (\<^verbatim>\<open>mem/cache/prefetch/shb.hh\<close>, \<^verbatim>\<open>shb.cc\<close>): it records the blocks of
  the most recent safe accesses and, at constant or random intervals, fetches a random block of the
  window around a randomly chosen record. The draws of the generator are arguments.
\<close>

section \<open>State\<close>

record shb_req =
  sr_addr :: addr
  sr_secure :: bool
  sr_domainID :: domain_id
  sr_requestorID :: "16 word"

record shb_pf = pf_base +
  shb_list :: "shb_req list"
  shb_latency :: "64 word"
  shb_cacheSnoop :: bool
  shbSize :: u32
  shbIssue :: u32
  issueInterval :: "64 word"
  maxIssueInterval :: "64 word"
  blkNum :: u32
  shbSelect :: u32
  readyTime :: tick
  offsetCount :: "nat \<Rightarrow> nat"

definition new_shb ::
  "pf_base \<Rightarrow> 64 word \<Rightarrow> bool \<Rightarrow> u32 \<Rightarrow> u32 \<Rightarrow> 64 word \<Rightarrow> 64 word \<Rightarrow> u32 \<Rightarrow> u32 \<Rightarrow> shb_pf result" where
  "new_shb base lat snoop sz issue interval max_interval blk_num select =
     (let m = (if issue = 1 then interval else max_interval)
      in require (\<not> (issue = 2 \<and> m \<le> interval)) Panic
           (Inr (pf_base.extend base \<lparr>shb_list = [], shb_latency = lat, shb_cacheSnoop = snoop, shbSize = sz,
              shbIssue = issue, issueInterval = interval, maxIssueInterval = m, blkNum = blk_num,
              shbSelect = select, readyTime = 0, offsetCount = (\<lambda>_. 0)\<rparr>)))"

section \<open>Recording an access\<close>

definition shb_entry :: "u32 \<Rightarrow> packet \<Rightarrow> shb_req" where
  "shb_entry blk pkt = \<lparr>sr_addr = pkt_addr pkt - pkt_addr pkt mod ucast blk, sr_secure = pkt_isSecure pkt,
     sr_domainID = pkt_domainID pkt, sr_requestorID = req_requestorId (pkt_req pkt)\<rparr>"

definition notifySHB :: "packet \<Rightarrow> 'z shb_pf_scheme \<Rightarrow> 'z shb_pf_scheme result" where
  "notifySHB pkt s =
     bind_result (getAddr pkt) (\<lambda>_. require (pf_blkSize s \<noteq> 0) Undefined
     (require (length (shb_list s) \<le> unat (shbSize s)) Assert
     (bind_result (if length (shb_list s) = unat (shbSize s)
                   then require (shb_list s \<noteq> []) Undefined (Inr (butlast (shb_list s)))
                   else Inr (shb_list s)) (\<lambda>q.
      bind_result (isSecure pkt) (\<lambda>_. Inr (s\<lparr>shb_list := shb_entry (pf_blkSize s) pkt # q\<rparr>))))))"

section \<open>Issuing a fetch\<close>

definition shb_request :: "sim_env \<Rightarrow> 'z shb_pf_scheme \<Rightarrow> shb_req \<Rightarrow> addr \<Rightarrow> request result" where
  "shb_request env s e a =
     (let r0 = new_request (env_indeterminate env) (env_now env) a (pf_blkSize s) 0 (sr_requestorID e)
      in bind_result (if sr_secure e then setFlags SECURE r0 else Inr r0) (\<lambda>r1.
         clearFlags DEMAND_FETCH (setDomainID (sr_domainID e) r1\<lparr>req_taskId := TaskId_Prefetcher\<rparr>)))"

text \<open>The window has \<^verbatim>\<open>blkNum * blkSize\<close> bytes, a product of 32-bit values.\<close>

definition shb_addr :: "'z shb_pf_scheme \<Rightarrow> addr \<Rightarrow> u32 \<Rightarrow> addr result" where
  "shb_addr s a blk_offset =
     (let window = ucast (blkNum s * pf_blkSize s)
      in require (window \<noteq> 0) Undefined (Inr (a - a mod window + ucast (blk_offset * pf_blkSize s))))"

definition shb_getPacket ::
  "sim_env \<Rightarrow> u32 \<Rightarrow> u32 \<Rightarrow> 'z shb_pf_scheme \<Rightarrow> (packet option \<times> 'z shb_pf_scheme) result" where
  "shb_getPacket env idx blk_offset s =
     (if shb_list s = [] then Inr (None, s)
      else require (length (shb_list s) \<le> unat (shbSize s)) Assert
        (require (shbSelect s = 1) Panic
        (require (unat idx < length (shb_list s)) Undefined
        (let e = shb_list s ! unat idx
         in bind_result (shb_addr s (sr_addr e) blk_offset) (\<lambda>a.
            bind_result (shb_request env s e a) (\<lambda>r.
            bind_result (new_packet r HardPFReq) (\<lambda>p0.
            bind_result (allocate p0 (env_fresh env)) (\<lambda>p.
            Inr (Some p, s\<lparr>pfIssued := pfIssued s + 1, offsetCount := (offsetCount s)(unat blk_offset :=
                   offsetCount s (unat blk_offset) + 1)\<rparr>)))))))))"

section \<open>When the next fetch is issued\<close>

text \<open>The loop of the random mode, over the values the generator returns; \<open>None\<close> if the list is too short.\<close>

fun advance_ready :: "tick \<Rightarrow> tick \<Rightarrow> u32 list \<Rightarrow> tick \<Rightarrow> tick option" where
  "advance_ready now clk draws t =
     (if now < t then Some t
      else case draws of [] \<Rightarrow> None | d # ds \<Rightarrow> advance_ready now clk ds (t + ucast d * clk))"

declare advance_ready.simps [simp del]

definition shb_nextPrefetchReadyTime ::
  "sim_env \<Rightarrow> u32 list \<Rightarrow> 'z shb_pf_scheme \<Rightarrow> (tick option \<times> 'z shb_pf_scheme) result" where
  "shb_nextPrefetchReadyTime env draws s =
     (if shbIssue s = 1
      then let issue_tick = issueInterval s * env_clockPeriod env
           in require (issue_tick \<noteq> 0) Undefined
                (Inr (Some (env_now env - env_now env mod issue_tick + issue_tick), s))
      else require (shbIssue s = 2) Assert
        (case advance_ready (env_now env) (env_clockPeriod env) draws (readyTime s) of
           None \<Rightarrow> Inr (None, s)
         | Some t \<Rightarrow> Inr (Some t, s\<lparr>readyTime := t\<rparr>)))"

section \<open>The buffer is the recent history\<close>

lemma notifySHB_take:
  assumes "shb_list s = take (unat (shbSize s)) h" "0 < shbSize s" "pf_blkSize s \<noteq> 0" "pkt_isSet pkt VALID_ADDR"
  shows "\<exists>s'. notifySHB pkt s = Inr s' \<and> shb_list s' = take (unat (shbSize s)) (shb_entry (pf_blkSize s) pkt # h) \<and>
    shbSize s' = shbSize s \<and> pf_blkSize s' = pf_blkSize s"
proof -
  obtain n where n: "unat (shbSize s) = Suc n" using assms(2) by (metis gr0_implies_Suc unat_gt_0 word_neq_0_conv)
  have q: "(if length (shb_list s) = Suc n then require (shb_list s \<noteq> []) Undefined (Inr (butlast (shb_list s)))
      else Inr (shb_list s)) = Inr (take n h)"
  proof (cases "length h \<le> n")
    case True
    then show ?thesis by (simp add: assms(1) n)
  next
    case False
    then have "length (shb_list s) = Suc n" "shb_list s \<noteq> []" "butlast (shb_list s) = take n h"
      by (auto simp: assms(1) n butlast_take)
    then show ?thesis by simp
  qed
  show ?thesis unfolding notifySHB_def n q using assms n by (simp add: getAddr_def isSecure_def)
qed

text \<open>Claim C13. The buffer is a window on the history: after any sequence of recorded accesses it holds
  exactly the most recent ones, as many as its size, newest first, each with its block address, domain,
  secure bit and requestor; no assertion fails on the way.\<close>
theorem shb_is_recent_history:
  assumes "shb_list s = []" "0 < shbSize s" "pf_blkSize s \<noteq> 0" "\<forall>pkt \<in> set pkts. pkt_isSet pkt VALID_ADDR"
  shows "\<exists>s'. fold_result notifySHB pkts s = Inr s' \<and>
    shb_list s' = take (unat (shbSize s)) (rev (map (shb_entry (pf_blkSize s)) pkts))"
proof -
  have "\<exists>s'. fold_result notifySHB pkts u = Inr s' \<and>
      shb_list s' = take (unat (shbSize s)) (rev (map (shb_entry (pf_blkSize s)) pkts) @ h)"
    if "shb_list u = take (unat (shbSize s)) h" "shbSize u = shbSize s" "pf_blkSize u = pf_blkSize s" for u h
    using that assms(4)
  proof (induction pkts arbitrary: u h)
    case (Cons pkt pkts)
    from notifySHB_take [of u h pkt] Cons.prems assms(2,3) obtain u' where u': "notifySHB pkt u = Inr u'"
      "shb_list u' = take (unat (shbSize s)) (shb_entry (pf_blkSize s) pkt # h)"
      "shbSize u' = shbSize s" "pf_blkSize u' = pf_blkSize s" by auto
    from Cons.IH [OF u'(2-4)] Cons.prems(4) show ?case by (simp add: u'(1))
  qed simp
  from this [of s "[]"] assms(1) show ?thesis by simp
qed

definition demo_shb :: shb_pf where
  "demo_shb = pf_base.extend (pf_base.truncate demo_queued) \<lparr>shb_list = [], shb_latency = 1, shb_cacheSnoop = False,
     shbSize = 2, shbIssue = 2, issueInterval = 5, maxIssueInterval = 10, blkNum = 8, shbSelect = 1, readyTime = 0,
     offsetCount = (\<lambda>_. 0)\<rparr>"

theorem shb_is_recent_history_witness:
  "\<exists>s'. fold_result notifySHB [demo_read, demo_read\<lparr>pkt_addr := 0x1234\<rparr>, demo_read\<lparr>pkt_addr := 0x5678\<rparr>] demo_shb = Inr s' \<and>
     map sr_addr (shb_list s') = [0x5640, 0x1200]"
proof -
  let ?ps = "[demo_read, demo_read\<lparr>pkt_addr := 0x1234\<rparr>, demo_read\<lparr>pkt_addr := 0x5678\<rparr>]"
  have "shb_list demo_shb = []" "0 < shbSize demo_shb" "pf_blkSize demo_shb \<noteq> 0" and
    f: "unat (shbSize demo_shb) = 2" "pf_blkSize demo_shb = 64"
    by (simp_all add: demo_shb_def pf_base.extend_def pf_base.truncate_def demo_queued_def)
  moreover have "\<forall>pkt \<in> set ?ps. pkt_isSet pkt VALID_ADDR"
    by (simp add: pkt_isSet_def demo_read_def flag_isSet_def VALID_ADDR_def)
  ultimately obtain s' where s': "fold_result notifySHB ?ps demo_shb = Inr s'"
    "shb_list s' = take 2 (rev (map (shb_entry 64) ?ps))"
    using shb_is_recent_history [of demo_shb ?ps] by (auto simp: f)
  have "map sr_addr (take 2 (rev (map (shb_entry 64) ?ps))) = [0x5640, 0x1200]"
    by code_simp
  then show ?thesis using s' by metis
qed

section \<open>Issued fetches\<close>

lemma shb_addr_window:
  fixes s :: "'z shb_pf_scheme"
  defines "B \<equiv> unat (pf_blkSize s)" and "W \<equiv> unat (blkNum s) * unat (pf_blkSize s)"
  assumes "W < 2 ^ 32" "unat blk_offset < unat (blkNum s)" "0 < B" "unat a div W * W + W \<le> 2 ^ 64"
  shows "\<exists>x. shb_addr s a blk_offset = Inr x \<and> unat x = unat a div W * W + unat blk_offset * B"
proof -
  let ?w = "ucast (blkNum s * pf_blkSize s) :: addr"
  have W0: "0 < W" using assms(4,5) by (simp add: W_def B_def)
  have w32: "unat (blkNum s * pf_blkSize s) = W"
    using assms(3) by (simp add: W_def unat_word_ariths)
  then have w: "unat ?w = W" by simp
  have "unat blk_offset * B < W" unfolding W_def B_def using assms(4,5) B_def by simp
  then have o: "unat blk_offset * B < W" .
  have ou: "unat (blk_offset * pf_blkSize s) = unat blk_offset * B"
    using o assms(3) by (simp add: B_def unat_word_ariths)
  have "unat (a - a mod ?w) = unat a - unat a mod W"
    by (simp add: unat_sub word_mod_less_divisor word_le_nat_alt unat_mod w32)
  also have "\<dots> = unat a div W * W" by (simp add: minus_mod_eq_div_mult)
  finally have b: "unat (a - a mod ?w) = unat a div W * W" .
  have "unat (a - a mod ?w + ucast (blk_offset * pf_blkSize s)) = unat a div W * W + unat blk_offset * B"
    using assms(6) o by (subst unat_add_lem [THEN iffD1]) (simp_all add: b ou)
  moreover have "?w \<noteq> 0" using w W0 by (metis unat_0 less_numeral_extra(3))
  ultimately show ?thesis by (simp add: shb_addr_def)
qed

text \<open>Claim C14. Whatever is drawn, the prefetcher issues a fetch without an error. It is for the block of the
  drawn offset in the aligned window of the drawn record, carries the record's domain and secure bit, may
  fill, and is no demand fetch; the buffer is unchanged. Different offsets thus give different
  blocks, and the offsets cover the window.\<close>
theorem shb_fetch_in_window:
  fixes s :: "'z shb_pf_scheme" and idx blk_offset :: u32
  defines "B \<equiv> unat (pf_blkSize s)" and "W \<equiv> unat (blkNum s) * unat (pf_blkSize s)" and "e \<equiv> shb_list s ! unat idx"
  assumes "length (shb_list s) \<le> unat (shbSize s)" "shbSelect s = 1" "unat idx < length (shb_list s)"
    and "unat blk_offset < unat (blkNum s)" "W < 2 ^ 32" "0 < B" "unat (sr_addr e) div W * W + W \<le> 2 ^ 64"
  shows "\<exists>p s'. shb_getPacket env idx blk_offset s = Inr (Some p, s') \<and>
    unat (pkt_addr p) = unat (sr_addr e) div W * W + unat blk_offset * B \<and> cmd p = HardPFReq \<and>
    pkt_domainID p = sr_domainID e \<and> pkt_isSecure p = sr_secure e \<and> \<not> isMayNotFill p \<and> \<not> isDemandFetch p \<and>
    shb_list s' = shb_list s"
proof -
  obtain a where a: "shb_addr s (sr_addr e) blk_offset = Inr a"
    "unat a = unat (sr_addr e) div W * W + unat blk_offset * B"
    using shb_addr_window [of s blk_offset "sr_addr e"] assms by auto
  define r where "r = setDomainID (sr_domainID e) (new_request (env_indeterminate env) (env_now env) a (pf_blkSize s) 0
    (sr_requestorID e)\<lparr>req_flags := if sr_secure e then SECURE else 0\<rparr>)\<lparr>req_taskId := TaskId_Prefetcher\<rparr>"
  have f: "(if sr_secure e then SECURE else 0) \<in> {0, SECURE}" by simp
  note rf = prefetch_request_flags [OF f, where d = "sr_domainID e" and t = TaskId_Prefetcher and sz = "pf_blkSize s" and
      i = "env_indeterminate env" and now = "env_now env" and a = a and rid = "sr_requestorID e", folded r_def]
  have "r\<lparr>req_flags := flag_clear (req_flags r) DEMAND_FETCH\<rparr> = r"
    by (simp add: r_def setDomainID_def flag_clear_def SECURE_def DEMAND_FETCH_def)
  then have "clearFlags DEMAND_FETCH r = Inr r" using rf(4) by (simp add: clearFlags_def)
  then have req: "shb_request env s e a = Inr r"
    by (simp add: shb_request_def Let_def secure_request r_def [symmetric])
  obtain p0 p where p: "new_packet r HardPFReq = Inr p0" "allocate p0 (env_fresh env) = Inr p"
    using prefetch_packet_total [OF rf(1-4)] by blast
  have "pkt_addr p = a" "pkt_isSecure p = sr_secure e" "cmd p = HardPFReq" "pkt_req p = r" "\<not> isMayNotFill p"
    using new_packet_fields [OF p(1)] allocate_fields [OF p(2)] fill_bits_allocate [OF p(2)] rf
    by (simp_all add: r_def setDomainID_def new_request_def SECURE_def)
  moreover have "shb_list s \<noteq> []" using assms(6) by auto
  ultimately show ?thesis using assms(4-6) a req p rf(6)
    by (simp add: shb_getPacket_def e_def [symmetric] isDemandFetch_def pkt_domainID_def getDomainID_def)
      (simp add: r_def setDomainID_def)
qed

theorem shb_fetch_in_window_witness:
  "\<exists>p s'. shb_getPacket demo_env 0 3 (demo_shb\<lparr>shb_list := [\<lparr>sr_addr = 0x1234, sr_secure = False, sr_domainID = 5,
       sr_requestorID = 2\<rparr>]\<rparr>) = Inr (Some p, s') \<and> unat (pkt_addr p) = 0x12c0 \<and> pkt_domainID p = 5"
proof -
  let ?s = "demo_shb\<lparr>shb_list := [\<lparr>sr_addr = 0x1234, sr_secure = False, sr_domainID = 5, sr_requestorID = 2\<rparr>]\<rparr>"
  have f: "pf_blkSize ?s = 64" "blkNum ?s = 8" "shbSize ?s = 2" "shbSelect ?s = 1"
    by (simp_all add: demo_shb_def pf_base.extend_def pf_base.truncate_def demo_queued_def)
  show ?thesis using shb_fetch_in_window [of ?s 0 3 demo_env, unfolded f] by auto
qed

section \<open>The random issue interval\<close>

lemma advance_ready_bounds:
  assumes "0 < unat clk" "\<forall>d \<in> set draws. lo \<le> unat d \<and> unat d \<le> hi"
    and "unat now + hi * unat clk < 2 ^ 64" "unat now < unat t + length draws * (lo * unat clk)"
  shows "\<exists>t'. advance_ready now clk draws t = Some t' \<and> unat now < unat t' \<and>
    (unat t \<le> unat now \<longrightarrow> unat t' \<le> unat now + hi * unat clk) \<and> unat clk dvd (unat t' - unat t)"
  using assms
proof (induction draws arbitrary: t)
  case Nil
  then show ?case by (simp add: advance_ready.simps word_less_nat_alt)
next
  case (Cons d draws)
  show ?case
  proof (cases "unat now < unat t")
    case True
    then show ?thesis by (simp add: advance_ready.simps [of now clk "d # draws"] word_less_nat_alt)
  next
    case False
    let ?t = "t + ucast d * clk" and ?c = "unat clk"
    have d: "lo \<le> unat d" "unat d \<le> hi" using Cons.prems(2) by simp_all
    have dc: "lo * ?c \<le> unat d * ?c" "unat d * ?c \<le> hi * ?c" using d by simp_all
    have m: "unat (ucast d * clk) = unat d * ?c"
    proof -
      have "unat d * ?c < 2 ^ 64" using dc(2) Cons.prems(3) by linarith
      then show ?thesis by (subst unat_mult_lem [THEN iffD1]) simp_all
    qed
    have t': "unat ?t = unat t + unat d * ?c"
    proof -
      have "unat t + unat d * ?c < 2 ^ 64" using dc(2) Cons.prems(3) False by linarith
      then show ?thesis by (subst unat_add_lem [THEN iffD1]) (simp_all add: m)
    qed
    have step: "advance_ready now clk (d # draws) t = advance_ready now clk draws ?t"
      using False by (simp add: advance_ready.simps [of now clk "d # draws"] word_less_nat_alt)
    have "unat now < unat t + (lo * ?c + length draws * (lo * ?c))" using Cons.prems(4) by simp
    then have "unat now < unat ?t + length draws * (lo * ?c)" using t' dc(1) by linarith
    with Cons.IH [of ?t] Cons.prems(1-3) obtain t' where h: "advance_ready now clk draws ?t = Some t'" "unat now < unat t'"
      "unat ?t \<le> unat now \<longrightarrow> unat t' \<le> unat now + hi * ?c" "?c dvd (unat t' - unat ?t)" by auto
    have "unat t' \<le> unat now + hi * ?c"
    proof (cases "unat now < unat ?t")
      case True
      then have "t' = ?t" using h(1) by (subst (asm) advance_ready.simps) (simp add: word_less_nat_alt)
      then have "unat t' = unat t + unat d * ?c" using t' by simp
      then show ?thesis using dc(2) False by linarith
    qed (use h(3) in simp)
    moreover have "?c dvd (unat t' - unat t)"
    proof (cases "unat ?t \<le> unat t'")
      case True
      then have "unat t' - unat t = (unat t' - unat ?t) + unat d * ?c" using t' by simp
      then show ?thesis using h(4) by simp
    next
      case c: False
      then have "unat now < unat ?t" using h(2) by simp
      then have "t' = ?t" using h(1) by (subst (asm) advance_ready.simps) (simp add: word_less_nat_alt)
      then show ?thesis using c by simp
    qed
    ultimately show ?thesis using h(1,2) step by auto
  qed
qed



end
