(* ===== verification/Spec2Isabelle.thy ===== *)
theory Spec2Isabelle
  imports Cache_Levels SHB
begin

text \<open>
  A verification library for the classic caches of gem5 with the random-and-safe (RaS) extensions: caches
  that defend against cache side channels by not filling the lines of demand accesses, by fetching random
  lines of a history of safe accesses instead, and by mapping lines to random places.  File names below are
  relative to \<^verbatim>\<open>src/gem5/src\<close>.

  \<^bold>\<open>The program and its parts.\<close>  A processor sends requests (\<^verbatim>\<open>mem/request.hh\<close>) in packets
  (\<^verbatim>\<open>mem/packet.hh\<close>).  A cache (\<^verbatim>\<open>mem/cache/base.cc\<close>, \<^verbatim>\<open>mem/cache/cache.cc\<close>) looks the line up in its
  tag store (\<^verbatim>\<open>mem/cache/tags\<close>), which uses an indexing policy and a replacement policy.  A hit is answered
  from the block (\<^verbatim>\<open>mem/cache/cache_blk.hh\<close>).  A miss takes a register (\<^verbatim>\<open>mem/cache/mshr.cc\<close>) of the miss
  queue or joins one; the register is sent below, and the response fills a block, or the temporary block if
  the line must not be filled, and serves the targets of the register.  Evicted lines wait in the write
  buffer.  Prefetchers (\<^verbatim>\<open>mem/cache/prefetch\<close>) observe accesses and offer packets when nothing else is to be
  sent.  A RaS request carries a domain and the flags \<open>NO_FILL\<close> and \<open>DEMAND_FETCH\<close>.  Its packet carries
  \<open>MAY_NOT_FILL\<close>, which keeps a register from filling, and \<open>NO_FILL_LOWER\<close>, by which a response tells the
  levels above not to fill.

  \<^bold>\<open>Conventions.\<close>  Every operation of the code is a function on explicit state.  An operation that can
  fail returns \<open>sim_error + 'a\<close>: a failed \<^verbatim>\<open>assert\<close>, \<^verbatim>\<open>panic\<close> or \<^verbatim>\<open>fatal\<close>, or undefined behaviour, is a left
  value.  Machine integers are words of their width, and wrap.  Objects behind pointers are handles, which
  are positions in the vector that owns them.  Random draws, the current tick, the content of memory that
  is allocated and not yet written, and the caches above are arguments, collected for a cache in the record
  \<open>cache_env\<close>; its parameters are the record \<open>cache_conf\<close>.  Calls on registers of another cache are returned
  as \<open>up_call\<close>s, and what a cache sends as \<open>cache_event\<close>s, in the order of the code.

  \<^bold>\<open>Theories.\<close>
  \<^item> \<open>Prelude\<close>: machine types, results and shared lemmas.
  \<^item> \<open>Int_Math\<close>, \<open>Sat_Counter\<close>: \<^verbatim>\<open>base/bitfield.hh\<close>, \<^verbatim>\<open>base/intmath.hh\<close>, \<^verbatim>\<open>base/sat_counter.hh\<close>, with the
    exactness of the logarithms and the limits of the counters.
  \<^item> \<open>Request\<close>, \<open>Packet\<close>, \<open>Packet_Data\<close>: requests with their flags, copies and splits, the command table, packets,
    payload and functional accesses.  Shown are the consistency of the command table, that a split request
    is a partition, and that bytes written to a block are read back.
  \<^item> \<open>Cache_Blk\<close>: blocks, coherence bits and load locks.  Shown is what a store-conditional promises, as a
    safety and as a liveness property over runs of lock events.
  \<^item> \<open>Indexing\<close>, \<open>Skewed\<close>: the set-associative, random and skewed policies.  The contract is the locale
    \<open>indexing_policy\<close>: an address is regenerated from its tag and position.
  \<^item> \<open>Replacement\<close>, \<open>Tree_PLRU\<close>: ten policies under the locale \<open>replacement_policy\<close>, with
    \<open>invalid_first_policy\<close> for those that prefer an invalidated entry.  Shown are victims and the termination
    of the loop of the second-chance policy.
  \<^item> \<open>Tags\<close>, \<open>New_Rand_Tags\<close>: the set-associative store and the random store.  The locale \<open>block_map\<close> makes a
    store a finite map from lines to blocks; insertion and invalidation refine update and deletion.
  \<^item> \<open>Prefetch\<close>, \<open>Queued_Prefetch\<close>, \<open>Random_Fill\<close>, \<open>SHB\<close>: the prefetchers.  Shown are the invariant that
    every queued prefetch belongs to the domain of an access that was observed, the window of the random
    candidates, the safe history as the list of the most recent accesses, and that the pacing of issues ends.
  \<^item> \<open>Cache_Queue\<close>, \<open>Write_Queue\<close>, \<open>MSHR\<close>, \<open>MSHR_Queue\<close>: the queues, with the locale \<open>entry_class\<close> for what a
    queue asks of its entries, interpreted by both kinds of entry.  Shown are the invariant of the lists in
    every reachable queue, the order in which a register serves its targets, and that a register keeps from
    filling exactly as long as every target consents.
  \<^item> \<open>Write_Allocator\<close>: the detection of write streams.
  \<^item> \<open>Base_Cache\<close>: the state of a cache, blocking, buffers, fills, evictions, write-backs, acknowledgements.
  \<^item> \<open>Cache_Access\<close>, \<open>Cache_Request\<close>, \<open>Cache_Snoop\<close>, \<open>Cache_Response\<close>, \<open>Cache_Send\<close>: the handlers of the
    cache in timing mode: \<^verbatim>\<open>access\<close>, \<^verbatim>\<open>satisfyRequest\<close>, \<^verbatim>\<open>recvTimingReq\<close>, \<^verbatim>\<open>recvTimingSnoopReq\<close>,
    \<^verbatim>\<open>recvTimingResp\<close>, \<^verbatim>\<open>getNextQueueEntry\<close>, \<^verbatim>\<open>sendMSHRQueuePacket\<close> and what they call.  A handler of the code
    that is long is composed of definitions for its parts, in the order of the code.
  \<^item> \<open>No_Fill\<close>: a no-fill response goes through the temporary block.
  \<^item> \<open>Quiet_Response\<close>, \<open>Cache_Safety\<close>: no handler on the path of a no-fill load changes which lines are
    present or the replacement state.  The step relation \<open>quiet_run\<close> lets requests, sends, responses and
    acknowledgements follow each other in any order; the locale \<open>quiet_store\<close> is what the tag store has to
    promise, and both stores keep it.
  \<^item> \<open>Cache_Levels\<close>: a write-back that must not fill passes a level, and the acknowledgement of an unaligned
    demand load misses the register below.

  \<^bold>\<open>Bounds and fuel.\<close>  Every loop of the code that is modelled ends, and its function is total; there is
  no fuel.  Loops that depend on arithmetic, such as the walk of the tree policy or the second-chance scan,
  have a measure.  Where the code may loop or fail for some parameters, the bound is a hypothesis of the
  theorem, and its witness shows that it can hold.

  \<^bold>\<open>Not modelled.\<close>  Of the cache: atomic and functional mode, the compressor, which no RaS configuration
  has, the ports and the events that call the handlers, the probes, checkpoints, the visitors for write-back
  and invalidation of the whole cache, and counters that are only statistics.  \<^verbatim>\<open>Cache::sendMSHRQueuePacket\<close>
  snoops the caches above for a hardware prefetch before it calls the method of the base class; only the
  latter is modelled, because the answer depends on the state of caches above while the packet is out.  The
  interleaving of several caches is not modelled; a cache above or below appears through its packets.
  Sector, compressed and fully associative tag stores, other prefetchers, Ruby, memory controllers,
  processors and devices are outside the RaS mechanisms.
\<close>

end
